(* ===== verification/Rust_Prelude.thy ===== *)
theory Rust_Prelude
  imports Main "HOL-Library.Word"
begin

unbundle bit_operations_syntax

text \<open>
  The prelude of the development: how the Rust code's values, failures and byte handling are
  written in HOL, and the lemmas every component shares.

  \<^item> A call of the program ends in one of four ways: it returns a value (\<open>Ok\<close>), it returns an
    error (\<open>Err\<close>), it panics (an \<open>unwrap\<close> or \<open>expect\<close> on an error, an index or a slice out of
    range, an \<open>unimplemented!\<close>), or it never returns (\<open>Hang\<close>). The type \<open>outcome\<close> has the four.
  \<^item> The images are built with the release profile (Makefile, ysos.py), so integer arithmetic
    wraps and \<open>debug_assert!\<close> is compiled out. Fixed-width integers are words. Sizes that the
    code computes from 8, 16 and 32 bit fields in \<open>usize\<close> cannot reach \<open>2 ^ 64\<close> and are \<open>nat\<close>.
  \<^item> A byte buffer, an array \<open>[u8; N]\<close> and a \<open>str\<close> (its UTF-8 bytes) are lists of bytes.
\<close>

type_synonym u8 = "8 word"
type_synonym u16 = "16 word"
type_synonym u32 = "32 word"
type_synonym u64 = "64 word"
type_synonym isize = int
type_synonym str = "u8 list"

named_theorems outcome_simps \<open>unfolding rules for the outcome combinators\<close>
named_theorems byte_simps \<open>reading integers out of byte lists\<close>

section \<open>Outcomes of a call\<close>

datatype ('e, 'a) outcome = Ok 'a | Err 'e | Panic | Hang

text \<open>The \<open>?\<close> operator and sequencing: errors, panics and divergence propagate.\<close>

fun and_then :: "('e, 'a) outcome \<Rightarrow> ('a \<Rightarrow> ('e, 'b) outcome) \<Rightarrow> ('e, 'b) outcome" where
  "and_then (Ok x) f = f x"
| "and_then (Err e) f = Err e"
| "and_then Panic f = Panic"
| "and_then Hang f = Hang"

text \<open>\<open>Result::unwrap\<close> and \<open>Result::expect\<close>: an error becomes a panic.\<close>

fun unwrap :: "('e, 'a) outcome \<Rightarrow> ('f, 'a) outcome" where
  "unwrap (Ok x) = Ok x"
| "unwrap (Err e) = Panic"
| "unwrap Panic = Panic"
| "unwrap Hang = Hang"

text \<open>\<open>Option::unwrap\<close> and \<open>Option::expect\<close>.\<close>

definition unwrap_option :: "'a option \<Rightarrow> ('e, 'a) outcome" where
  "unwrap_option x = (case x of None \<Rightarrow> Panic | Some y \<Rightarrow> Ok y)"

text \<open>\<open>Option::ok_or\<close>.\<close>

definition ok_or :: "'a option \<Rightarrow> 'e \<Rightarrow> ('e, 'a) outcome" where
  "ok_or x e = (case x of None \<Rightarrow> Err e | Some y \<Rightarrow> Ok y)"

text \<open>A call that may not return: the value \<open>None\<close> of a partial function is divergence.\<close>

definition or_hang :: "('e, 'a) outcome option \<Rightarrow> ('e, 'a) outcome" where
  "or_hang x = (case x of None \<Rightarrow> Hang | Some y \<Rightarrow> y)"

definition is_ok :: "('e, 'a) outcome \<Rightarrow> bool" where
  "is_ok r \<longleftrightarrow> (case r of Ok _ \<Rightarrow> True | _ \<Rightarrow> False)"

lemma and_then_Ok_iff [simp]:
  "and_then m f = Ok y \<longleftrightarrow> (\<exists>x. m = Ok x \<and> f x = Ok y)"
  by (cases m) auto

lemma and_then_OkE:
  assumes "and_then m f = Ok y"
  obtains x where "m = Ok x" and "f x = Ok y"
  using assms by (cases m) auto

lemma and_then_assoc: "and_then (and_then m f) g = and_then m (\<lambda>x. and_then (f x) g)"
  by (cases m) auto

lemma and_then_Ok_right [simp]: "and_then m Ok = m"
  by (cases m) auto

lemma unwrap_Ok_iff [simp]: "unwrap m = Ok y \<longleftrightarrow> m = Ok y"
  by (cases m) auto

lemma unwrap_not_Err [simp]: "unwrap m \<noteq> Err e"
  by (cases m) auto

lemma unwrap_option_simps [simp]:
  "unwrap_option (Some x) = Ok x" "unwrap_option None = Panic"
  by (simp_all add: unwrap_option_def)

lemma unwrap_option_Ok_iff [simp]: "unwrap_option x = Ok y \<longleftrightarrow> x = Some y"
  by (cases x) auto

lemma ok_or_simps [simp]: "ok_or (Some x) e = Ok x" "ok_or None e = Err e"
  by (simp_all add: ok_or_def)

lemma ok_or_Ok_iff [simp]: "ok_or x e = Ok y \<longleftrightarrow> x = Some y"
  by (cases x) auto

lemma or_hang_simps [simp]: "or_hang (Some r) = r" "or_hang None = Hang"
  by (simp_all add: or_hang_def)

lemma is_ok_simps [simp]:
  "is_ok (Ok x)" "\<not> is_ok (Err e)" "\<not> is_ok Panic" "\<not> is_ok Hang"
  by (simp_all add: is_ok_def)

lemma is_ok_iff: "is_ok r \<longleftrightarrow> (\<exists>x. r = Ok x)"
  by (cases r) auto

section \<open>Slices and arrays\<close>

text \<open>\<open>&xs[a..b]\<close> panics unless \<open>a \<le> b\<close> and \<open>b \<le> xs.len()\<close>; \<open>xs[i]\<close> panics out of range.\<close>

definition subslice :: "'a list \<Rightarrow> nat \<Rightarrow> nat \<Rightarrow> ('e, 'a list) outcome" where
  "subslice xs a b = (if a \<le> b \<and> b \<le> length xs then Ok (take (b - a) (drop a xs)) else Panic)"

definition index :: "'a list \<Rightarrow> nat \<Rightarrow> ('e, 'a) outcome" where
  "index xs i = (if i < length xs then Ok (xs ! i) else Panic)"

lemma subslice_Ok_iff:
  "subslice xs a b = Ok ys \<longleftrightarrow> a \<le> b \<and> b \<le> length xs \<and> ys = take (b - a) (drop a xs)"
  by (auto simp: subslice_def)

lemma subslice_in_range [simp]:
  "a \<le> b \<Longrightarrow> b \<le> length xs \<Longrightarrow> subslice xs a b = Ok (take (b - a) (drop a xs))"
  by (simp add: subslice_def)

lemma subslice_out_of_range [simp]: "length xs < b \<Longrightarrow> subslice xs a b = Panic"
  by (simp add: subslice_def)

lemma subslice_length: "subslice xs a b = Ok ys \<Longrightarrow> length ys = b - a"
  by (auto simp: subslice_Ok_iff)

lemma index_in_range [simp]: "i < length xs \<Longrightarrow> index xs i = Ok (xs ! i)"
  by (simp add: index_def)

lemma index_Ok_iff: "index xs i = Ok x \<longleftrightarrow> i < length xs \<and> x = xs ! i"
  by (auto simp: index_def)

text \<open>\<open>dst[at..at + src.len()].copy_from_slice(src)\<close>.\<close>

definition copy_from_slice :: "'a list \<Rightarrow> nat \<Rightarrow> 'a list \<Rightarrow> ('e, 'a list) outcome" where
  "copy_from_slice dst at src =
     (if at + length src \<le> length dst
      then Ok (take at dst @ src @ drop (at + length src) dst) else Panic)"

lemma copy_from_slice_in_range [simp]:
  "at + length src \<le> length dst \<Longrightarrow>
   copy_from_slice dst at src = Ok (take at dst @ src @ drop (at + length src) dst)"
  by (simp add: copy_from_slice_def)

lemma copy_from_slice_length:
  "copy_from_slice dst at src = Ok r \<Longrightarrow> length r = length dst"
  by (auto simp: copy_from_slice_def split: if_splits)

section \<open>Integers as bytes\<close>

text \<open>The value of a little-endian byte sequence, and the sequence of a value.\<close>

fun le_nat :: "u8 list \<Rightarrow> nat" where
  "le_nat [] = 0"
| "le_nat (b # bs) = unat b + 256 * le_nat bs"

fun le_bytes :: "nat \<Rightarrow> nat \<Rightarrow> u8 list" where
  "le_bytes 0 v = []"
| "le_bytes (Suc n) v = word_of_nat (v mod 256) # le_bytes n (v div 256)"

text \<open>\<open>u16::from_le_bytes\<close>, \<open>u32::from_le_bytes\<close>, \<open>u16::to_le_bytes\<close>, \<open>u32::to_le_bytes\<close>.\<close>

definition u16_from_le_bytes :: "u8 list \<Rightarrow> u16" where
  "u16_from_le_bytes bs = word_of_nat (le_nat bs)"

definition u32_from_le_bytes :: "u8 list \<Rightarrow> u32" where
  "u32_from_le_bytes bs = word_of_nat (le_nat bs)"

definition u16_to_le_bytes :: "u16 \<Rightarrow> u8 list" where
  "u16_to_le_bytes w = le_bytes 2 (unat w)"

definition u32_to_le_bytes :: "u32 \<Rightarrow> u8 list" where
  "u32_to_le_bytes w = le_bytes 4 (unat w)"

lemma unat_u8_less [simp]: "unat (b :: u8) < 256"
  using unsigned_less [of b] by simp

lemma unat_u16_less [simp]: "unat (w :: u16) < 65536"
  using unsigned_less [of w] by simp

lemma unat_u32_less [simp]: "unat (w :: u32) < 4294967296"
  using unsigned_less [of w] by simp

lemma unat_u64_less [simp]: "unat (w :: u64) < 18446744073709551616"
  using unsigned_less [of w] by simp

lemma le_nat_bound: "le_nat bs < 256 ^ length bs"
proof (induction bs)
  case Nil
  show ?case by simp
next
  case (Cons b bs)
  have b: "unat b < 256" by simp
  have "le_nat bs + 1 \<le> 256 ^ length bs" using Cons.IH by simp
  then have "256 * le_nat bs + 256 \<le> 256 * 256 ^ length bs"
    by (metis add_mult_distrib2 mult_le_mono2 nat_mult_1_right)
  with b have "unat b + 256 * le_nat bs < 256 * 256 ^ length bs" by linarith
  then show ?case by simp
qed

lemma length_le_bytes [simp]: "length (le_bytes n v) = n"
  by (induction n arbitrary: v) auto

lemma le_nat_le_bytes: "v < 256 ^ n \<Longrightarrow> le_nat (le_bytes n v) = v"
proof (induction n arbitrary: v)
  case 0
  then show ?case by simp
next
  case (Suc n)
  have "v div 256 < 256 ^ n"
    using Suc.prems by (simp add: less_mult_imp_div_less mult.commute)
  then have "le_nat (le_bytes n (v div 256)) = v div 256" by (rule Suc.IH)
  then show ?case by (simp add: unat_of_nat)
qed

lemma le_bytes_le_nat: "le_bytes (length bs) (le_nat bs) = bs"
proof (induction bs)
  case Nil
  show ?case by simp
next
  case (Cons b bs)
  have "(unat b + 256 * le_nat bs) div 256 = le_nat bs" by simp
  then show ?case using Cons.IH by simp
qed

lemma u16_round_trip [simp]: "u16_from_le_bytes (u16_to_le_bytes w) = w"
  by (simp add: u16_from_le_bytes_def u16_to_le_bytes_def le_nat_le_bytes)

lemma u32_round_trip [simp]: "u32_from_le_bytes (u32_to_le_bytes w) = w"
  by (simp add: u32_from_le_bytes_def u32_to_le_bytes_def le_nat_le_bytes)

lemma unat_u16_from_le_bytes:
  "length bs = 2 \<Longrightarrow> unat (u16_from_le_bytes bs) = le_nat bs"
  using le_nat_bound [of bs] by (simp add: u16_from_le_bytes_def unat_of_nat)

lemma unat_u32_from_le_bytes:
  "length bs = 4 \<Longrightarrow> unat (u32_from_le_bytes bs) = le_nat bs"
  using le_nat_bound [of bs] by (simp add: u32_from_le_bytes_def unat_of_nat)

section \<open>Page masks\<close>

lemma and_mask12: "(x :: u64) AND 0xFFF = x mod 4096"
proof -
  have "x AND 0xFFF = take_bit 12 x" by (simp add: take_bit_eq_mask mask_numeral)
  then show ?thesis by (simp add: take_bit_eq_mod)
qed

lemma unat_and_mask12: "unat ((x :: u64) AND 0xFFF) = unat x mod 4096"
  by (simp add: and_mask12 unat_mod)

lemma and_not_plus_and: "(x AND NOT m) + (x AND m) = (x :: u64)"
proof -
  have "(x AND NOT m) + (x AND m) = (x AND NOT m) OR (x AND m)"
    by (rule disjunctive_add) (auto simp: bit_simps)
  also have "\<dots> = x"
    by (simp flip: bit.conj_disj_distrib)
  finally show ?thesis .
qed

lemma or_eq_plus: "x OR m = (x AND NOT m) + (m :: u64)"
proof -
  have "(x AND NOT m) + m = (x AND NOT m) OR m"
    by (rule disjunctive_add) (auto simp: bit_simps)
  also have "\<dots> = x OR m" by (simp add: bit.disj_conj_distrib2)
  finally show ?thesis by simp
qed

lemma unat_and_not_mask12: "unat ((x :: u64) AND NOT 0xFFF) = unat x - unat x mod 4096"
proof -
  have "unat (x AND NOT 0xFFF) + unat (x AND 0xFFF) = unat x"
    using and_not_plus_and [of x "0xFFF"] 
    by (metis add.commute unat_plus_simple word_and_le2 )
  then show ?thesis by (simp add: unat_and_mask12)
qed

section \<open>Literals\<close>

text \<open>The bytes of an ASCII literal.\<close>

definition bytes :: "string \<Rightarrow> str" where
  "bytes s = map of_char s"

end
