(* ===== verification/Rust_Str.thy ===== *)
theory Rust_Str
  imports Rust_Prelude
begin

text \<open>
  The string functions of the Rust standard library that the sources call, on the UTF-8 bytes of
  a \<open>str\<close>: validation (\<open>from_utf8\<close>), splitting, searching, trimming and padding. Upper-casing of
  text outside ASCII needs the Unicode tables and stays a parameter of the components that call
  \<open>str::to_uppercase\<close>; \<open>ascii_upper\<close> is its value on ASCII text.
\<close>

section \<open>UTF-8\<close>

definition is_cont :: "u8 \<Rightarrow> bool" where
  "is_cont b \<longleftrightarrow> b AND 0xC0 = 0x80"

definition is_ascii :: "str \<Rightarrow> bool" where
  "is_ascii s \<longleftrightarrow> list_all (\<lambda>b. b < 0x80) s"

text \<open>\<open>core::str::from_utf8(s).is_ok()\<close>: the well-formed byte sequences of the Unicode standard.\<close>

fun utf8_valid :: "u8 list \<Rightarrow> bool" where
  "utf8_valid [] = True"
| "utf8_valid (a # bs) =
     (if a < 0x80 then utf8_valid bs
      else case bs of [] \<Rightarrow> False | b # cs \<Rightarrow>
        if 0xC2 \<le> a \<and> a \<le> 0xDF then is_cont b \<and> utf8_valid cs
        else case cs of [] \<Rightarrow> False | c # ds \<Rightarrow>
          if 0xE0 \<le> a \<and> a \<le> 0xEF then
            (if a = 0xE0 then 0xA0 \<le> b \<and> b \<le> 0xBF
             else if a = 0xED then 0x80 \<le> b \<and> b \<le> 0x9F
             else is_cont b) \<and> is_cont c \<and> utf8_valid ds
          else case ds of [] \<Rightarrow> False | d # es \<Rightarrow>
            0xF0 \<le> a \<and> a \<le> 0xF4 \<and>
            (if a = 0xF0 then 0x90 \<le> b \<and> b \<le> 0xBF
             else if a = 0xF4 then 0x80 \<le> b \<and> b \<le> 0x8F
             else is_cont b) \<and> is_cont c \<and> is_cont d \<and> utf8_valid es)"

definition from_utf8 :: "u8 list \<Rightarrow> str option" where
  "from_utf8 bs = (if utf8_valid bs then Some bs else None)"

text \<open>The number of \<open>char\<close>s of a string: its bytes that do not continue a sequence.\<close>

definition char_count :: "str \<Rightarrow> nat" where
  "char_count s = length (filter (\<lambda>b. \<not> is_cont b) s)"

lemma is_ascii_simps [simp]:
  "is_ascii []" "is_ascii (b # s) \<longleftrightarrow> b < 0x80 \<and> is_ascii s"
  "is_ascii (s @ t) \<longleftrightarrow> is_ascii s \<and> is_ascii t"
  by (auto simp: is_ascii_def)

lemma ascii_utf8_valid: "is_ascii s \<Longrightarrow> utf8_valid s"
  by (induction s) auto

lemma ascii_from_utf8 [simp]: "is_ascii s \<Longrightarrow> from_utf8 s = Some s"
  by (simp add: from_utf8_def ascii_utf8_valid)

lemma ascii_not_cont: "b < 0x80 \<Longrightarrow> \<not> is_cont b"
proof
  assume "b < 0x80" "is_cont b"
  from \<open>is_cont b\<close> have "bit (b AND 0xC0) 7" by (simp add: is_cont_def)
  then have "bit b 7" by (simp add: bit_and_iff)
  then have "(0x80 :: u8) \<le> b"
    by (metis \<open>is_cont b\<close> is_cont_def word_and_le2)
  with \<open>b < 0x80\<close> show False by simp
qed

lemma char_count_ascii [simp]: "is_ascii s \<Longrightarrow> char_count s = length s"
  by (induction s) (auto simp: char_count_def ascii_not_cont)

section \<open>Lossy conversion\<close>

text \<open>
  \<open>String::from_utf8_lossy\<close>: \<open>utf8_next\<close> looks at the sequence that starts with byte \<open>a\<close>. It is either
  well formed, or the given number of bytes is replaced by one U+FFFD, the longest prefix of a
  well-formed sequence. A byte past the end reads as 0.
\<close>

definition byte_at :: "u8 list \<Rightarrow> nat \<Rightarrow> u8" where
  "byte_at bs i = (if i < length bs then bs ! i else 0)"

definition second_ok :: "u8 \<Rightarrow> u8 \<Rightarrow> bool" where
  "second_ok a b \<longleftrightarrow>
     (if a = 0xE0 then 0xA0 \<le> b \<and> b \<le> 0xBF
      else if a = 0xED then 0x80 \<le> b \<and> b \<le> 0x9F
      else if a = 0xF0 then 0x90 \<le> b \<and> b \<le> 0xBF
      else if a = 0xF4 then 0x80 \<le> b \<and> b \<le> 0x8F
      else is_cont b)"

definition utf8_next :: "u8 \<Rightarrow> u8 list \<Rightarrow> bool \<times> nat" where
  "utf8_next a bs =
     (let b = byte_at bs 0; c = byte_at bs 1; d = byte_at bs 2 in
      if a < 0x80 then (True, 1)
      else if 0xC2 \<le> a \<and> a \<le> 0xDF then if is_cont b then (True, 2) else (False, 1)
      else if 0xE0 \<le> a \<and> a \<le> 0xEF then
        if \<not> second_ok a b then (False, 1) else if \<not> is_cont c then (False, 2) else (True, 3)
      else if 0xF0 \<le> a \<and> a \<le> 0xF4 then
        if \<not> second_ok a b then (False, 1) else if \<not> is_cont c then (False, 2)
        else if \<not> is_cont d then (False, 3) else (True, 4)
      else (False, 1))"

definition REPLACEMENT :: str where
  "REPLACEMENT = [0xEF, 0xBF, 0xBD]"

lemma utf8_next_pos: "0 < snd (utf8_next a bs)"
  by (simp add: utf8_next_def Let_def)

function from_utf8_lossy :: "u8 list \<Rightarrow> str" where
  "from_utf8_lossy [] = []"
| "from_utf8_lossy (a # bs) =
     (case utf8_next a bs of (ok, n) \<Rightarrow>
        (if ok then take n (a # bs) else REPLACEMENT) @ from_utf8_lossy (drop n (a # bs)))"
  by pat_completeness auto
termination
proof (relation "measure length")
  fix a bs ok n assume "(ok, n) = utf8_next a bs"
  then have "0 < n" using utf8_next_pos [of a bs] by (metis snd_conv)
  then show "(drop n (a # bs), a # bs) \<in> measure length" by simp
qed simp

declare from_utf8_lossy.simps(2) [simp del]

lemma not_cont_0 [simp]: "\<not> is_cont 0"
  by (simp add: is_cont_def)

text \<open>Valid text is unchanged.\<close>

lemma utf8_valid_next:
  assumes "utf8_valid (a # bs)"
  shows "\<exists>n. utf8_next a bs = (True, n) \<and> utf8_valid (drop n (a # bs))"
proof -
  consider "a < 0x80" | "\<not> a < 0x80" "0xC2 \<le> a" "a \<le> 0xDF"
    | "\<not> a < 0x80" "\<not> a \<le> 0xDF" "0xE0 \<le> a" "a \<le> 0xEF" | "\<not> a < 0x80" "\<not> a \<le> 0xDF" "\<not> a \<le> 0xEF"
    | "\<not> a < 0x80" "\<not> 0xC2 \<le> a"
    by (cases "a < 0x80"; cases "a \<le> 0xDF"; cases "a \<le> 0xEF"; cases "0xC2 \<le> a"; cases "0xE0 \<le> a")
      (auto simp: not_less word_le_nat_alt word_less_nat_alt)
  then show ?thesis
  proof cases
    case 1
    then show ?thesis using assms by (simp add: utf8_next_def)
  next
    case 2
    then obtain b cs where "bs = b # cs" using assms by (auto split: list.splits)
    with 2 assms show ?thesis by (auto simp: utf8_next_def byte_at_def)
  next
    case 3
    then obtain b c ds where bs: "bs = b # c # ds"
      using assms by (auto split: list.splits)
    have "a \<noteq> 0xF0" "a \<noteq> 0xF4" using 3 by auto
    with 3 assms bs show ?thesis
      by (simp add: utf8_next_def byte_at_def second_ok_def split: if_splits)
  next
    case 4
    then obtain b c d es where bs: "bs = b # c # d # es"
      using assms by (auto split: list.splits)
    have "a \<noteq> 0xE0" "a \<noteq> 0xED" using 4 by auto
    with 4 assms bs show ?thesis
      by (simp add: utf8_next_def byte_at_def second_ok_def split: if_splits)
  next
    case 5
    then have "\<not> 0xE0 \<le> a" "\<not> 0xF0 \<le> a" by (auto simp: word_le_nat_alt)
    with 5 assms show ?thesis by (auto split: list.splits)
  qed
qed

lemma from_utf8_lossy_valid: "utf8_valid s \<Longrightarrow> from_utf8_lossy s = s"
proof (induction s rule: from_utf8_lossy.induct)
  case (2 a bs)
  obtain n where n: "utf8_next a bs = (True, n)" "utf8_valid (drop n (a # bs))"
    using utf8_valid_next [OF 2(2)] by blast
  from 2(1) [OF n(1) [symmetric] n(2)] n(1) show ?case
    by (simp only: from_utf8_lossy.simps(2) prod.case if_True append_take_drop_id)
qed simp

section \<open>Case, search and split\<close>

definition ascii_upper_byte :: "u8 \<Rightarrow> u8" where
  "ascii_upper_byte b = (if 0x61 \<le> b \<and> b \<le> 0x7A then b - 0x20 else b)"

definition ascii_upper :: "str \<Rightarrow> str" where
  "ascii_upper s = map ascii_upper_byte s"

text \<open>\<open>str::to_ascii_lowercase\<close>: bytes outside ASCII are unchanged.\<close>

definition to_ascii_lowercase :: "str \<Rightarrow> str" where
  "to_ascii_lowercase s = map (\<lambda>b. if 0x41 \<le> b \<and> b \<le> 0x5A then b + 0x20 else b) s"

text \<open>\<open>s.rfind(c)\<close> for an ASCII character: the position of its last occurrence.\<close>

fun str_rfind :: "u8 \<Rightarrow> str \<Rightarrow> nat option" where
  "str_rfind c [] = None"
| "str_rfind c (b # s) =
     (case str_rfind c s of Some i \<Rightarrow> Some (Suc i) | None \<Rightarrow> if b = c then Some 0 else None)"

text \<open>\<open>s.split(c)\<close> for an ASCII character: always at least one piece.\<close>

fun str_split :: "u8 \<Rightarrow> str \<Rightarrow> str list" where
  "str_split c [] = [[]]"
| "str_split c (b # s) =
     (if b = c then [] # str_split c s
      else case str_split c s of [] \<Rightarrow> [[b]] | p # ps \<Rightarrow> (b # p) # ps)"

text \<open>\<open>s.trim_start_matches(pat)\<close> for a string pattern; an empty pattern removes nothing.\<close>

function trim_start_matches :: "str \<Rightarrow> str \<Rightarrow> str" where
  "trim_start_matches pat s =
     (if pat \<noteq> [] \<and> take (length pat) s = pat \<and> length pat \<le> length s
      then trim_start_matches pat (drop (length pat) s) else s)"
  by pat_completeness auto
termination
proof (relation "measure (\<lambda>(pat, s). length s)")
  fix pat s :: str
  assume "pat \<noteq> [] \<and> take (length pat) s = pat \<and> length pat \<le> length s"
  then have "0 < length pat" and "length pat \<le> length s" by auto
  then have "length s - length pat < length s" by linarith
  then show "((pat, drop (length pat) s), pat, s) \<in> measure (\<lambda>(pat, s). length s)" by simp
qed simp

declare trim_start_matches.simps [simp del]

text \<open>\<open>s.trim_end()\<close>: strip the characters of the Unicode property White\_Space.\<close>

definition ascii_white :: "u8 \<Rightarrow> bool" where
  "ascii_white b \<longleftrightarrow> (9 \<le> b \<and> b \<le> 13) \<or> b = 0x20"

definition white2 :: "u8 \<Rightarrow> u8 \<Rightarrow> bool" where
  "white2 a b \<longleftrightarrow> a = 0xC2 \<and> (b = 0x85 \<or> b = 0xA0)"

definition white3 :: "u8 \<Rightarrow> u8 \<Rightarrow> u8 \<Rightarrow> bool" where
  "white3 a b c \<longleftrightarrow>
     (a = 0xE1 \<and> b = 0x9A \<and> c = 0x80) \<or>
     (a = 0xE2 \<and> b = 0x80 \<and> (0x80 \<le> c \<and> c \<le> 0x8A \<or> c = 0xA8 \<or> c = 0xA9 \<or> c = 0xAF)) \<or>
     (a = 0xE2 \<and> b = 0x81 \<and> c = 0x9F) \<or> (a = 0xE3 \<and> b = 0x80 \<and> c = 0x80)"

fun trim_rev :: "str \<Rightarrow> str" where
  "trim_rev [] = []"
| "trim_rev (a # s) =
     (if ascii_white a then trim_rev s
      else case s of [] \<Rightarrow> a # s | b # t \<Rightarrow>
        if white2 b a then trim_rev t
        else case t of [] \<Rightarrow> a # s | c # u \<Rightarrow>
          if white3 c b a then trim_rev u else a # s)"

definition trim_end :: "str \<Rightarrow> str" where
  "trim_end s = rev (trim_rev (rev s))"

text \<open>\<open>format!("{:n}", s)\<close>: padded on the right with spaces to \<open>n\<close> characters.\<close>

definition pad_right :: "nat \<Rightarrow> str \<Rightarrow> str" where
  "pad_right n s = s @ replicate (n - char_count s) 0x20"

lemma str_split_nonempty [simp]: "str_split c s \<noteq> []"
  by (cases s) (auto split: list.splits)

lemma str_split_no_sep: "c \<notin> set s \<Longrightarrow> str_split c s = [s]"
  by (induction s) auto

lemma str_split_pieces: "p \<in> set (str_split c s) \<Longrightarrow> c \<notin> set p"
proof (induction s arbitrary: p)
  case Nil
  then show ?case by simp
next
  case (Cons b s)
  show ?case
  proof (cases "str_split c s")
    case Nil
    then show ?thesis by simp
  next
    case (Cons q qs)
    with Cons.prems Cons.IH show ?thesis by (auto split: if_splits)
  qed
qed

lemma str_rfind_None [simp]: "str_rfind c s = None \<longleftrightarrow> c \<notin> set s"
  by (induction s) (auto split: option.splits)

lemma str_rfind_last: "c \<notin> set t \<Longrightarrow> str_rfind c (s @ c # t) = Some (length s)"
proof (induction s)
  case Nil
  then show ?case by (simp split: option.splits)
next
  case (Cons b s)
  then show ?case by simp
qed

lemma str_rfind_bound: "str_rfind c s = Some i \<Longrightarrow> i < length s \<and> s ! i = c"
  by (induction s arbitrary: i) (auto split: option.splits if_splits)

lemma trim_start_matches_nil [simp]: "trim_start_matches pat [] = []"
  by (subst trim_start_matches.simps) auto

lemma trim_end_nil [simp]: "trim_end [] = []"
  by (simp add: trim_end_def)

lemma trim_end_space [simp]: "trim_end (s @ [0x20]) = trim_end s"
  by (simp add: trim_end_def ascii_white_def)

lemma trim_end_spaces [simp]: "trim_end (s @ replicate n 0x20) = trim_end s"
proof (induction n)
  case 0
  show ?case by simp
next
  case (Suc n)
  have "s @ replicate (Suc n) 0x20 = (s @ replicate n 0x20) @ [0x20]"
    by (simp add: replicate_append_same)
  then show ?case using Suc.IH by (metis trim_end_space)
qed

lemma trim_end_ascii_last:
  assumes "is_ascii s" and "s \<noteq> [] \<Longrightarrow> \<not> ascii_white (last s)"
  shows "trim_end s = s"
proof (cases s rule: rev_cases)
  case Nil
  then show ?thesis by simp
next
  case (snoc t b)
  have asc: "is_ascii t" "b < 0x80" and nw: "\<not> ascii_white b"
    using assms snoc by auto
  have "trim_rev (b # rev t) = b # rev t"
  proof (cases t rule: rev_cases)
    case Nil
    with nw show ?thesis by simp
  next
    case (snoc u c)
    with asc have c: "c < 0x80" by simp
    then have n2: "\<not> white2 c b" by (auto simp: white2_def)
    show ?thesis
    proof (cases u rule: rev_cases)
      case Nil
      with nw n2 snoc show ?thesis by simp
    next
      case (snoc v d)
      with asc \<open>t = u @ [c]\<close> have "d < 0x80" by simp
      then have "\<not> white3 d c b" by (auto simp: white3_def)
      with nw n2 snoc \<open>t = u @ [c]\<close> show ?thesis by simp
    qed
  qed
  with snoc show ?thesis by (simp add: trim_end_def)
qed

lemma length_pad_right:
  "is_ascii s \<Longrightarrow> length s \<le> n \<Longrightarrow> length (pad_right n s) = n"
  by (simp add: pad_right_def)

end
