(* ===== verification/Storage_Common.thy ===== *)
theory Storage_Common
  imports Rust_Str
begin

text \<open>
  \<open>pkg/storage/src/common\<close>: the error types, file metadata, blocks, the accessors that the macro
  \<open>define_field!\<close> generates, and the traits \<open>BlockDevice\<close>, \<open>Read\<close>. The two traits are the
  locales \<open>block_device\<close> and \<open>byte_reader\<close>: what their clients rely on, and the lemmas about the
  clients (\<open>read_all\<close> here, the partition table and FAT16 later) proved once from it. The
  theories of the implementors interpret them.
\<close>

section \<open>Errors (error.rs)\<close>

datatype FilenameError =
  InvalidCharacter | FilenameEmpty | NameTooLong | MisplacedPeriod | Utf8Error | UnableToParse

datatype DeviceError =
  Busy | UnknownDevice | UnknownError | DevInvalidOperation | ReadError | WriteError | WithStatus nat

datatype FsError =
  FileNotFound | NotInSector | EndOfFile | WriteZero | NotADirectory | NotAFile | ReadOnly
| InvalidOperation | NotSupported | BadCluster | InvalidOffset
| FileNameError FilenameError | FsDeviceError DeviceError | InvalidPath str

text \<open>The two \<open>From\<close> conversions that \<open>.into()\<close> and \<open>?\<close> use.\<close>

definition from_filename_error :: "FilenameError \<Rightarrow> FsError" where
  "from_filename_error err = FileNameError err"

definition from_device_error :: "DeviceError \<Rightarrow> FsError" where
  "from_device_error err = FsDeviceError err"

section \<open>Metadata (metadata.rs)\<close>

datatype FileType = File_t | Directory_t

record 't Metadata =
  md_name :: str
  md_entry_type :: FileType
  md_len :: nat
  md_created :: "'t option"
  md_modified :: "'t option"
  md_accessed :: "'t option"

definition metadata_new ::
  "str \<Rightarrow> FileType \<Rightarrow> nat \<Rightarrow> 't option \<Rightarrow> 't option \<Rightarrow> 't option \<Rightarrow> 't Metadata" where
  "metadata_new name entry_type len created modified accessed =
     \<lparr>md_name = name, md_entry_type = entry_type, md_len = len, md_created = created,
      md_modified = modified, md_accessed = accessed\<rparr>"

definition metadata_is_file :: "'t Metadata \<Rightarrow> bool" where
  "metadata_is_file m \<longleftrightarrow> md_entry_type m = File_t"

definition metadata_is_dir :: "'t Metadata \<Rightarrow> bool" where
  "metadata_is_dir m \<longleftrightarrow> md_entry_type m = Directory_t"

section \<open>Blocks (block.rs) and field accessors (macros.rs)\<close>

definition BLOCK_SIZE :: nat where
  "BLOCK_SIZE = 512"

text \<open>\<open>Block::<512>::default()\<close>.\<close>

definition block_default :: "u8 list" where
  "block_default = replicate 512 0"

text \<open>
  \<open>define_field!\<close> reads a field at a constant offset of a fixed array. For an array that holds the
  field the slice below is exactly the field's bytes; \<open>field_slice\<close> states it.
\<close>

definition field_u8 :: "u8 list \<Rightarrow> nat \<Rightarrow> u8" where
  "field_u8 dat offset = (if offset < length dat then dat ! offset else 0)"

definition field_u16 :: "u8 list \<Rightarrow> nat \<Rightarrow> u16" where
  "field_u16 dat offset = u16_from_le_bytes (take 2 (drop offset dat))"

definition field_u32 :: "u8 list \<Rightarrow> nat \<Rightarrow> u32" where
  "field_u32 dat offset = u32_from_le_bytes (take 4 (drop offset dat))"

definition field_bytes :: "u8 list \<Rightarrow> nat \<Rightarrow> nat \<Rightarrow> u8 list" where
  "field_bytes dat len offset = take len (drop offset dat)"

definition field_str :: "u8 list \<Rightarrow> nat \<Rightarrow> nat \<Rightarrow> str" where
  "field_str dat len offset =
     (case from_utf8 (field_bytes dat len offset) of Some s \<Rightarrow> s | None \<Rightarrow> [])"

lemma field_slice:
  "offset + n \<le> length dat \<Longrightarrow> subslice dat offset (offset + n) = Ok (take n (drop offset dat))"
  by simp

lemma unat_field_u16: "offset + 2 \<le> length dat \<Longrightarrow>
  unat (field_u16 dat offset) = unat (dat ! offset) + 256 * unat (dat ! Suc offset)"
proof -
  assume a: "offset + 2 \<le> length dat"
  then have "take 2 (drop offset dat) = [dat ! offset, dat ! Suc offset]"
    by (simp add: numeral_2_eq_2 Cons_nth_drop_Suc [symmetric] take_Suc_conv_app_nth)
  then show ?thesis
    using unat_u16_from_le_bytes [of "[dat ! offset, dat ! Suc offset]"]
    by (simp add: field_u16_def)
qed

section \<open>The trait BlockDevice (device.rs)\<close>

text \<open>
  The file system only reads. \<open>rd i\<close> is the result of \<open>read_block(i, &mut block)\<close>: the new
  contents of the block, or the failure. A \<open>Block<512>\<close> is an array, so its length is 512 whatever
  the device does; this is all that the readers rely on for not indexing out of range.
\<close>

type_synonym block_reader = "nat \<Rightarrow> (FsError, u8 list) outcome"

locale block_device =
  fixes rd :: block_reader
  assumes block_length: "rd i = Ok b \<Longrightarrow> length b = BLOCK_SIZE"
begin

lemma slice_in_block: "rd i = Ok b \<Longrightarrow> x \<le> y \<Longrightarrow> y \<le> 512 \<Longrightarrow>
  subslice b x y = Ok (take (y - x) (drop x b))"
  using block_length by (simp add: BLOCK_SIZE_def)

end

section \<open>The trait Read (io.rs)\<close>

text \<open>
  \<open>read(&mut self, buf)\<close> takes the reader's state and the buffer and gives the result, the buffer
  and the new state; the state is there on an error as well, since the reader outlives it.
\<close>

type_synonym 's reader = "'s \<Rightarrow> u8 list \<Rightarrow> (FsError, nat) outcome \<times> u8 list \<times> 's"

partial_function (option) read_all_loop ::
  "'s reader \<Rightarrow> 's \<Rightarrow> u8 list \<Rightarrow> nat \<Rightarrow> ((FsError, nat) outcome \<times> u8 list \<times> 's) option" where
  "read_all_loop rd st buf read_bytes =
     (case rd st (replicate 1024 0) of (res, unit_buf, st') \<Rightarrow>
        (case res of
           Ok len \<Rightarrow>
             if len = 0 then Some (Ok (read_bytes + len), buf @ unit_buf, st')
             else read_all_loop rd st' (buf @ unit_buf) (read_bytes + len)
         | Err e \<Rightarrow> Some (Err FileNotFound, buf, st')
         | Panic \<Rightarrow> Some (Panic, buf, st')
         | Hang \<Rightarrow> Some (Hang, buf, st')))"

text \<open>\<open>Read::read_all\<close>; \<open>None\<close> when the loop never ends.\<close>

definition read_all ::
  "'s reader \<Rightarrow> 's \<Rightarrow> u8 list \<Rightarrow> ((FsError, nat) outcome \<times> u8 list \<times> 's) option" where
  "read_all rd st buf = read_all_loop rd st buf 0"

text \<open>
  What callers of a reader rely on: the buffer keeps its length (it is a slice), a count is never
  larger than it, and the invariant \<open>wf\<close> of the reader holds after the call.
\<close>

locale byte_reader =
  fixes rd :: "'s reader" and wf :: "'s \<Rightarrow> bool"
  assumes read_length: "wf st \<Longrightarrow> rd st buf = (res, buf', st') \<Longrightarrow> length buf' = length buf"
    and read_count: "wf st \<Longrightarrow> rd st buf = (Ok n, buf', st') \<Longrightarrow> n \<le> length buf"
    and read_wf: "wf st \<Longrightarrow> rd st buf = (res, buf', st') \<Longrightarrow> wf st'"
begin

text \<open>
  \<open>read_all\<close> appends whole 1024-byte units, the unit of the last empty read included.
\<close>

lemma read_all_loop_appends:
  assumes "wf st" "read_all_loop rd st buf n = Some (Ok tot, buf', st')"
  shows "\<exists>units. buf' = buf @ concat units \<and> (\<forall>u \<in> set units. length u = 1024) \<and>
           units \<noteq> [] \<and> tot \<le> n + 1024 * (length units - 1)"
proof (rule read_all_loop.raw_induct
    [where P = "\<lambda>rd' st buf n r. rd' = rd \<longrightarrow> wf st \<longrightarrow> (\<forall>tot buf' st'. r = (Ok tot, buf', st') \<longrightarrow>
       (\<exists>units. buf' = buf @ concat units \<and> (\<forall>u \<in> set units. length u = 1024) \<and>
           units \<noteq> [] \<and> tot \<le> n + 1024 * (length units - 1)))",
     OF _ assms(2), rule_format, OF _ refl assms(1) refl])
  fix loop rd' st buf n r tot buf' st'
  assume IH: "\<And>rd' st buf n r tot buf' st'. \<lbrakk>loop rd' st buf n = Some r; rd' = rd; wf st;
      r = (Ok tot, buf', st')\<rbrakk> \<Longrightarrow>
      \<exists>units. buf' = buf @ concat units \<and> (\<forall>u \<in> set units. length u = 1024) \<and>
           units \<noteq> [] \<and> tot \<le> n + 1024 * (length units - 1)"
    and eq: "(case rd' st (replicate 1024 0) of (res, unit_buf, st') \<Rightarrow>
        (case res of
           Ok len \<Rightarrow>
             if len = 0 then Some (Ok (n + len), buf @ unit_buf, st')
             else loop rd' st' (buf @ unit_buf) (n + len)
         | Err e \<Rightarrow> Some (Err FileNotFound, buf, st')
         | Panic \<Rightarrow> Some (Panic, buf, st')
         | Hang \<Rightarrow> Some (Hang, buf, st'))) = Some r"
    and rd': "rd' = rd" and wf: "wf st" and r: "r = (Ok tot, buf', st')"
  obtain res unit_buf s1 where step: "rd st (replicate 1024 0) = (res, unit_buf, s1)"
    by (cases "rd st (replicate 1024 0)") auto
  have len: "length unit_buf = 1024" using read_length [OF wf step] by simp
  from eq rd' r step obtain k where k: "res = Ok k"
    by (cases res) auto
  show "\<exists>units. buf' = buf @ concat units \<and> (\<forall>u \<in> set units. length u = 1024) \<and>
           units \<noteq> [] \<and> tot \<le> n + 1024 * (length units - 1)"
  proof (cases "k = 0")
    case True
    with eq rd' r step k have "buf' = buf @ concat [unit_buf]" "tot = n" by auto
    with len show ?thesis by (intro exI [of _ "[unit_buf]"]) simp
  next
    case False
    with eq rd' step k have "loop rd s1 (buf @ unit_buf) (n + k) = Some r" by simp
    from IH [OF this refl read_wf [OF wf step] r] obtain units where u:
      "buf' = (buf @ unit_buf) @ concat units" "\<forall>u \<in> set units. length u = 1024"
      "units \<noteq> []" "tot \<le> n + k + 1024 * (length units - 1)" by blast
    have "k \<le> 1024" using read_count [OF wf, of "replicate 1024 0" k] step k by simp
    with u have "tot \<le> n + 1024 * (length (unit_buf # units) - 1)"
      by (cases units) auto
    with u len show ?thesis by (intro exI [of _ "unit_buf # units"]) simp
  qed
qed

end

end
