(* ===== verification/Storage_Partition.thy ===== *)
theory Storage_Partition
  imports Storage_Common
begin

text \<open>
  \<open>pkg/storage/src/partition\<close>: the entries of a Master Boot Record, the partition table and the
  partition as a block device inside a larger one. The locale \<open>block_store\<close> is the contract of a
  device that is read and written, and a partition that fits keeps it. \<open>partitioned_device\<close> is the
  same for readers.
\<close>

section \<open>MbrPartition (mbr/entry.rs)\<close>

record MbrPartition =
  mp_data :: "u8 list"

definition mbr_partition_parse :: "u8 list \<Rightarrow> MbrPartition" where
  "mbr_partition_parse dat = \<lparr>mp_data = dat\<rparr>"

definition mp_status :: "MbrPartition \<Rightarrow> u8" where
  "mp_status p = field_u8 (mp_data p) 0x00"

definition mp_is_active :: "MbrPartition \<Rightarrow> bool" where
  "mp_is_active p \<longleftrightarrow> mp_status p = 0x80"

definition mp_begin_head :: "MbrPartition \<Rightarrow> u8" where
  "mp_begin_head p = field_u8 (mp_data p) 0x01"

definition mp_partition_type :: "MbrPartition \<Rightarrow> u8" where
  "mp_partition_type p = field_u8 (mp_data p) 0x04"

definition mp_end_head :: "MbrPartition \<Rightarrow> u8" where
  "mp_end_head p = field_u8 (mp_data p) 0x05"

definition mp_begin_lba :: "MbrPartition \<Rightarrow> u32" where
  "mp_begin_lba p = field_u32 (mp_data p) 0x08"

definition mp_total_lba :: "MbrPartition \<Rightarrow> u32" where
  "mp_total_lba p = field_u32 (mp_data p) 0x0C"

definition mp_begin_sector :: "MbrPartition \<Rightarrow> u8" where
  "mp_begin_sector p = mp_data p ! 0x02 AND 0x3F"

definition mp_begin_cylinder :: "MbrPartition \<Rightarrow> u16" where
  "mp_begin_cylinder p =
     push_bit 2 (ucast (mp_data p ! 0x02 AND 0xC0)) OR ucast (mp_data p ! 0x03)"

definition mp_end_sector :: "MbrPartition \<Rightarrow> u8" where
  "mp_end_sector p = mp_data p ! 0x06 AND 0x3F"

definition mp_end_cylinder :: "MbrPartition \<Rightarrow> u16" where
  "mp_end_cylinder p =
     push_bit 2 (ucast (mp_data p ! 0x06 AND 0xC0)) OR ucast (mp_data p ! 0x07)"

text \<open>An entry is an array of 16 bytes.\<close>

definition mbr_partition_wf :: "MbrPartition \<Rightarrow> bool" where
  "mbr_partition_wf p \<longleftrightarrow> length (mp_data p) = 16"

section \<open>Partition (partition/mod.rs)\<close>

record Partition =
  part_offset :: nat
  part_size :: nat

definition partition_new :: "nat \<Rightarrow> nat \<Rightarrow> Partition" where
  "partition_new offset sz = \<lparr>part_offset = offset, part_size = sz\<rparr>"

text \<open>
  The methods of \<open>BlockDevice\<close> for a partition; the inner device is given by its own methods
  \<open>rd\<close>, \<open>wr\<close> and \<open>count\<close>.
\<close>

definition partition_block_count :: "(FsError, nat) outcome \<Rightarrow> Partition \<Rightarrow> (FsError, nat) outcome" where
  "partition_block_count count p = count"

definition partition_read_block :: "block_reader \<Rightarrow> Partition \<Rightarrow> block_reader" where
  "partition_read_block rd p offset =
     (if offset \<ge> part_size p then Err InvalidOffset else rd (offset + part_offset p))"

definition partition_write_block ::
  "('d \<Rightarrow> nat \<Rightarrow> u8 list \<Rightarrow> (FsError, unit) outcome \<times> 'd) \<Rightarrow> Partition \<Rightarrow>
   'd \<Rightarrow> nat \<Rightarrow> u8 list \<Rightarrow> (FsError, unit) outcome \<times> 'd" where
  "partition_write_block wr p d offset block =
     (if offset \<ge> part_size p then (Err InvalidOffset, d) else wr d (offset + part_offset p) block)"

section \<open>MbrTable (mbr/mod.rs)\<close>

record MbrTable =
  mt_inner :: block_reader
  mt_partitions :: "MbrPartition list"

text \<open>The loop \<open>for i in 0..4\<close>, \<open>k\<close> entries from entry \<open>i\<close> on.\<close>

fun mbr_parse_entries :: "u8 list \<Rightarrow> nat \<Rightarrow> nat \<Rightarrow> (FsError, MbrPartition list) outcome" where
  "mbr_parse_entries buffer i 0 = Ok []"
| "mbr_parse_entries buffer i (Suc k) =
     and_then (subslice buffer (0x1BE + i * 16) (0x1BE + (i + 1) * 16)) (\<lambda>e.
     and_then (if length e = 16 then Ok (mbr_partition_parse e) else Panic) (\<lambda>p.
     and_then (mbr_parse_entries buffer (Suc i) k) (\<lambda>ps. Ok (p # ps))))"

definition mbr_parse :: "block_reader \<Rightarrow> (FsError, MbrTable) outcome" where
  "mbr_parse rd =
     and_then (rd 0) (\<lambda>block.
     and_then (mbr_parse_entries block 0 4) (\<lambda>ps.
       Ok \<lparr>mt_inner = rd, mt_partitions = ps\<rparr>))"

definition mbr_partitions :: "MbrTable \<Rightarrow> Partition list" where
  "mbr_partitions t =
     map (\<lambda>p. partition_new (unat (mp_begin_lba p)) (unat (mp_total_lba p)))
       (filter mp_is_active (mt_partitions t))"

section \<open>Reading the table\<close>

lemma mbr_parse_entries_ok:
  assumes "length buffer = 512" and "i + k \<le> 4"
  shows "mbr_parse_entries buffer i k =
    Ok (map (\<lambda>j. mbr_partition_parse (take 16 (drop (0x1BE + j * 16) buffer))) [i..<i + k])"
  using assms(2)
proof (induction k arbitrary: i)
  case 0
  then show ?case by simp
next
  case (Suc k)
  then have "mbr_parse_entries buffer (Suc i) k =
    Ok (map (\<lambda>j. mbr_partition_parse (take 16 (drop (0x1BE + j * 16) buffer))) [Suc i..<Suc i + k])"
    by simp
  moreover have "[i..<i + Suc k] = i # [Suc i..<Suc i + k]"
    by (simp add: upt_conv_Cons)
  ultimately show ?case using Suc.prems assms(1) by simp
qed

context block_device
begin

text \<open>
  The table never indexes out of range: parsing fails only as reading block 0 does, and the
  entries are the four 16-byte records at \<open>0x1BE\<close>.
\<close>

lemma mbr_parse_result:
  "mbr_parse rd = and_then (rd 0) (\<lambda>b. Ok \<lparr>mt_inner = rd, mt_partitions =
     map (\<lambda>j. mbr_partition_parse (take 16 (drop (0x1BE + j * 16) b))) [0..<4]\<rparr>)"
proof (cases "rd 0")
  case (Ok b)
  then have "length b = 512" using block_length by (simp add: BLOCK_SIZE_def)
  from mbr_parse_entries_ok [OF this, of 0 4] show ?thesis
    by (simp add: mbr_parse_def Ok)
qed (simp_all add: mbr_parse_def)

lemma mbr_parse_wf:
  assumes "mbr_parse rd = Ok t"
  shows "length (mt_partitions t) = 4 \<and> list_all mbr_partition_wf (mt_partitions t)"
proof -
  from assms obtain b where b: "rd 0 = Ok b" and t: "mt_partitions t =
     map (\<lambda>j. mbr_partition_parse (take 16 (drop (0x1BE + j * 16) b))) [0..<4]"
    by (auto simp: mbr_parse_result)
  have "length b = 512" using block_length [OF b] by (simp add: BLOCK_SIZE_def)
  then show ?thesis
    by (auto simp: t list_all_iff mbr_partition_wf_def mbr_partition_parse_def)
qed

end

text \<open>A partition of a block device is a block device.\<close>

locale partitioned_device = block_device +
  fixes p :: Partition

sublocale partitioned_device \<subseteq> part: block_device "partition_read_block rd p"
  by unfold_locales (auto simp: partition_read_block_def split: if_splits intro: block_length)

section \<open>Devices that are written\<close>

text \<open>
  The contract of a store of \<open>cap\<close> blocks: a write that succeeds is what the next read of the
  block returns, and no write changes what another block reads.
\<close>

locale block_store =
  fixes wf :: "'d \<Rightarrow> bool"
    and rd :: "'d \<Rightarrow> block_reader"
    and wr :: "'d \<Rightarrow> nat \<Rightarrow> u8 list \<Rightarrow> (FsError, unit) outcome \<times> 'd"
    and cap :: nat
  assumes wr_wf: "wf d \<Longrightarrow> i < cap \<Longrightarrow> length b = 512 \<Longrightarrow> wr d i b = (r, d') \<Longrightarrow> wf d'"
    and rd_wr_same: "wf d \<Longrightarrow> i < cap \<Longrightarrow> length b = 512 \<Longrightarrow> wr d i b = (Ok (), d') \<Longrightarrow> rd d' i = Ok b"
    and rd_wr_other: "wf d \<Longrightarrow> i < cap \<Longrightarrow> j < cap \<Longrightarrow> i \<noteq> j \<Longrightarrow> length b = 512 \<Longrightarrow>
      wr d i b = (r, d') \<Longrightarrow> rd d' j = rd d j"

context block_store
begin

text \<open>A partition that fits into a store is a store of its own.\<close>

lemma partition_block_store:
  assumes fits: "part_offset p + part_size p \<le> cap"
  shows "block_store wf (\<lambda>d. partition_read_block (rd d) p) (partition_write_block wr p) (part_size p)"
proof
  fix d i b r d'
  assume "wf d" "i < part_size p" "length b = 512" "partition_write_block wr p d i b = (r, d')"
  then show "wf d'"
    using wr_wf [of d "i + part_offset p" b r d'] fits by (simp add: partition_write_block_def)
next
  fix d i b d'
  assume "wf d" "i < part_size p" "length b = 512" "partition_write_block wr p d i b = (Ok (), d')"
  then show "partition_read_block (rd d') p i = Ok b"
    using rd_wr_same [of d "i + part_offset p" b d'] fits
    by (simp add: partition_write_block_def partition_read_block_def)
next
  fix d i j b r d'
  assume "wf d" "i < part_size p" "j < part_size p" "i \<noteq> j" "length b = 512"
    "partition_write_block wr p d i b = (r, d')"
  then show "partition_read_block (rd d') p j = partition_read_block (rd d) p j"
    using rd_wr_other [of d "i + part_offset p" "j + part_offset p" b r d'] fits
    by (simp add: partition_write_block_def partition_read_block_def)
qed

text \<open>Writes through a partition are invisible outside of it.\<close>

lemma partition_write_isolated:
  assumes "part_offset p + part_size p \<le> cap"
    and "wf d" "length b = 512" "partition_write_block wr p d i b = (r, d')"
    and "j < cap" "j < part_offset p \<or> part_offset p + part_size p \<le> j"
  shows "rd d' j = rd d j"
proof (cases "i < part_size p")
  case True
  with assms have "wr d (i + part_offset p) b = (r, d')" by (simp add: partition_write_block_def)
  moreover from True assms(1) have "i + part_offset p < cap" by simp
  moreover from True assms(6) have "i + part_offset p \<noteq> j" by auto
  ultimately show ?thesis using rd_wr_other assms by blast
next
  case False
  with assms show ?thesis by (simp add: partition_write_block_def)
qed

end

end
