(* ===== verification/Ata_Bus.thy ===== *)
theory Ata_Bus
  imports Storage_Partition
begin

text \<open>
  \<open>pkg/kernel/src/drivers/ata\<close>: the PIO driver. The instructions \<open>in\<close> and \<open>out\<close> are the record
  \<open>port_io\<close>, functions on the state of the hardware; the driver is a function of them, and a wait
  for a status that never comes is the outcome \<open>Hang\<close>. \<open>warn!\<close> evaluates its arguments (the images
  log at level Trace), so \<open>debug\<close> reads the two registers.
\<close>

record 'w port_io =
  in8 :: "u16 \<Rightarrow> 'w \<Rightarrow> u8 \<times> 'w"
  in16 :: "u16 \<Rightarrow> 'w \<Rightarrow> u16 \<times> 'w"
  out8 :: "u16 \<Rightarrow> u8 \<Rightarrow> 'w \<Rightarrow> 'w"
  out16 :: "u16 \<Rightarrow> u16 \<Rightarrow> 'w \<Rightarrow> 'w"

section \<open>Constants (consts.rs)\<close>

definition ATA_BUSY :: u8 where "ATA_BUSY = 0x80"
definition ATA_DATA_REQUEST_READY :: u8 where "ATA_DATA_REQUEST_READY = 0x08"
definition ATA_ERROR :: u8 where "ATA_ERROR = 0x01"

datatype AtaCommand =
  ReadPio | ReadPioExt | ReadDma | ReadDmaExt | WritePio | WritePioExt | WriteDma | WriteDmaExt
| CacheFlush | CacheFlushExt | Packet | IdentifyPacket | IdentifyDevice

fun cmd_as_u8 :: "AtaCommand \<Rightarrow> u8" where
  "cmd_as_u8 ReadPio = 0x20"
| "cmd_as_u8 ReadPioExt = 0x24"
| "cmd_as_u8 ReadDma = 0xC8"
| "cmd_as_u8 ReadDmaExt = 0x25"
| "cmd_as_u8 WritePio = 0x30"
| "cmd_as_u8 WritePioExt = 0x34"
| "cmd_as_u8 WriteDma = 0xCA"
| "cmd_as_u8 WriteDmaExt = 0x35"
| "cmd_as_u8 CacheFlush = 0xE7"
| "cmd_as_u8 CacheFlushExt = 0xEA"
| "cmd_as_u8 Packet = 0xA0"
| "cmd_as_u8 IdentifyPacket = 0xA1"
| "cmd_as_u8 IdentifyDevice = 0xEC"

datatype AtaDeviceType = Pata "u16 list" | PataPi | Sata | SataPi | NoDevice

section \<open>AtaBus (bus.rs)\<close>

record AtaBus =
  bus_id :: u8
  bus_irq :: u8
  io_base :: u16
  ctrl_base :: u16
  p_data :: u16
  p_error :: u16
  p_features :: u16
  p_sector_count :: u16
  p_lba_low :: u16
  p_lba_mid :: u16
  p_lba_high :: u16
  p_drive :: u16
  p_status :: u16
  p_command :: u16
  p_alternate_status :: u16
  p_control :: u16
  p_drive_blockess :: u16

definition ata_bus_new :: "u8 \<Rightarrow> u8 \<Rightarrow> u16 \<Rightarrow> u16 \<Rightarrow> AtaBus" where
  "ata_bus_new ident irq io ctrl =
     \<lparr>bus_id = ident, bus_irq = irq, io_base = io, ctrl_base = ctrl,
      p_data = io, p_error = io + 1, p_features = io + 1, p_sector_count = io + 2,
      p_lba_low = io + 3, p_lba_mid = io + 4, p_lba_high = io + 5, p_drive = io + 6,
      p_status = io + 7, p_command = io + 7,
      p_alternate_status = ctrl, p_control = ctrl, p_drive_blockess = ctrl + 1\<rparr>"

definition read_data :: "'w port_io \<Rightarrow> AtaBus \<Rightarrow> 'w \<Rightarrow> u16 \<times> 'w" where
  "read_data io bus w = in16 io (p_data bus) w"

definition write_data :: "'w port_io \<Rightarrow> AtaBus \<Rightarrow> u16 \<Rightarrow> 'w \<Rightarrow> 'w" where
  "write_data io bus v w = out16 io (p_data bus) v w"

definition cylinder_low :: "'w port_io \<Rightarrow> AtaBus \<Rightarrow> 'w \<Rightarrow> u8 \<times> 'w" where
  "cylinder_low io bus w = in8 io (p_lba_mid bus) w"

definition cylinder_high :: "'w port_io \<Rightarrow> AtaBus \<Rightarrow> 'w \<Rightarrow> u8 \<times> 'w" where
  "cylinder_high io bus w = in8 io (p_lba_high bus) w"

text \<open>All eight bits of both registers are declared, so \<open>from_bits_truncate\<close> keeps the value.\<close>

definition ata_status :: "'w port_io \<Rightarrow> AtaBus \<Rightarrow> 'w \<Rightarrow> u8 \<times> 'w" where
  "ata_status io bus w =
     (let (_, w1) = in8 io (p_alternate_status bus) w;
          (_, w2) = in8 io (p_alternate_status bus) w1;
          (_, w3) = in8 io (p_alternate_status bus) w2;
          (_, w4) = in8 io (p_alternate_status bus) w3 in
      in8 io (p_status bus) w4)"

definition ata_error :: "'w port_io \<Rightarrow> AtaBus \<Rightarrow> 'w \<Rightarrow> u8 \<times> 'w" where
  "ata_error io bus w = in8 io (p_error bus) w"

definition status_contains :: "u8 \<Rightarrow> u8 \<Rightarrow> bool" where
  "status_contains s b \<longleftrightarrow> s AND b = b"

definition status_intersects :: "u8 \<Rightarrow> u8 \<Rightarrow> bool" where
  "status_intersects s b \<longleftrightarrow> s AND b \<noteq> 0"

definition is_error :: "'w port_io \<Rightarrow> AtaBus \<Rightarrow> 'w \<Rightarrow> bool \<times> 'w" where
  "is_error io bus w = (let (s, w1) = ata_status io bus w in (status_contains s ATA_ERROR, w1))"

definition ata_debug :: "'w port_io \<Rightarrow> AtaBus \<Rightarrow> 'w \<Rightarrow> 'w" where
  "ata_debug io bus w = (let (_, w1) = ata_error io bus w; (_, w2) = ata_status io bus w1 in w2)"

partial_function (option) poll_loop ::
  "'w port_io \<Rightarrow> AtaBus \<Rightarrow> u8 \<Rightarrow> bool \<Rightarrow> u8 \<Rightarrow> 'w \<Rightarrow> 'w option" where
  "poll_loop io bus b val status w =
     (if status_intersects status b \<noteq> val then
        let w1 = (if status_contains status ATA_ERROR then ata_debug io bus w else w);
            (s, w2) = ata_status io bus w1 in
        poll_loop io bus b val s w2
      else Some w)"

definition poll :: "'w port_io \<Rightarrow> AtaBus \<Rightarrow> u8 \<Rightarrow> bool \<Rightarrow> 'w \<Rightarrow> 'w option" where
  "poll io bus b val w = (let (s, w1) = ata_status io bus w in poll_loop io bus b val s w1)"

definition write_command ::
  "'w port_io \<Rightarrow> AtaBus \<Rightarrow> u8 \<Rightarrow> u32 \<Rightarrow> AtaCommand \<Rightarrow> 'w \<Rightarrow> (FsError, unit) outcome \<times> 'w" where
  "write_command io bus drive block cmd w0 =
     (let bs = u32_to_le_bytes block;
          w1 = out8 io (p_sector_count bus) 1 w0;
          w2 = out8 io (p_lba_low bus) (bs ! 0) w1;
          w3 = out8 io (p_lba_mid bus) (bs ! 1) w2;
          w4 = out8 io (p_lba_high bus) (bs ! 2) w3;
          w5 = out8 io (p_drive bus) ((bs ! 3 AND 0x0F) OR (drive OR 0xE0)) w4;
          w6 = out8 io (p_command bus) (cmd_as_u8 cmd) w5;
          (s, w7) = ata_status io bus w6 in
      if s = 0 then (Err (from_device_error UnknownDevice), w7)
      else case poll io bus ATA_BUSY False w7 of
        None \<Rightarrow> (Hang, w7)
      | Some w8 \<Rightarrow>
          let (err, w9) = is_error io bus w8 in
          if err then (Err (from_device_error DevInvalidOperation), ata_debug io bus w9)
          else case poll io bus ATA_BUSY False w9 of
            None \<Rightarrow> (Hang, w9)
          | Some w10 \<Rightarrow>
              (case poll io bus ATA_DATA_REQUEST_READY True w10 of
                 None \<Rightarrow> (Hang, w10)
               | Some w11 \<Rightarrow> (Ok (), w11)))"

fun read_words :: "'w port_io \<Rightarrow> AtaBus \<Rightarrow> nat \<Rightarrow> 'w \<Rightarrow> u16 list \<times> 'w" where
  "read_words io bus 0 w = ([], w)"
| "read_words io bus (Suc n) w =
     (let (v, w1) = read_data io bus w; (vs, w2) = read_words io bus n w1 in (v # vs, w2))"

text \<open>\<open>identify_drive\<close>; \<open>expect\<close> turns every error of the command into a panic.\<close>

definition identify_drive ::
  "'w port_io \<Rightarrow> AtaBus \<Rightarrow> u8 \<Rightarrow> 'w \<Rightarrow> (FsError, AtaDeviceType) outcome \<times> 'w" where
  "identify_drive io bus drive w =
     (case write_command io bus drive 0 IdentifyDevice w of
        (Hang, w1) \<Rightarrow> (Hang, w1)
      | (Panic, w1) \<Rightarrow> (Panic, w1)
      | (Err e, w1) \<Rightarrow> (Panic, w1)
      | (Ok _, w1) \<Rightarrow>
          (let (s, w2) = ata_status io bus w1 in
           if s = 0 then (Ok NoDevice, w2)
           else case poll io bus ATA_BUSY False w2 of
             None \<Rightarrow> (Hang, w2)
           | Some w3 \<Rightarrow>
               let (err, w4) = is_error io bus w3 in
               if err then (Err (from_device_error UnknownDevice), w4)
               else
                 let (lo, w5) = cylinder_low io bus w4; (hi, w6) = cylinder_high io bus w5 in
                 if lo = 0x00 \<and> hi = 0x00 then
                   (let (vs, w7) = read_words io bus 256 w6 in (Ok (Pata vs), w7))
                 else if lo = 0x14 \<and> hi = 0xEB then (Ok PataPi, w6)
                 else if lo = 0x3C \<and> hi = 0xC3 then (Ok Sata, w6)
                 else if lo = 0x69 \<and> hi = 0x96 then (Ok SataPi, w6)
                 else (Ok NoDevice, w6)))"

text \<open>
  The two data loops, over the chunks of two bytes of the buffer; the last chunk of a buffer of odd
  length has one byte, for which \<open>copy_from_slice\<close> and \<open>try_into().unwrap()\<close> panic.
\<close>

fun read_chunks :: "'w port_io \<Rightarrow> AtaBus \<Rightarrow> u8 list \<Rightarrow> 'w \<Rightarrow> (FsError, u8 list) outcome \<times> 'w" where
  "read_chunks io bus [] w = (Ok [], w)"
| "read_chunks io bus [a] w = (let (v, w1) = read_data io bus w in (Panic, w1))"
| "read_chunks io bus (a # b # buf) w =
     (let (v, w1) = read_data io bus w; (r, w2) = read_chunks io bus buf w1 in
      (and_then r (\<lambda>bs. Ok (u16_to_le_bytes v @ bs)), w2))"

fun write_chunks :: "'w port_io \<Rightarrow> AtaBus \<Rightarrow> u8 list \<Rightarrow> 'w \<Rightarrow> (FsError, unit) outcome \<times> 'w" where
  "write_chunks io bus [] w = (Ok (), w)"
| "write_chunks io bus [a] w = (Panic, w)"
| "write_chunks io bus (a # b # buf) w =
     write_chunks io bus buf (write_data io bus (u16_from_le_bytes [a, b]) w)"

definition read_pio ::
  "'w port_io \<Rightarrow> AtaBus \<Rightarrow> u8 \<Rightarrow> u32 \<Rightarrow> u8 list \<Rightarrow> 'w \<Rightarrow> (FsError, u8 list) outcome \<times> 'w" where
  "read_pio io bus drive block buf w =
     (case write_command io bus drive block ReadPio w of
        (Ok _, w1) \<Rightarrow>
          (case read_chunks io bus buf w1 of
             (Ok bs, w2) \<Rightarrow>
               (let (err, w3) = is_error io bus w2 in
                if err then (Err (from_device_error ReadError), ata_debug io bus w3)
                else (Ok bs, w3))
           | (r, w2) \<Rightarrow> (r, w2))
      | (Err e, w1) \<Rightarrow> (Err e, w1)
      | (Panic, w1) \<Rightarrow> (Panic, w1)
      | (Hang, w1) \<Rightarrow> (Hang, w1))"

definition write_pio ::
  "'w port_io \<Rightarrow> AtaBus \<Rightarrow> u8 \<Rightarrow> u32 \<Rightarrow> u8 list \<Rightarrow> 'w \<Rightarrow> (FsError, unit) outcome \<times> 'w" where
  "write_pio io bus drive block buf w =
     (case write_command io bus drive block WritePio w of
        (Ok _, w1) \<Rightarrow>
          (case write_chunks io bus buf w1 of
             (Ok _, w2) \<Rightarrow>
               (let (err, w3) = is_error io bus w2 in
                if err then (Err (from_device_error WriteError), ata_debug io bus w3)
                else (Ok (), w3))
           | (r, w2) \<Rightarrow> (r, w2))
      | (r, w1) \<Rightarrow> (r, w1))"

section \<open>AtaDrive (mod.rs)\<close>

definition BUSES :: "AtaBus list" where
  "BUSES = [ata_bus_new 0 14 0x1F0 0x3F6, ata_bus_new 1 15 0x170 0x376]"

record AtaDrive =
  ad_bus :: u8
  ad_drive :: u8
  ad_blocks :: u32

definition ata_block_count :: "AtaDrive \<Rightarrow> (FsError, nat) outcome" where
  "ata_block_count d = Ok (unat (ad_blocks d))"

text \<open>
  \<open>read_block(offset, block)\<close> and \<open>write_block(offset, block)\<close>: \<open>offset as u32\<close> truncates. Only the
  length of the block that is read into matters, 512.
\<close>

definition ata_read_block ::
  "'w port_io \<Rightarrow> AtaDrive \<Rightarrow> nat \<Rightarrow> 'w \<Rightarrow> (FsError, u8 list) outcome \<times> 'w" where
  "ata_read_block io d offset w =
     (if unat (ad_bus d) < length BUSES
      then read_pio io (BUSES ! unat (ad_bus d)) (ad_drive d) (word_of_nat offset) block_default w
      else (Panic, w))"

definition ata_write_block ::
  "'w port_io \<Rightarrow> AtaDrive \<Rightarrow> 'w \<Rightarrow> nat \<Rightarrow> u8 list \<Rightarrow> (FsError, unit) outcome \<times> 'w" where
  "ata_write_block io d w offset block =
     (if unat (ad_bus d) < length BUSES
      then write_pio io (BUSES ! unat (ad_bus d)) (ad_drive d) (word_of_nat offset) block w
      else (Panic, w))"

text \<open>The device as its readers see it, in a given state of the hardware.\<close>

definition ata_reader :: "'w port_io \<Rightarrow> AtaDrive \<Rightarrow> 'w \<Rightarrow> block_reader" where
  "ata_reader io d w i = fst (ata_read_block io d i w)"

section \<open>The block length\<close>

lemma length_u16_to_le_bytes [simp]: "length (u16_to_le_bytes v) = 2"
  by (simp add: u16_to_le_bytes_def)

lemma read_chunks_length:
  "read_chunks io bus buf w = (Ok bs, w') \<Longrightarrow> length bs = length buf"
  by (induction io bus buf w arbitrary: bs w' rule: read_chunks.induct)
    (auto simp: Let_def split: prod.splits)

lemma read_pio_length:
  "read_pio io bus drive block buf w = (Ok bs, w') \<Longrightarrow> length bs = length buf"
  by (auto simp: read_pio_def Let_def dest: read_chunks_length
      split: prod.splits outcome.splits if_splits)

text \<open>Whatever the hardware does, a block that was read has 512 bytes.\<close>

interpretation ata: block_device "ata_reader io d w"
proof
  fix i b
  assume "ata_reader io d w i = Ok b"
  then obtain w' where "ata_read_block io d i w = (Ok b, w')"
    by (cases "ata_read_block io d i w") (auto simp: ata_reader_def)
  then have "length b = length block_default"
    by (auto simp: ata_read_block_def dest: read_pio_length split: if_splits)
  then show "length b = BLOCK_SIZE" by (simp add: block_default_def BLOCK_SIZE_def)
qed

interpretation ata_part: partitioned_device "ata_reader io d w" p for io d w p ..

end
