(* ===== verification/Ata_Disk.thy ===== *)
theory Ata_Disk
  imports Ata_Bus
begin

text \<open>
  A disk on the primary bus, as the ATA standard describes a drive in 28-bit PIO mode: the task file
  registers, a command that keeps the drive busy for some status reads, and a data port. The
  driver of \<open>Ata_Bus\<close> on top of it is a \<open>block_store\<close>; this is the instance of the contract that
  the kernel runs on, with the partition of the file system inside it.
\<close>

record disk =
  dk_low :: u8
  dk_mid :: u8
  dk_high :: u8
  dk_drive :: u8
  dk_busy :: nat
  dk_out :: "u16 list"
  dk_in :: "(nat \<times> u16 list) option"
  dk_medium :: "nat \<Rightarrow> u8 list"

fun words_of :: "u8 list \<Rightarrow> u16 list" where
  "words_of (a # b # bs) = u16_from_le_bytes [a, b] # words_of bs"
| "words_of _ = []"

definition bytes_of :: "u16 list \<Rightarrow> u8 list" where
  "bytes_of ws = concat (map u16_to_le_bytes ws)"

definition disk_lba :: "disk \<Rightarrow> nat" where
  "disk_lba s = unat (dk_low s) + 256 * unat (dk_mid s) + 65536 * unat (dk_high s) +
     16777216 * unat (dk_drive s AND 0x0F)"

definition disk_status :: "disk \<Rightarrow> u8" where
  "disk_status s =
     (if 0 < dk_busy s then 0x80 else if dk_out s \<noteq> [] \<or> dk_in s \<noteq> None then 0x58 else 0x50)"

definition disk_in8 :: "u16 \<Rightarrow> disk \<Rightarrow> u8 \<times> disk" where
  "disk_in8 port s =
     (if port = 0x1F7 \<or> port = 0x3F6 then (disk_status s, s\<lparr>dk_busy := dk_busy s - 1\<rparr>) else (0, s))"

definition disk_in16 :: "u16 \<Rightarrow> disk \<Rightarrow> u16 \<times> disk" where
  "disk_in16 port s =
     (if port = 0x1F0 then
        (case dk_out s of [] \<Rightarrow> (0, s) | v # vs \<Rightarrow> (v, s\<lparr>dk_out := vs\<rparr>))
      else (0, s))"

definition disk_command :: "nat \<Rightarrow> u8 \<Rightarrow> disk \<Rightarrow> disk" where
  "disk_command latency cmd s =
     (if cmd = 0x20 then
        s\<lparr>dk_busy := latency, dk_out := words_of (dk_medium s (disk_lba s)), dk_in := None\<rparr>
      else if cmd = 0x30 then s\<lparr>dk_busy := latency, dk_out := [], dk_in := Some (disk_lba s, [])\<rparr>
      else s)"

definition disk_out8 :: "nat \<Rightarrow> u16 \<Rightarrow> u8 \<Rightarrow> disk \<Rightarrow> disk" where
  "disk_out8 latency port v s =
     (if port = 0x1F3 then s\<lparr>dk_low := v\<rparr>
      else if port = 0x1F4 then s\<lparr>dk_mid := v\<rparr>
      else if port = 0x1F5 then s\<lparr>dk_high := v\<rparr>
      else if port = 0x1F6 then s\<lparr>dk_drive := v\<rparr>
      else if port = 0x1F7 then disk_command latency v s
      else s)"

definition disk_out16 :: "u16 \<Rightarrow> u16 \<Rightarrow> disk \<Rightarrow> disk" where
  "disk_out16 port v s =
     (if port = 0x1F0 then
        (case dk_in s of
           None \<Rightarrow> s
         | Some (lba, ws) \<Rightarrow>
             if length ws = 255
             then s\<lparr>dk_in := None, dk_medium := (dk_medium s)(lba := bytes_of (ws @ [v]))\<rparr>
             else s\<lparr>dk_in := Some (lba, ws @ [v])\<rparr>)
      else s)"

definition disk_io :: "nat \<Rightarrow> disk port_io" where
  "disk_io latency = \<lparr>in8 = disk_in8, in16 = disk_in16, out8 = disk_out8 latency, out16 = disk_out16\<rparr>"

definition disk_wf :: "disk \<Rightarrow> bool" where
  "disk_wf s \<longleftrightarrow> (\<forall>i. length (dk_medium s i) = 512)"

definition primary_drive :: "u32 \<Rightarrow> AtaDrive" where
  "primary_drive blocks = \<lparr>ad_bus = 0, ad_drive = 0, ad_blocks = blocks\<rparr>"

abbreviation primary :: AtaBus where
  "primary \<equiv> ata_bus_new 0 14 0x1F0 0x3F6"

section \<open>Words and bytes\<close>

lemma u16_to_from: "u16_to_le_bytes (u16_from_le_bytes [a, b]) = [a, b]"
  using le_bytes_le_nat [of "[a, b]"] unat_u16_from_le_bytes [of "[a, b]"]
  by (simp add: u16_to_le_bytes_def numeral_2_eq_2)

lemma bytes_of_words: "even (length bs) \<Longrightarrow> bytes_of (words_of bs) = bs"
  by (induction bs rule: words_of.induct) (auto simp: bytes_of_def u16_to_from)

lemma length_words_of: "even (length bs) \<Longrightarrow> length bs = 2 * length (words_of bs)"
  by (induction bs rule: words_of.induct) auto

lemma length_bytes_of: "length (bytes_of ws) = 2 * length ws"
  by (induction ws) (auto simp: bytes_of_def)

section \<open>The driver on the disk\<close>

lemma status_disk:
  "ata_status (disk_io L) primary s =
     (disk_status (s\<lparr>dk_busy := dk_busy s - 4\<rparr>), s\<lparr>dk_busy := dk_busy s - 5\<rparr>)"
  by (simp add: ata_status_def disk_io_def disk_in8_def ata_bus_new_def Let_def)
    (simp add: numeral_eq_Suc)

lemma disk_status_props:
  "disk_status s \<noteq> 0" "\<not> status_contains (disk_status s) ATA_ERROR"
  "status_intersects (disk_status s) ATA_BUSY \<longleftrightarrow> 0 < dk_busy s"
  "dk_busy s = 0 \<Longrightarrow> status_intersects (disk_status s) ATA_DATA_REQUEST_READY \<longleftrightarrow>
     dk_out s \<noteq> [] \<or> dk_in s \<noteq> None"
  by (auto simp: disk_status_def status_contains_def status_intersects_def ATA_ERROR_def
      ATA_BUSY_def ATA_DATA_REQUEST_READY_def)

lemma poll_loop_busy:
  "poll_loop (disk_io L) primary ATA_BUSY False (disk_status (s\<lparr>dk_busy := n\<rparr>)) (s\<lparr>dk_busy := n - 1\<rparr>)
     = Some (s\<lparr>dk_busy := 0\<rparr>)"
proof (induction n rule: less_induct)
  case (less n)
  show ?case
  proof (cases "n = 0")
    case True
    then show ?thesis
      using disk_status_props(3) [of "s\<lparr>dk_busy := 0\<rparr>"] by (simp add: poll_loop.simps)
  next
    case False
    then show ?thesis
      using less.IH [of "n - 5"] disk_status_props(2,3) [of "s\<lparr>dk_busy := n\<rparr>"]
      by (subst poll_loop.simps) (simp add: status_disk)
  qed
qed

lemma poll_busy: "poll (disk_io L) primary ATA_BUSY False s = Some (s\<lparr>dk_busy := 0\<rparr>)"
  using poll_loop_busy [where s = s and n = "dk_busy s - 4"] by (simp add: poll_def status_disk)

lemma poll_drq:
  "dk_busy s = 0 \<Longrightarrow> dk_out s \<noteq> [] \<or> dk_in s \<noteq> None \<Longrightarrow>
   poll (disk_io L) primary ATA_DATA_REQUEST_READY True s = Some s"
  using disk_status_props(4) [of s]
  by (cases s) (simp add: poll_def status_disk poll_loop.simps [of _ _ _ _ "disk_status _"])

lemma is_error_disk: "is_error (disk_io L) primary s = (False, s\<lparr>dk_busy := dk_busy s - 5\<rparr>)"
  by (simp add: is_error_def status_disk disk_status_props)

definition addressed :: "u32 \<Rightarrow> disk \<Rightarrow> disk" where
  "addressed block s =
     (let bs = u32_to_le_bytes block in
      s\<lparr>dk_low := bs ! 0, dk_mid := bs ! 1, dk_high := bs ! 2,
        dk_drive := (bs ! 3 AND 0x0F) OR (0 OR 0xE0)\<rparr>)"

lemma write_command_disk:
  assumes "disk_command L (cmd_as_u8 cmd) (addressed block s) = t"
    and "dk_out t \<noteq> [] \<or> dk_in t \<noteq> None"
  shows "write_command (disk_io L) primary 0 block cmd s = (Ok (), t\<lparr>dk_busy := 0\<rparr>)"
proof -
  let ?io = "disk_io L"
  have regs: "out8 ?io (p_command primary) (cmd_as_u8 cmd) (out8 ?io (p_drive primary)
      ((u32_to_le_bytes block ! 3 AND 0x0F) OR (0 OR 0xE0)) (out8 ?io (p_lba_high primary)
      (u32_to_le_bytes block ! 2) (out8 ?io (p_lba_mid primary) (u32_to_le_bytes block ! 1)
      (out8 ?io (p_lba_low primary) (u32_to_le_bytes block ! 0)
      (out8 ?io (p_sector_count primary) 1 s))))) = t"
    using assms(1) by (simp add: disk_io_def disk_out8_def ata_bus_new_def addressed_def Let_def)
  show ?thesis
    unfolding write_command_def Let_def regs
    using assms(2) by (simp add: status_disk disk_status_props poll_busy is_error_disk poll_drq)
qed

lemma u32_le_bytes:
  "u32_to_le_bytes w = [word_of_nat (unat w mod 256), word_of_nat (unat w div 256 mod 256),
     word_of_nat (unat w div 65536 mod 256), word_of_nat (unat w div 16777216 mod 256)]"
proof -
  have four: "(4 :: nat) = Suc (Suc (Suc (Suc 0)))" by simp
  show ?thesis
    unfolding u32_to_le_bytes_def four le_bytes.simps by (simp add: div_mult2_eq [symmetric])
qed

lemma unat_byte: "unat (word_of_nat (n mod 256) :: u8) = n mod 256"
  by (simp add: unat_of_nat)

lemma low_nibble: "unat (((b AND 0x0F) OR 0xE0) AND (0x0F :: u8)) = unat b mod 16"
proof -
  have "((b AND 0x0F) OR 0xE0) AND (0x0F :: u8) = b AND 0x0F"
    by (simp add: bit.conj_disj_distrib2 and.assoc)
  also have "\<dots> = take_bit 4 b"
    by (simp add: take_bit_eq_mask mask_numeral)
  finally show ?thesis by (simp add: take_bit_eq_mod unat_mod)
qed

text \<open>The drive addresses the block modulo \<open>2 ^ 28\<close>.\<close>

lemma disk_lba_addressed: "disk_lba (addressed block s) = unat block mod 2 ^ 28"
proof -
  define x where "x = unat block"
  have "x mod (16777216 * 16) = 16777216 * (x div 16777216 mod 16) + x mod 16777216"
    by (rule mod_mult2_eq)
  moreover have "x mod (65536 * 256) = 65536 * (x div 65536 mod 256) + x mod 65536"
    by (rule mod_mult2_eq)
  moreover have "x mod (256 * 256) = 256 * (x div 256 mod 256) + x mod 256"
    by (rule mod_mult2_eq)
  moreover have "x div 16777216 mod 256 mod 16 = x div 16777216 mod 16"
    by (simp add: mod_mod_cancel)
  ultimately show ?thesis
    by (simp add: disk_lba_def addressed_def Let_def u32_le_bytes low_nibble unat_byte
        x_def [symmetric])
qed

lemma read_chunks_disk:
  assumes "dk_out s = words_of bs" "length buf = length bs" "even (length bs)"
  shows "read_chunks (disk_io L) primary buf s = (Ok bs, s\<lparr>dk_out := []\<rparr>)"
  using assms
proof (induction buf arbitrary: s bs rule: induct_list012)
  case 1
  then show ?case by (cases s) simp
next
  case (2 a)
  then have "length bs = 1" by simp
  with 2(3) show ?case by simp
next
  case (3 a b buf)
  then obtain x y cs where bs: "bs = x # y # cs" by (metis length_Suc_conv)
  have "read_data (disk_io L) primary s = (u16_from_le_bytes [x, y], s\<lparr>dk_out := words_of cs\<rparr>)"
    using 3 bs by (simp add: read_data_def disk_io_def disk_in16_def ata_bus_new_def)
  moreover have "read_chunks (disk_io L) primary buf (s\<lparr>dk_out := words_of cs\<rparr>) =
      (Ok cs, s\<lparr>dk_out := []\<rparr>)"
    using 3 bs "3.IH"(1) [of "s\<lparr>dk_out := words_of cs\<rparr>" cs] by simp
  ultimately show ?case by (simp add: bs u16_to_from)
qed

lemma write_chunks_disk:
  assumes "dk_in s = Some (lba, ws)" "even (length bs)" "bs \<noteq> []"
    and "length ws + length (words_of bs) = 256"
  shows "write_chunks (disk_io L) primary bs s =
    (Ok (), s\<lparr>dk_in := None, dk_medium := (dk_medium s)(lba := bytes_of (ws @ words_of bs))\<rparr>)"
  using assms
proof (induction bs arbitrary: s ws rule: induct_list012)
  case (3 a b bs)
  let ?v = "u16_from_le_bytes [a, b]"
  show ?case
  proof (cases "bs = []")
    case True
    with "3.prems" show ?thesis
      by (simp add: write_data_def disk_io_def disk_out16_def ata_bus_new_def fun_upd_def)
  next
    case False
    then have "words_of bs \<noteq> []"
      using "3.prems" by (cases bs rule: words_of.cases) auto
    then have "0 < length (words_of bs)" by simp
    moreover have "length ws + Suc (length (words_of bs)) = 256" using "3.prems" by simp
    ultimately have "length ws \<noteq> 255" by linarith
    then have "write_data (disk_io L) primary ?v s = s\<lparr>dk_in := Some (lba, ws @ [?v])\<rparr>"
      using "3.prems" by (simp add: write_data_def disk_io_def disk_out16_def ata_bus_new_def)
    with "3.prems" False "3.IH"(1) [of "s\<lparr>dk_in := Some (lba, ws @ [?v])\<rparr>" "ws @ [?v]"] show ?thesis by simp
  qed
qed simp_all

lemma BUSES_primary: "BUSES \<noteq> []" "BUSES ! 0 = primary"
  by (simp_all add: BUSES_def)

lemma words_of_block: "length bs = 512 \<Longrightarrow> length (words_of bs) = 256"
  using length_words_of [of bs] by simp

lemma ata_read_block_disk:
  assumes "disk_wf s"
  shows "\<exists>t. ata_read_block (disk_io L) (primary_drive n) i s = (Ok (dk_medium s (i mod 2 ^ 28)), t) \<and>
    dk_medium t = dk_medium s"
proof -
  define t where "t = disk_command L (cmd_as_u8 ReadPio) (addressed (word_of_nat i) s)"
  have lba: "disk_lba (addressed (word_of_nat i) s) = i mod 2 ^ 28"
    using disk_lba_addressed [of "word_of_nat i" s] by (simp add: unat_of_nat mod_mod_cancel)
  let ?bs = "dk_medium s (i mod 2 ^ 28)"
  have t: "dk_out t = words_of ?bs" "dk_medium t = dk_medium s"
    unfolding t_def by (simp_all add: disk_command_def lba) (simp_all add: addressed_def Let_def)
  have len: "length ?bs = 512" using assms by (simp add: disk_wf_def)
  then have "dk_out t \<noteq> []" using words_of_block [of ?bs] t by auto
  then have "write_command (disk_io L) primary 0 (word_of_nat i) ReadPio s = (Ok (), t\<lparr>dk_busy := 0\<rparr>)"
    by (intro write_command_disk) (auto simp: t_def)
  moreover have "read_chunks (disk_io L) primary block_default (t\<lparr>dk_busy := 0\<rparr>) =
      (Ok ?bs, t\<lparr>dk_busy := 0, dk_out := []\<rparr>)"
    using read_chunks_disk [of "t\<lparr>dk_busy := 0\<rparr>" ?bs block_default L] t len
    by (simp add: block_default_def)
  ultimately show ?thesis
    using t by (simp add: ata_read_block_def primary_drive_def BUSES_primary read_pio_def
        is_error_disk)
qed

lemma ata_write_block_disk:
  assumes "length b = 512"
  shows "\<exists>t. ata_write_block (disk_io L) (primary_drive n) s i b = (Ok (), t) \<and>
    dk_medium t = (dk_medium s)(i mod 2 ^ 28 := b)"
proof -
  define t where "t = disk_command L (cmd_as_u8 WritePio) (addressed (word_of_nat i) s)"
  have lba: "disk_lba (addressed (word_of_nat i) s) = i mod 2 ^ 28"
    using disk_lba_addressed [of "word_of_nat i" s] by (simp add: unat_of_nat mod_mod_cancel)
  have t: "dk_in t = Some (i mod 2 ^ 28, [])" "dk_medium t = dk_medium s"
    unfolding t_def by (simp_all add: disk_command_def lba) (simp_all add: addressed_def Let_def)
  then have "write_command (disk_io L) primary 0 (word_of_nat i) WritePio s = (Ok (), t\<lparr>dk_busy := 0\<rparr>)"
    by (intro write_command_disk) (auto simp: t_def)
  moreover have "write_chunks (disk_io L) primary b (t\<lparr>dk_busy := 0\<rparr>) =
      (Ok (), t\<lparr>dk_busy := 0, dk_in := None, dk_medium := (dk_medium s)(i mod 2 ^ 28 := b)\<rparr>)"
    using write_chunks_disk [of "t\<lparr>dk_busy := 0\<rparr>" "i mod 2 ^ 28" "[]" b L] t assms words_of_block [OF assms]
    by (cases "b = []") (auto simp: bytes_of_words)
  ultimately show ?thesis
    by (simp add: ata_write_block_def primary_drive_def BUSES_primary write_pio_def is_error_disk)
qed

interpretation ata_store: block_store disk_wf "ata_reader (disk_io L) (primary_drive n)"
  "ata_write_block (disk_io L) (primary_drive n)" "2 ^ 28" for L n
proof
  fix d d' :: disk and i j :: nat and b :: "u8 list" and r
  assume wf: "disk_wf d" and i: "i < 2 ^ 28" and b: "length b = 512"
  obtain t where t: "ata_write_block (disk_io L) (primary_drive n) d i b = (Ok (), t)"
    "dk_medium t = (dk_medium d)(i := b)"
    using ata_write_block_disk [OF b, of L n d i] i by auto
  then have wf': "disk_wf t" using wf b by (simp add: disk_wf_def)
  have rd: "ata_reader (disk_io L) (primary_drive n) s k = Ok (dk_medium s k)"
    if "disk_wf s" "k < 2 ^ 28" for s k
    using ata_read_block_disk [OF that(1), of L n k] that(2) by (auto simp: ata_reader_def)
  show "disk_wf d'" if "ata_write_block (disk_io L) (primary_drive n) d i b = (r, d')"
    using that t wf' by simp
  show "ata_reader (disk_io L) (primary_drive n) d' i = Ok b"
    if "ata_write_block (disk_io L) (primary_drive n) d i b = (Ok (), d')"
    using that t wf' rd i by simp
  show "ata_reader (disk_io L) (primary_drive n) d' j = ata_reader (disk_io L) (primary_drive n) d j"
    if "j < 2 ^ 28" "i \<noteq> j" "ata_write_block (disk_io L) (primary_drive n) d i b = (r, d')"
    using that t wf wf' rd by simp
qed

end
