(* ===== verification/Fat16_Bpb.thy ===== *)
theory Fat16_Bpb
  imports Storage_Common
begin

text \<open>
  \<open>pkg/storage/src/fs/fat16/bpb.rs\<close>: the BIOS parameter block, one definition per field that
  \<open>define_field!\<close> declares. The well-formed blocks are the arrays of 512 bytes.
\<close>

record Fat16Bpb =
  bpb_data :: "u8 list"

definition trail :: "Fat16Bpb \<Rightarrow> u16" where
  "trail b = field_u16 (bpb_data b) 0x1FE"

text \<open>
  \<open>new\<close>: the conversion of the slice into an array panics unless it has 512 bytes, so the test
  of the length in the code never fails. The error is a string.
\<close>

definition bpb_new :: "u8 list \<Rightarrow> (str, Fat16Bpb) outcome" where
  "bpb_new dat =
     (if length dat \<noteq> 512 then Panic
      else let b = \<lparr>bpb_data = dat\<rparr> in
        if length (bpb_data b) \<noteq> 512 \<or> trail b \<noteq> 0xAA55 then Err (bytes ''Bad BPB format'')
        else Ok b)"

definition oem_name :: "Fat16Bpb \<Rightarrow> u8 list" where
  "oem_name b = field_bytes (bpb_data b) 8 0x03"

definition oem_name_str :: "Fat16Bpb \<Rightarrow> str" where
  "oem_name_str b = field_str (bpb_data b) 8 0x03"

definition bytes_per_sector :: "Fat16Bpb \<Rightarrow> u16" where
  "bytes_per_sector b = field_u16 (bpb_data b) 0x0B"

definition sectors_per_cluster :: "Fat16Bpb \<Rightarrow> u8" where
  "sectors_per_cluster b = field_u8 (bpb_data b) 0x0D"

definition reserved_sector_count :: "Fat16Bpb \<Rightarrow> u16" where
  "reserved_sector_count b = field_u16 (bpb_data b) 0x0E"

definition fat_count :: "Fat16Bpb \<Rightarrow> u8" where
  "fat_count b = field_u8 (bpb_data b) 0x10"

definition root_entries_count :: "Fat16Bpb \<Rightarrow> u16" where
  "root_entries_count b = field_u16 (bpb_data b) 0x11"

definition total_sectors_16 :: "Fat16Bpb \<Rightarrow> u16" where
  "total_sectors_16 b = field_u16 (bpb_data b) 0x13"

definition media_descriptor :: "Fat16Bpb \<Rightarrow> u8" where
  "media_descriptor b = field_u8 (bpb_data b) 0x15"

definition sectors_per_fat :: "Fat16Bpb \<Rightarrow> u16" where
  "sectors_per_fat b = field_u16 (bpb_data b) 0x16"

definition sectors_per_track :: "Fat16Bpb \<Rightarrow> u16" where
  "sectors_per_track b = field_u16 (bpb_data b) 0x18"

definition track_count :: "Fat16Bpb \<Rightarrow> u16" where
  "track_count b = field_u16 (bpb_data b) 0x1A"

definition hidden_sectors :: "Fat16Bpb \<Rightarrow> u32" where
  "hidden_sectors b = field_u32 (bpb_data b) 0x1C"

definition total_sectors_32 :: "Fat16Bpb \<Rightarrow> u32" where
  "total_sectors_32 b = field_u32 (bpb_data b) 0x20"

definition drive_number :: "Fat16Bpb \<Rightarrow> u8" where
  "drive_number b = field_u8 (bpb_data b) 0x24"

definition reserved_flags :: "Fat16Bpb \<Rightarrow> u8" where
  "reserved_flags b = field_u8 (bpb_data b) 0x25"

definition boot_signature :: "Fat16Bpb \<Rightarrow> u8" where
  "boot_signature b = field_u8 (bpb_data b) 0x26"

definition volume_id :: "Fat16Bpb \<Rightarrow> u32" where
  "volume_id b = field_u32 (bpb_data b) 0x27"

definition volume_label :: "Fat16Bpb \<Rightarrow> u8 list" where
  "volume_label b = field_bytes (bpb_data b) 11 0x2B"

definition volume_label_str :: "Fat16Bpb \<Rightarrow> str" where
  "volume_label_str b = field_str (bpb_data b) 11 0x2B"

definition system_identifier :: "Fat16Bpb \<Rightarrow> u8 list" where
  "system_identifier b = field_bytes (bpb_data b) 8 0x36"

definition system_identifier_str :: "Fat16Bpb \<Rightarrow> str" where
  "system_identifier_str b = field_str (bpb_data b) 8 0x36"

definition total_sectors :: "Fat16Bpb \<Rightarrow> u32" where
  "total_sectors b = (if total_sectors_16 b = 0 then total_sectors_32 b else ucast (total_sectors_16 b))"

definition bpb_wf :: "Fat16Bpb \<Rightarrow> bool" where
  "bpb_wf b \<longleftrightarrow> length (bpb_data b) = 512 \<and> trail b = 0xAA55"

lemma bpb_new_Ok_iff: "bpb_new dat = Ok b \<longleftrightarrow> b = \<lparr>bpb_data = dat\<rparr> \<and> bpb_wf b"
  by (auto simp: bpb_new_def bpb_wf_def Let_def)

lemma bpb_new_block: "length dat = 512 \<Longrightarrow> bpb_new dat \<noteq> Panic \<and> bpb_new dat \<noteq> Hang"
  by (simp add: bpb_new_def Let_def)

end
