(* ===== verification/Fat16_DirEntry.thy ===== *)
theory Fat16_DirEntry
  imports Storage_Common
begin

text \<open>
  \<open>pkg/storage/src/fs/fat16/direntry.rs\<close>: 8.3 names, clusters, attributes and the 32-byte
  directory entry. \<open>chrono\<close> (the calendar) and the Unicode tables behind \<open>str::to_uppercase\<close> are
  not part of the repository; they are the fields of the record \<open>externs\<close>, and
  \<open>uppercase_ascii\<close> is the documented behaviour of \<open>to_uppercase\<close> that the proofs use.
\<close>

record 't externs =
  xt_with_ymd_and_hms :: "int \<Rightarrow> u32 \<Rightarrow> u32 \<Rightarrow> u32 \<Rightarrow> u32 \<Rightarrow> u32 \<Rightarrow> 't option"
  xt_epoch :: 't
  xt_to_uppercase :: "str \<Rightarrow> str"

definition uppercase_ascii :: "('t, 'x) externs_scheme \<Rightarrow> bool" where
  "uppercase_ascii X \<longleftrightarrow> (\<forall>s. is_ascii s \<longrightarrow> xt_to_uppercase X s = ascii_upper s)"

section \<open>ShortFileName\<close>

record ShortFileName =
  sfn_name :: "u8 list"
  sfn_ext :: "u8 list"

definition sfn_wf :: "ShortFileName \<Rightarrow> bool" where
  "sfn_wf f \<longleftrightarrow> length (sfn_name f) = 8 \<and> length (sfn_ext f) = 3"

definition sfn_new :: "u8 list \<Rightarrow> (FsError, ShortFileName) outcome" where
  "sfn_new buf =
     and_then (subslice buf 0 8) (\<lambda>n.
     and_then (subslice buf 8 11) (\<lambda>e. Ok \<lparr>sfn_name = n, sfn_ext = e\<rparr>))"

definition basename :: "ShortFileName \<Rightarrow> (FsError, str) outcome" where
  "basename f = unwrap_option (from_utf8 (sfn_name f))"

definition extension :: "ShortFileName \<Rightarrow> (FsError, str) outcome" where
  "extension f = unwrap_option (from_utf8 (sfn_ext f))"

definition is_eod :: "ShortFileName \<Rightarrow> bool" where
  "is_eod f \<longleftrightarrow> sfn_name f ! 0 = 0x00 \<and> sfn_ext f ! 0 = 0x00"

definition is_unused :: "ShortFileName \<Rightarrow> bool" where
  "is_unused f \<longleftrightarrow> sfn_name f ! 0 = 0xE5"

definition sfn_matches :: "ShortFileName \<Rightarrow> ShortFileName \<Rightarrow> bool" where
  "sfn_matches f sfn \<longleftrightarrow> sfn_name f = sfn_name sfn \<and> sfn_ext f = sfn_ext sfn"

definition forbidden_chars :: "u8 list" where
  "forbidden_chars =
     [0x00, 0x01, 0x02, 0x03, 0x04, 0x05, 0x06, 0x07, 0x08, 0x09, 0x0A, 0x0B, 0x0C, 0x0D,
      0x0E, 0x0F, 0x10, 0x11, 0x12, 0x13, 0x14, 0x15, 0x16, 0x17, 0x18, 0x19, 0x1A, 0x1B,
      0x1C, 0x1D, 0x1E, 0x1F, 0x22, 0x2A, 0x2B, 0x2C, 0x2F, 0x3A, 0x3B, 0x3C, 0x3D, 0x3E,
      0x3F, 0x5B, 0x5C, 0x5D, 0x7C]"

text \<open>
  \<open>parse\<close>. The forbidden characters are ASCII, so that a name has one of them as a \<open>char\<close> exactly
  when it has it as a byte. The padding counts characters and the array needs bytes: the last
  conversion panics when the two differ.
\<close>

definition sfn_parse :: "('t, 'x) externs_scheme \<Rightarrow> str \<Rightarrow> (FsError, ShortFileName) outcome" where
  "sfn_parse X name0 =
     (if name0 = [] then Err (from_filename_error FilenameEmpty)
      else if 0x20 \<in> set name0 then Err (from_filename_error MisplacedPeriod)
      else
        let name1 = xt_to_uppercase X name0;
            at = (case str_rfind 0x2E name1 of Some i \<Rightarrow> i | None \<Rightarrow> length name1);
            name = take at name1;
            ext = trim_start_matches [0x2E] (drop at name1) in
        if length name > 8 \<or> length ext > 3 then Err (from_filename_error NameTooLong)
        else if list_ex (\<lambda>c. c \<in> set forbidden_chars) name
        then Err (from_filename_error InvalidCharacter)
        else
          let name' = pad_right 8 name; ext' = pad_right 3 ext in
          if length name' = 8 \<and> length ext' = 3
          then Ok \<lparr>sfn_name = name', sfn_ext = ext'\<rparr> else Panic)"

text \<open>\<open>Display\<close>, as \<open>format!("{}", f)\<close>.\<close>

definition sfn_display :: "ShortFileName \<Rightarrow> (FsError, str) outcome" where
  "sfn_display f =
     (if sfn_ext f ! 0 = 0x20 then and_then (basename f) (\<lambda>b. Ok (trim_end b))
      else and_then (basename f) (\<lambda>b. and_then (extension f) (\<lambda>e.
             Ok (trim_end b @ [0x2E] @ trim_end e))))"

section \<open>Cluster and Attributes\<close>

type_synonym Cluster = u32

definition CLUSTER_INVALID :: Cluster where "CLUSTER_INVALID = 0xFFFFFFF6"
definition CLUSTER_BAD :: Cluster where "CLUSTER_BAD = 0xFFFFFFF7"
definition CLUSTER_EMPTY :: Cluster where "CLUSTER_EMPTY = 0x00000000"
definition CLUSTER_ROOT_DIR :: Cluster where "CLUSTER_ROOT_DIR = 0xFFFFFFFC"
definition CLUSTER_END_OF_FILE :: Cluster where "CLUSTER_END_OF_FILE = 0xFFFFFFFF"

text \<open>The four \<open>Add\<close> and \<open>AddAssign\<close> implementations: the sum wraps.\<close>

definition cluster_add :: "Cluster \<Rightarrow> u32 \<Rightarrow> Cluster" where
  "cluster_add c rhs = c + rhs"

text \<open>A \<open>bitflags!\<close> type is its bits; the declared bits are \<open>0x3F\<close>.\<close>

type_synonym Attributes = u8

definition ATTR_READ_ONLY :: Attributes where "ATTR_READ_ONLY = 0x01"
definition ATTR_HIDDEN :: Attributes where "ATTR_HIDDEN = 0x02"
definition ATTR_SYSTEM :: Attributes where "ATTR_SYSTEM = 0x04"
definition ATTR_VOLUME_ID :: Attributes where "ATTR_VOLUME_ID = 0x08"
definition ATTR_DIRECTORY :: Attributes where "ATTR_DIRECTORY = 0x10"
definition ATTR_ARCHIVE :: Attributes where "ATTR_ARCHIVE = 0x20"
definition ATTR_LFN :: Attributes where "ATTR_LFN = 0x0F"

definition attr_from_bits :: "u8 \<Rightarrow> Attributes option" where
  "attr_from_bits b = (if b AND 0x3F = b then Some b else None)"

definition attr_contains :: "Attributes \<Rightarrow> Attributes \<Rightarrow> bool" where
  "attr_contains a b \<longleftrightarrow> a AND b = b"

section \<open>DirEntry\<close>

record 't DirEntry =
  de_filename :: ShortFileName
  de_modified_time :: 't
  de_created_time :: 't
  de_accessed_time :: 't
  de_cluster :: Cluster
  de_attributes :: Attributes
  de_size :: u32

definition DIR_ENTRY_LEN :: nat where
  "DIR_ENTRY_LEN = 0x20"

definition is_valid :: "'t DirEntry \<Rightarrow> bool" where
  "is_valid e \<longleftrightarrow> \<not> is_unused (de_filename e) \<and> \<not> is_eod (de_filename e)"

definition is_long_name :: "'t DirEntry \<Rightarrow> bool" where
  "is_long_name e \<longleftrightarrow> attr_contains (de_attributes e) ATTR_LFN"

definition is_directory :: "'t DirEntry \<Rightarrow> bool" where
  "is_directory e \<longleftrightarrow> attr_contains (de_attributes e) ATTR_DIRECTORY"

definition is_displayable :: "'t DirEntry \<Rightarrow> bool" where
  "is_displayable e \<longleftrightarrow>
     \<not> attr_contains (de_attributes e) ATTR_HIDDEN \<and> is_valid e \<and> \<not> is_long_name e"

definition de_filename_str :: "'t DirEntry \<Rightarrow> (FsError, str) outcome" where
  "de_filename_str e =
     (if is_valid e \<and> \<not> is_long_name e then sfn_display (de_filename e)
      else Ok (bytes ''unknown''))"

text \<open>\<open>prase_datetime\<close>, the name as the code spells it.\<close>

definition prase_datetime :: "('t, 'x) externs_scheme \<Rightarrow> u32 \<Rightarrow> 't" where
  "prase_datetime X time =
     (let year = uint (drop_bit 25 time AND 0x7F) + 1980;
          month = drop_bit 21 time AND 0x0F;
          day = drop_bit 16 time AND 0x1F;
          hour = drop_bit 11 time AND 0x1F;
          mins = drop_bit 5 time AND 0x3F;
          secs = (time AND 0x1F) * 2 in
      case xt_with_ymd_and_hms X year month day hour mins secs of
        Some t \<Rightarrow> t | None \<Rightarrow> xt_epoch X)"

definition de_parse :: "('t, 'x) externs_scheme \<Rightarrow> u8 list \<Rightarrow> (FsError, 't DirEntry) outcome" where
  "de_parse X dat =
     and_then (and_then (subslice dat 0 11) sfn_new) (\<lambda>filename.
     and_then (subslice dat 14 18) (\<lambda>cr.
     and_then (index dat 18) (\<lambda>d18. and_then (index dat 19) (\<lambda>d19.
     and_then (subslice dat 22 26) (\<lambda>mo.
     and_then (index dat 11) (\<lambda>d11.
     and_then (index dat 26) (\<lambda>d26. and_then (index dat 27) (\<lambda>d27.
     and_then (index dat 20) (\<lambda>d20. and_then (index dat 21) (\<lambda>d21.
     and_then (subslice dat 28 32) (\<lambda>sz.
       Ok \<lparr>de_filename = filename,
           de_modified_time = prase_datetime X (u32_from_le_bytes mo),
           de_created_time = prase_datetime X (u32_from_le_bytes cr),
           de_accessed_time = prase_datetime X (u32_from_le_bytes [0, 0, d18, d19]),
           de_cluster = u32_from_le_bytes [d26, d27, d20, d21],
           de_attributes = (case attr_from_bits d11 of Some a \<Rightarrow> a | None \<Rightarrow> 0),
           de_size = u32_from_le_bytes sz\<rparr>)))))))))))"

text \<open>\<open>as_meta\<close> and \<open>From<&DirEntry> for Metadata\<close>.\<close>

definition as_meta :: "'t DirEntry \<Rightarrow> (FsError, 't Metadata) outcome" where
  "as_meta e =
     and_then (de_filename_str e) (\<lambda>name. Ok
       \<lparr>md_name = name, md_entry_type = (if is_directory e then Directory_t else File_t),
        md_len = unat (de_size e), md_created = Some (de_created_time e),
        md_modified = Some (de_modified_time e), md_accessed = Some (de_accessed_time e)\<rparr>)"

section \<open>Parsing entries\<close>

lemma de_parse_Ok:
  assumes "32 \<le> length dat"
  shows "\<exists>e. de_parse X dat = Ok e \<and> sfn_wf (de_filename e) \<and>
    sfn_name (de_filename e) = take 8 dat \<and> sfn_ext (de_filename e) = take 3 (drop 8 dat) \<and>
    unat (de_size e) = le_nat (take 4 (drop 28 dat))"
proof -
  have "subslice dat 28 32 = Ok (take 4 (drop 28 dat))" using assms by simp
  moreover have "unat (u32_from_le_bytes (take 4 (drop 28 dat))) = le_nat (take 4 (drop 28 dat))"
    using assms by (simp add: unat_u32_from_le_bytes)
  moreover have "take 3 (drop 8 (take 11 dat)) = take 3 (drop 8 dat)" by (simp add: drop_take)
  ultimately show ?thesis
    using assms by (auto simp: de_parse_def sfn_new_def sfn_wf_def min_def)
qed

lemma de_parse_short: "length dat < 11 \<Longrightarrow> de_parse X dat = Panic"
  by (simp add: de_parse_def)

section \<open>Names\<close>

lemma ascii_upper_byte_props:
  "b < 0x80 \<Longrightarrow> ascii_upper_byte b < 0x80"
  "ascii_upper_byte b = 0x20 \<longleftrightarrow> b = 0x20"
  "ascii_upper_byte b = 0x2E \<longleftrightarrow> b = 0x2E"
  by (auto simp: ascii_upper_byte_def word_less_nat_alt word_le_nat_alt unat_sub_if' unsigned_eq_0_iff
      dest: arg_cong [where f = unat] split: if_splits)

lemma is_ascii_upper [simp]: "is_ascii s \<Longrightarrow> is_ascii (ascii_upper s)"
  by (induction s) (auto simp: ascii_upper_def ascii_upper_byte_props)


lemma trim_start_dot: "0x2E \<notin> set q \<Longrightarrow> trim_start_matches [0x2E] (0x2E # q) = q"
proof -
  assume "0x2E \<notin> set q"
  then have "trim_start_matches [0x2E] q = q"
    by (subst trim_start_matches.simps) (cases q, auto)
  then show ?thesis by (subst trim_start_matches.simps) simp
qed

text \<open>How the upper-cased name is split: at its last dot, or not at all.\<close>

lemma split_at_dot_cases:
  fixes n :: str
  obtains (no_dot) "0x2E \<notin> set n"
      "(case str_rfind 0x2E n of Some i \<Rightarrow> i | None \<Rightarrow> length n) = length n"
  | (dot) p q where "n = p @ 0x2E # q" "0x2E \<notin> set q"
proof (cases "0x2E \<in> set n")
  case True
  then obtain p q where "n = p @ 0x2E # q" "0x2E \<notin> set q" by (auto dest: split_list_last)
  then show ?thesis using dot by blast
next
  case False
  then show ?thesis using no_dot by (metis option.simps(4) str_rfind_None)
qed

lemma sfn_parse_wf: "sfn_parse X s = Ok f \<Longrightarrow> sfn_wf f"
  by (auto simp: sfn_parse_def sfn_wf_def Let_def split: if_splits)

text \<open>
  What a successful \<open>parse\<close> of an ASCII name stores: the upper-cased base and extension, padded.
\<close>

lemma sfn_parse_ascii_Ok:
  assumes "uppercase_ascii X" "is_ascii s" "sfn_parse X s = Ok f"
  obtains p q where
    "ascii_upper s = p @ q \<and> q = [] \<and> 0x2E \<notin> set p \<or> ascii_upper s = p @ 0x2E # q"
    "0x2E \<notin> set q" "length p \<le> 8" "length q \<le> 3" "is_ascii p" "is_ascii q"
    "set p \<inter> set forbidden_chars = {}" "0x20 \<notin> set p" "0x20 \<notin> set q"
    "f = \<lparr>sfn_name = pad_right 8 p, sfn_ext = pad_right 3 q\<rparr>"
proof -
  have up: "xt_to_uppercase X s = ascii_upper s" using assms by (simp add: uppercase_ascii_def)
  have asc: "is_ascii (ascii_upper s)" using assms by simp
  have "0x20 \<notin> set s" using assms(3) by (auto simp: sfn_parse_def split: if_splits)
  then have sp: "0x20 \<notin> set (ascii_upper s)"
    by (auto simp: ascii_upper_def ascii_upper_byte_props dest: sym)
  show ?thesis
  proof (cases "ascii_upper s" rule: split_at_dot_cases)
    case no_dot
    show ?thesis
      by (rule that [of "ascii_upper s" "[]"])
        (use assms(3) no_dot asc sp in
          \<open>auto simp: sfn_parse_def up Let_def list_ex_iff split: if_splits\<close>)
  next
    case (dot p q)
    then have "trim_start_matches [0x2E] (drop (length p) (ascii_upper s)) = q"
      by (simp add: trim_start_dot)
    then show ?thesis
      by (intro that [of p q])
        (use assms(3) dot asc sp in
          \<open>auto simp: sfn_parse_def up Let_def list_ex_iff str_rfind_last split: if_splits\<close>)
  qed
qed

lemma sfn_parse_ascii_total:
  assumes "uppercase_ascii X" "is_ascii s"
  shows "sfn_parse X s \<noteq> Panic \<and> sfn_parse X s \<noteq> Hang"
proof -
  have up: "xt_to_uppercase X s = ascii_upper s" using assms by (simp add: uppercase_ascii_def)
  have asc: "is_ascii (ascii_upper s)" using assms by simp
  show ?thesis
  proof (cases "ascii_upper s" rule: split_at_dot_cases)
    case no_dot
    with asc show ?thesis
      by (auto simp: sfn_parse_def up Let_def length_pad_right)
  next
    case (dot p q)
    then have "trim_start_matches [0x2E] (drop (length p) (ascii_upper s)) = q"
      by (simp add: trim_start_dot)
    with asc dot show ?thesis
      by (auto simp: sfn_parse_def up Let_def length_pad_right str_rfind_last)
  qed
qed

lemma pad_right_ascii: "is_ascii p \<Longrightarrow> is_ascii (pad_right n p)"
  by (induction n) (auto simp: pad_right_def is_ascii_def list_all_iff)

lemma trim_pad: "is_ascii p \<Longrightarrow> (p \<noteq> [] \<Longrightarrow> \<not> ascii_white (last p)) \<Longrightarrow> trim_end (pad_right n p) = p"
  by (simp add: pad_right_def trim_end_ascii_last)

lemma forbidden_white: "ascii_white b \<Longrightarrow> b \<in> set forbidden_chars \<or> b = 0x20"
proof -
  assume "ascii_white b"
  then have "b = 0x20 \<or> unat b \<in> {9..13}"
    by (auto simp: ascii_white_def word_le_nat_alt)
  moreover have "unat b \<in> {9..13} \<Longrightarrow> b \<in> {9, 10, 11, 12, 13}"
  proof -
    assume "unat b \<in> {9..13}"
    then have "unat b = 9 \<or> unat b = 10 \<or> unat b = 11 \<or> unat b = 12 \<or> unat b = 13" by auto
    then show "b \<in> {9, 10, 11, 12, 13}"
      by (auto simp: word_unat_eq_iff)
  qed
  ultimately show ?thesis by (auto simp: forbidden_chars_def)
qed

text \<open>Printing a parsed name gives the name back, in upper case.\<close>

lemma sfn_display_parse:
  assumes "uppercase_ascii X" "is_ascii s" "sfn_parse X s = Ok f"
    and "last s \<noteq> 0x2E" "\<not> ascii_white (ascii_upper_byte (last s))"
  shows "sfn_display f = Ok (ascii_upper s)"
  using assms(1-3)
proof (rule sfn_parse_ascii_Ok)
  fix p q
  assume pq: "ascii_upper s = p @ q \<and> q = [] \<and> 0x2E \<notin> set p \<or> ascii_upper s = p @ 0x2E # q"
    "is_ascii p" "is_ascii q" "set p \<inter> set forbidden_chars = {}" "0x20 \<notin> set p" "0x20 \<notin> set q"
    "f = \<lparr>sfn_name = pad_right 8 p, sfn_ext = pad_right 3 q\<rparr>"
  have "s \<noteq> []" using assms(3) by (auto simp: sfn_parse_def)
  then have lst: "last (ascii_upper s) = ascii_upper_byte (last s)"
    by (simp add: ascii_upper_def last_map)
  have "p \<noteq> [] \<Longrightarrow> \<not> ascii_white (last p)"
    using pq forbidden_white [of "last p"] by (metis disjoint_iff last_in_set)
  then have p: "trim_end (pad_right 8 p) = p" using pq trim_pad by blast
  show ?thesis
  proof (cases "q = []")
    case True
    with pq lst assms(4) have "ascii_upper s = p" by (auto simp: ascii_upper_byte_props)
    with True pq p show ?thesis by (simp add: sfn_display_def basename_def pad_right_ascii) (simp add: pad_right_def)
  next
    case False
    with pq have s: "ascii_upper s = p @ 0x2E # q" by auto
    with lst False assms(5) have "\<not> ascii_white (last q)" by simp
    with pq False have "trim_end (pad_right 3 q) = q" using trim_pad by blast
    moreover from False pq(6) have "pad_right 3 q ! 0 \<noteq> 0x20"
      by (cases q) (auto simp: pad_right_def)
    ultimately show ?thesis using pq p s
      by (simp add: sfn_display_def basename_def extension_def pad_right_ascii)
  qed
qed

end
