(* ===== verification/Fat16_Fs.thy ===== *)
theory Fat16_Fs
  imports Fat16_Bpb Fat16_DirEntry
begin

text \<open>
  \<open>pkg/storage/src/fs/fat16/{mod,directory,impls}.rs\<close>: mounting the volume, the map from clusters
  to sectors, the FAT lookup, the directory traversal and the look-ups by path. The traversal
  follows the cluster chain as far as the FAT says, so it is a partial function, and a chain with a
  cycle is the outcome \<open>Hang\<close>.
\<close>

section \<open>Fat16Impl and Directory\<close>

record Fat16Impl =
  fs_inner :: block_reader
  fs_bpb :: Fat16Bpb
  fat_start :: nat
  first_data_sector :: nat
  first_root_dir_sector :: nat

definition fat16_new :: "block_reader \<Rightarrow> (FsError, Fat16Impl) outcome" where
  "fat16_new inner =
     and_then (unwrap (inner 0)) (\<lambda>block.
     and_then (unwrap (bpb_new block)) (\<lambda>bpb.
       let fstart = unat (reserved_sector_count bpb);
           root_dir_sector_num = unat (root_entries_count bpb) * 32 div BLOCK_SIZE;
           first_root = fstart + unat (fat_count bpb) * unat (sectors_per_fat bpb) in
       Ok \<lparr>fs_inner = inner, fs_bpb = bpb, fat_start = fstart,
           first_data_sector = first_root + root_dir_sector_num,
           first_root_dir_sector = first_root\<rparr>))"

text \<open>\<open>(c - 2) * sectors_per_cluster + first_data_sector\<close> is computed in \<open>u32\<close> and wraps.\<close>

definition cluster_to_first_sector :: "Fat16Impl \<Rightarrow> Cluster \<Rightarrow> nat" where
  "cluster_to_first_sector h cluster =
     (if cluster = CLUSTER_ROOT_DIR then first_root_dir_sector h
      else unat ((cluster - 2) * ucast (sectors_per_cluster (fs_bpb h)) +
                 (word_of_nat (first_data_sector h) :: u32)))"

definition get_next_cluster :: "Fat16Impl \<Rightarrow> Cluster \<Rightarrow> (FsError, Cluster) outcome" where
  "get_next_cluster h cluster =
     (if cluster = CLUSTER_ROOT_DIR then Ok CLUSTER_END_OF_FILE
      else
        and_then (unwrap (fs_inner h (fat_start h))) (\<lambda>block.
        let tem = unat (cluster * 2) in
        and_then (subslice block tem (tem + 2)) (\<lambda>bs.
        let next = (ucast (u16_from_le_bytes bs) :: u32) in
        if next = CLUSTER_EMPTY then Ok CLUSTER_EMPTY
        else if next = CLUSTER_BAD then Err BadCluster
        else if 0x00000002 \<le> next \<and> next < 0x0000FFF6 then Ok next
        else if next \<ge> 0xFFFFFFF8 then Ok CLUSTER_END_OF_FILE
        else Ok CLUSTER_INVALID)))"

record 't Directory =
  dir_cluster :: Cluster
  dir_entry :: "'t DirEntry option"

definition directory_new :: "Cluster \<Rightarrow> 't Directory" where
  "directory_new c = \<lparr>dir_cluster = c, dir_entry = None\<rparr>"

definition directory_root :: "'t Directory" where
  "directory_root = \<lparr>dir_cluster = CLUSTER_ROOT_DIR, dir_entry = None\<rparr>"

definition directory_from_entry :: "'t DirEntry \<Rightarrow> 't Directory" where
  "directory_from_entry e = \<lparr>dir_cluster = de_cluster e, dir_entry = Some e\<rparr>"

section \<open>traverse_dir_entries\<close>

text \<open>
  The closure \<open>process_entry\<close> is a function of the variables it captures, \<open>acc\<close>. A block of
  entries ends with \<open>Next\<close> when all were processed and with \<open>Return\<close> at the first entry that is
  not valid.
\<close>

datatype 'a flow = Next 'a | Return 'a

fun traverse_block ::
  "('t, 'x) externs_scheme \<Rightarrow> ('a \<Rightarrow> 't DirEntry \<Rightarrow> (FsError, 'a) outcome) \<Rightarrow>
   u8 list \<Rightarrow> nat \<Rightarrow> nat \<Rightarrow> 'a \<Rightarrow> (FsError, 'a flow) outcome" where
  "traverse_block X process_entry block offset 0 acc = Ok (Next acc)"
| "traverse_block X process_entry block offset (Suc k) acc =
     and_then (subslice block offset (offset + DIR_ENTRY_LEN)) (\<lambda>dat.
     and_then (unwrap (de_parse X dat)) (\<lambda>entry.
       if is_valid entry
       then and_then (process_entry acc entry) (\<lambda>acc'.
              traverse_block X process_entry block (offset + DIR_ENTRY_LEN) k acc')
       else Ok (Return acc)))"

text \<open>The loop \<open>while entry_num > 0\<close>, 16 entries to a block.\<close>

function traverse_sectors ::
  "Fat16Impl \<Rightarrow> ('t, 'x) externs_scheme \<Rightarrow> ('a \<Rightarrow> 't DirEntry \<Rightarrow> (FsError, 'a) outcome) \<Rightarrow>
   nat \<Rightarrow> nat \<Rightarrow> 'a \<Rightarrow> (FsError, 'a flow) outcome" where
  "traverse_sectors h X process_entry now_sector entry_num acc =
     (if entry_num = 0 then Ok (Next acc)
      else
        let entry_per_block = BLOCK_SIZE div DIR_ENTRY_LEN in
        and_then (unwrap (fs_inner h now_sector)) (\<lambda>block.
        and_then (traverse_block X process_entry block 0 (min entry_num entry_per_block) acc) (\<lambda>r.
          case r of
            Return a \<Rightarrow> Ok (Return a)
          | Next a \<Rightarrow> traverse_sectors h X process_entry (now_sector + 1)
                        (entry_num - min entry_num entry_per_block) a)))"
  by pat_completeness auto
termination
  by (relation "measure (\<lambda>(h, X, p, s, n, a). n)") (auto simp: BLOCK_SIZE_def DIR_ENTRY_LEN_def)

declare traverse_sectors.simps [simp del]

definition dir_entry_num :: "Fat16Impl \<Rightarrow> Cluster \<Rightarrow> nat" where
  "dir_entry_num h cluster =
     (if cluster = CLUSTER_ROOT_DIR then unat (root_entries_count (fs_bpb h))
      else BLOCK_SIZE div DIR_ENTRY_LEN * unat (sectors_per_cluster (fs_bpb h)))"

partial_function (option) traverse_loop ::
  "Fat16Impl \<Rightarrow> ('t, 'x) externs_scheme \<Rightarrow> ('a \<Rightarrow> 't DirEntry \<Rightarrow> (FsError, 'a) outcome) \<Rightarrow>
   Cluster \<Rightarrow> 'a \<Rightarrow> (FsError, 'a) outcome option" where
  "traverse_loop h X process_entry cluster acc =
     (case traverse_sectors h X process_entry (cluster_to_first_sector h cluster)
             (dir_entry_num h cluster) acc of
        Ok (Return a) \<Rightarrow> Some (Ok a)
      | Ok (Next a) \<Rightarrow>
          (case get_next_cluster h cluster of
             Ok c \<Rightarrow> if c = CLUSTER_END_OF_FILE then Some (Ok a)
                      else traverse_loop h X process_entry c a
           | Err e \<Rightarrow> Some (Err e)
           | Panic \<Rightarrow> Some Panic
           | Hang \<Rightarrow> Some Hang)
      | Err e \<Rightarrow> Some (Err e)
      | Panic \<Rightarrow> Some Panic
      | Hang \<Rightarrow> Some Hang)"

definition traverse_dir_entries ::
  "Fat16Impl \<Rightarrow> ('t, 'x) externs_scheme \<Rightarrow> 't Directory \<Rightarrow>
   ('a \<Rightarrow> 't DirEntry \<Rightarrow> (FsError, 'a) outcome) \<Rightarrow> 'a \<Rightarrow> (FsError, 'a) outcome" where
  "traverse_dir_entries h X dir process_entry acc =
     or_hang (traverse_loop h X process_entry (dir_cluster dir) acc)"

section \<open>Look-ups\<close>

definition get_dir_entry_by_name ::
  "Fat16Impl \<Rightarrow> ('t, 'x) externs_scheme \<Rightarrow> 't Directory \<Rightarrow> str \<Rightarrow> (FsError, 't DirEntry) outcome" where
  "get_dir_entry_by_name h X dir name =
     and_then (sfn_parse X name) (\<lambda>parse_name.
     and_then (traverse_dir_entries h X dir
       (\<lambda>result entry. Ok (if sfn_matches (de_filename entry) parse_name then Some entry else result))
       None) (\<lambda>result. ok_or result FileNotFound))"

text \<open>
  The iterator is lazy: its items are computed, and may panic, when they are taken. It is the list
  of the outcomes of its items.
\<close>

type_synonym 't dir_iter = "(FsError, 't Metadata) outcome list"

definition get_all_file_under_dir ::
  "Fat16Impl \<Rightarrow> ('t, 'x) externs_scheme \<Rightarrow> 't Directory \<Rightarrow> (FsError, 't dir_iter) outcome" where
  "get_all_file_under_dir h X dir =
     and_then (traverse_dir_entries h X dir
       (\<lambda>entries entry. Ok (if is_displayable entry then entries @ [entry] else entries)) [])
       (\<lambda>entries. Ok (map as_meta entries))"

definition parse_path :: "str \<Rightarrow> str list" where
  "parse_path path = filter (\<lambda>s. s \<noteq> []) (str_split 0x2F path)"

definition open_root_dir :: "'t Directory" where
  "open_root_dir = \<lparr>dir_cluster = CLUSTER_ROOT_DIR, dir_entry = None\<rparr>"

section \<open>FileSystem for Fat16\<close>

record 't File =
  f_offset :: nat
  f_current_cluster :: Cluster
  f_entry :: "'t DirEntry"
  f_handle :: Fat16Impl

definition file_new :: "Fat16Impl \<Rightarrow> 't DirEntry \<Rightarrow> 't File" where
  "file_new h e = \<lparr>f_offset = 0, f_current_cluster = de_cluster e, f_entry = e, f_handle = h\<rparr>"

definition file_length :: "'t File \<Rightarrow> nat" where
  "file_length f = unat (de_size (f_entry f))"

record ('t, 'f) FileHandle =
  fh_meta :: "'t Metadata"
  fh_file :: 'f

definition file_handle_new :: "'t Metadata \<Rightarrow> 'f \<Rightarrow> ('t, 'f) FileHandle" where
  "file_handle_new m f = \<lparr>fh_meta = m, fh_file = f\<rparr>"

fun read_dir_loop ::
  "Fat16Impl \<Rightarrow> ('t, 'x) externs_scheme \<Rightarrow> 't Directory \<Rightarrow> str list \<Rightarrow> (FsError, 't Directory) outcome" where
  "read_dir_loop h X dir [] = Ok dir"
| "read_dir_loop h X dir (part # parts) =
     and_then (get_dir_entry_by_name h X dir part) (\<lambda>entry.
       if is_directory entry then read_dir_loop h X (directory_from_entry entry) parts
       else Err NotADirectory)"

definition fat16_read_dir ::
  "('t, 'x) externs_scheme \<Rightarrow> Fat16Impl \<Rightarrow> str \<Rightarrow> (FsError, 't dir_iter) outcome" where
  "fat16_read_dir X h path =
     and_then (read_dir_loop h X open_root_dir (parse_path path)) (get_all_file_under_dir h X)"

fun open_file_loop ::
  "Fat16Impl \<Rightarrow> ('t, 'x) externs_scheme \<Rightarrow> 't Directory \<Rightarrow> str list \<Rightarrow>
   (FsError, ('t, 't File) FileHandle) outcome" where
  "open_file_loop h X dir [] = Err FileNotFound"
| "open_file_loop h X dir (part # parts) =
     and_then (get_dir_entry_by_name h X dir part) (\<lambda>entry.
       if parts = [] then
         if is_directory entry then Err NotAFile
         else and_then (as_meta entry) (\<lambda>m. Ok (file_handle_new m (file_new h entry)))
       else open_file_loop h X (directory_from_entry entry) parts)"

definition fat16_open_file ::
  "('t, 'x) externs_scheme \<Rightarrow> Fat16Impl \<Rightarrow> str \<Rightarrow> (FsError, ('t, 't File) FileHandle) outcome" where
  "fat16_open_file X h path = open_file_loop h X open_root_dir (parse_path path)"

fun metadata_loop ::
  "Fat16Impl \<Rightarrow> ('t, 'x) externs_scheme \<Rightarrow> 't Directory \<Rightarrow> str list \<Rightarrow> (FsError, 't Metadata) outcome" where
  "metadata_loop h X dir [] = Err FileNotFound"
| "metadata_loop h X dir (part # parts) =
     and_then (get_dir_entry_by_name h X dir part) (\<lambda>entry.
       if parts = [] then as_meta entry
       else metadata_loop h X (directory_from_entry entry) parts)"

definition fat16_metadata ::
  "('t, 'x) externs_scheme \<Rightarrow> Fat16Impl \<Rightarrow> str \<Rightarrow> (FsError, 't Metadata) outcome" where
  "fat16_metadata X h path = metadata_loop h X open_root_dir (parse_path path)"

fun exists_loop ::
  "Fat16Impl \<Rightarrow> ('t, 'x) externs_scheme \<Rightarrow> 't Directory \<Rightarrow> str list \<Rightarrow> (FsError, bool) outcome" where
  "exists_loop h X dir [] = Err FileNotFound"
| "exists_loop h X dir (part # parts) =
     and_then (get_dir_entry_by_name h X dir part) (\<lambda>entry.
       if parts = [] then Ok True
       else exists_loop h X (directory_from_entry entry) parts)"

definition fat16_exists :: "('t, 'x) externs_scheme \<Rightarrow> Fat16Impl \<Rightarrow> str \<Rightarrow> (FsError, bool) outcome" where
  "fat16_exists X h path = exists_loop h X open_root_dir (parse_path path)"

section \<open>The FAT\<close>

lemma ucast_u16_u32: "unat (ucast (w :: u16) :: u32) = unat w"
proof -
  have "unat w < 2 ^ 32" by (rule less_le_trans [OF unat_u16_less]) simp
  then show ?thesis by (simp add: unsigned_ucast_eq take_bit_nat_eq_self)
qed

lemma ucast_u16_marks:
  "(ucast (w :: u16) :: u32) \<noteq> CLUSTER_BAD" "\<not> (0xFFFFFFF8 :: u32) \<le> ucast (w :: u16)"
proof -
  have "unat (ucast w :: u32) < 65536" by (simp add: ucast_u16_u32)
  then have l: "unat (ucast w :: u32) < unat (0xFFFFFFF7 :: u32)"
    "unat (ucast w :: u32) < unat (0xFFFFFFF8 :: u32)" by (auto elim: less_trans)
  then show "(ucast w :: u32) \<noteq> CLUSTER_BAD" by (auto simp only: CLUSTER_BAD_def)
  from l(2) show "\<not> (0xFFFFFFF8 :: u32) \<le> ucast w" by (simp only: word_le_nat_alt not_le)
qed

text \<open>
  The entry of a data cluster: a successor in range is followed, a free entry is \<open>EMPTY\<close>, and all
  the rest (the end-of-chain marks \<open>0xFFF8\<close> to \<open>0xFFFF\<close> and the bad-cluster mark \<open>0xFFF7\<close> too) is
  \<open>INVALID\<close>, because the 16-bit entry is compared with 32-bit marks.
\<close>

lemma get_next_cluster_entry:
  assumes "c \<noteq> CLUSTER_ROOT_DIR" "fs_inner h (fat_start h) = Ok block" "length block = 512"
    and "unat c < 256"
  shows "get_next_cluster h c =
    (let v = le_nat (take 2 (drop (2 * unat c) block)) in
     Ok (if v = 0 then CLUSTER_EMPTY else if 2 \<le> v \<and> v < 0xFFF6 then word_of_nat v
         else CLUSTER_INVALID))"
proof -
  have tem: "unat (c * 2) = 2 * unat c"
    using assms(4) by (simp add: unat_word_ariths)
  let ?bs = "take 2 (drop (2 * unat c) block)"
  have len: "length ?bs = 2" using assms by simp
  let ?next = "ucast (u16_from_le_bytes ?bs) :: u32"
  have v: "unat ?next = le_nat ?bs"
    by (simp add: ucast_u16_u32 unat_u16_from_le_bytes [OF len])
  have "le_nat ?bs < 65536" using le_nat_bound [of ?bs] len by simp
  moreover have "word_of_nat (unat ?next) = ?next" by simp
  then have "?next = word_of_nat (le_nat ?bs)" using v by simp
  ultimately show ?thesis
    using assms v
    by (auto simp: get_next_cluster_def tem Let_def word_le_nat_alt word_less_nat_alt
        CLUSTER_EMPTY_def CLUSTER_BAD_def CLUSTER_END_OF_FILE_def word_unat_eq_iff)
qed

text \<open>The entries of clusters from 256 on are in later sectors of the FAT, which are never read.\<close>

lemma get_next_cluster_out_of_range:
  assumes "fs_inner h (fat_start h) = Ok block" "length block = 512"
    and "256 \<le> unat c" "unat c < 2 ^ 31"
  shows "get_next_cluster h c = Panic"
proof -
  have "unat (c * 2) = 2 * unat c" using assms(4) by (simp add: unat_word_ariths)
  moreover have "c \<noteq> CLUSTER_ROOT_DIR" using assms(4) by (auto simp: CLUSTER_ROOT_DIR_def)
  ultimately show ?thesis using assms by (simp add: get_next_cluster_def Let_def)
qed

lemma get_next_cluster_data:
  assumes "c \<noteq> CLUSTER_ROOT_DIR"
  shows "get_next_cluster h c \<noteq> Ok CLUSTER_END_OF_FILE \<and> get_next_cluster h c \<noteq> Err BadCluster"
  using assms
  by (cases "fs_inner h (fat_start h)")
    (auto simp: get_next_cluster_def Let_def subslice_def CLUSTER_EMPTY_def CLUSTER_INVALID_def
      CLUSTER_END_OF_FILE_def ucast_u16_marks)

section \<open>Directory listings\<close>

text \<open>
  The directory that starts in sector \<open>s\<close> holds the entries \<open>es\<close>: 16 to a sector, entry \<open>i\<close> at
  byte \<open>32 * (i mod 16)\<close> of sector \<open>s + i div 16\<close>.
\<close>

definition entries_at :: "Fat16Impl \<Rightarrow> ('t, 'x) externs_scheme \<Rightarrow> nat \<Rightarrow> 't DirEntry list \<Rightarrow> bool" where
  "entries_at h X s es \<longleftrightarrow> (\<forall>i < length es. \<exists>b. fs_inner h (s + i div 16) = Ok b \<and> length b = 512 \<and>
     de_parse X (take 32 (drop (32 * (i mod 16)) b)) = Ok (es ! i))"

lemma traverse_block_fold:
  assumes "length b = 512" "offset + 32 * length es \<le> 512"
    and "\<forall>i < length es. de_parse X (take 32 (drop (offset + 32 * i) b)) = Ok (es ! i)"
  shows "traverse_block X (\<lambda>a e. Ok (g e a)) b offset (length es) acc =
    Ok (if list_all is_valid es then Next (fold g es acc)
        else Return (fold g (takeWhile is_valid es) acc))"
  using assms(2,3)
proof (induction es arbitrary: offset acc)
  case Nil
  then show ?case by simp
next
  case (Cons e es)
  have "de_parse X (take 32 (drop offset b)) = Ok e" using Cons.prems(2) by force
  moreover have "\<forall>i < length es. de_parse X (take 32 (drop (offset + 32 + 32 * i) b)) = Ok (es ! i)"
  proof (intro allI impI)
    fix i assume "i < length es"
    with Cons.prems(2) have
      "de_parse X (take 32 (drop (offset + 32 * Suc i) b)) = Ok ((e # es) ! Suc i)" by force
    then show "de_parse X (take 32 (drop (offset + 32 + 32 * i) b)) = Ok (es ! i)"
      by (simp add: algebra_simps)
  qed
  ultimately show ?case
    using Cons.IH [of "offset + 32"] Cons.prems(1) assms(1) by (simp add: DIR_ENTRY_LEN_def)
qed

lemma entries_at_split:
  assumes "entries_at h X s es" "es \<noteq> []"
  obtains b where "fs_inner h s = Ok b" "length b = 512"
    "\<forall>i < min (length es) 16. de_parse X (take 32 (drop (32 * i) b)) = Ok (es ! i)"
    "entries_at h X (s + 1) (drop 16 es)"
proof -
  from assms obtain b where b: "fs_inner h s = Ok b" "length b = 512"
    unfolding entries_at_def by force
  moreover have "\<forall>i < min (length es) 16. de_parse X (take 32 (drop (32 * i) b)) = Ok (es ! i)"
  proof (intro allI impI)
    fix i assume i: "i < min (length es) 16"
    then have "i div 16 = 0" "i mod 16 = i" by auto
    moreover from i have "i < length es" by simp
    ultimately show "de_parse X (take 32 (drop (32 * i) b)) = Ok (es ! i)"
      using assms(1) b unfolding entries_at_def by force
  qed
  moreover have "entries_at h X (s + 1) (drop 16 es)"
    unfolding entries_at_def
  proof (intro allI impI)
    fix i assume "i < length (drop 16 es)"
    then have "i + 16 < length es" by simp
    moreover have "(i + 16) div 16 = Suc (i div 16)" "(i + 16) mod 16 = i mod 16" by simp_all
    moreover have "drop 16 es ! i = es ! (i + 16)" using \<open>i + 16 < length es\<close> by (simp add: add.commute)
    ultimately show "\<exists>b. fs_inner h (s + 1 + i div 16) = Ok b \<and> length b = 512 \<and>
        de_parse X (take 32 (drop (32 * (i mod 16)) b)) = Ok (drop 16 es ! i)"
      using assms(1) unfolding entries_at_def by (metis add.assoc plus_1_eq_Suc)
  qed
  ultimately show ?thesis by (rule that)
qed

lemma takeWhile_split:
  "takeWhile P es = (if list_all P (take n es) then take n es @ takeWhile P (drop n es)
                     else takeWhile P (take n es))"
  using takeWhile_append1 [of _ "take n es" P "drop n es"] takeWhile_append2 [of "take n es" P "drop n es"]
  by (auto simp: list_all_iff)

lemma list_all_split: "list_all P es \<longleftrightarrow> list_all P (take n es) \<and> list_all P (drop n es)"
  by (metis append_take_drop_id list_all_append)

lemma traverse_sectors_fold:
  assumes "entries_at h X s es"
  shows "traverse_sectors h X (\<lambda>a e. Ok (g e a)) s (length es) acc =
    Ok (if list_all is_valid es then Next (fold g es acc)
        else Return (fold g (takeWhile is_valid es) acc))"
  using assms
proof (induction "length es" arbitrary: es s acc rule: less_induct)
  case less
  show ?case
  proof (cases "es = []")
    case True
    then show ?thesis by (simp add: traverse_sectors.simps)
  next
    case False
    then obtain b where b: "fs_inner h s = Ok b" "length b = 512"
      "\<forall>i < min (length es) 16. de_parse X (take 32 (drop (32 * i) b)) = Ok (es ! i)"
      and rest: "entries_at h X (s + 1) (drop 16 es)"
      using entries_at_split less.prems by metis
    have len: "length (take 16 es) = min (length es) 16" by simp
    have blk: "traverse_block X (\<lambda>a e. Ok (g e a)) b 0 (min (length es) 16) acc =
      Ok (if list_all is_valid (take 16 es) then Next (fold g (take 16 es) acc)
          else Return (fold g (takeWhile is_valid (take 16 es)) acc))"
      using traverse_block_fold [of b 0 "take 16 es" X g acc] b by (simp add: len)
    have "length (drop 16 es) < length es" using False by simp
    note IH = less.hyps [OF this rest, of "fold g (take 16 es) acc"]
    have n: "length es - min (length es) 16 = length (drop 16 es)" by simp
    have f: "fold g es acc = fold g (drop 16 es) (fold g (take 16 es) acc)"
      by (metis append_take_drop_id comp_apply fold_append)
    show ?thesis
      using False b(1) blk IH n
      by (subst traverse_sectors.simps)
        (simp add: BLOCK_SIZE_def DIR_ENTRY_LEN_def f list_all_split [of _ es 16]
          takeWhile_split [of _ es 16])
  qed
qed

text \<open>
  The root directory: the traversal always ends, and visits the entries before the first one that
  is not valid.
\<close>

lemma traverse_root:
  assumes "entries_at h X (first_root_dir_sector h) es"
    and "length es = unat (root_entries_count (fs_bpb h))" "dir_cluster dir = CLUSTER_ROOT_DIR"
  shows "traverse_dir_entries h X dir (\<lambda>a e. Ok (g e a)) acc =
    Ok (fold g (takeWhile is_valid es) acc)"
proof -
  have "fold g (takeWhile is_valid es) acc = fold g es acc" if "list_all is_valid es"
    using that by (metis list_all_iff takeWhile_eq_all_conv)
  then show ?thesis
    using traverse_sectors_fold [OF assms(1), of g acc] assms(2,3)
    by (simp add: traverse_dir_entries_def traverse_loop.simps cluster_to_first_sector_def
        dir_entry_num_def get_next_cluster_def)
qed

text \<open>
  The listing of any directory is what a traversal that collects the entries returns. A traversal
  with another closure folds it over the listing, and so the two look-ups are functions of it.
\<close>

definition dir_listing ::
  "Fat16Impl \<Rightarrow> ('t, 'x) externs_scheme \<Rightarrow> 't Directory \<Rightarrow> (FsError, 't DirEntry list) outcome" where
  "dir_listing h X dir = traverse_dir_entries h X dir (\<lambda>es e. Ok (es @ [e])) []"

lemma traverse_block_listing:
  "traverse_block X (\<lambda>es e. Ok (es @ [e])) b offset k xs = Ok r \<Longrightarrow>
   \<exists>zs. r = map_flow (\<lambda>_. xs @ zs) r \<and>
        traverse_block X (\<lambda>a e. Ok (g e a)) b offset k acc = Ok (map_flow (\<lambda>_. fold g zs acc) r)"
proof (induction k arbitrary: offset xs acc)
  case 0
  then show ?case by (intro exI [of _ "[]"]) auto
next
  case (Suc k)
  then obtain dat e where d: "subslice b offset (offset + DIR_ENTRY_LEN) = (Ok dat :: (FsError, _) outcome)"
    "de_parse X dat = Ok e" by (auto split: if_splits)
  show ?case
  proof (cases "is_valid e")
    case True
    with Suc.prems d have
      "traverse_block X (\<lambda>es e. Ok (es @ [e])) b (offset + DIR_ENTRY_LEN) k (xs @ [e]) = Ok r"
      by simp
    from Suc.IH [OF this, of "g e acc"] obtain zs where "r = map_flow (\<lambda>_. (xs @ [e]) @ zs) r"
      "traverse_block X (\<lambda>a e. Ok (g e a)) b (offset + DIR_ENTRY_LEN) k (g e acc) =
        Ok (map_flow (\<lambda>_. fold g zs (g e acc)) r)" by blast
    with True d show ?thesis by (intro exI [of _ "e # zs"]) simp
  next
    case False
    with Suc.prems d show ?thesis
      by (intro exI [of _ "[]"]) (auto simp del: and_then_Ok_iff)
  qed
qed

lemma traverse_sectors_listing:
  "traverse_sectors h X (\<lambda>es e. Ok (es @ [e])) s n xs = Ok r \<Longrightarrow>
   \<exists>zs. r = map_flow (\<lambda>_. xs @ zs) r \<and>
        traverse_sectors h X (\<lambda>a e. Ok (g e a)) s n acc = Ok (map_flow (\<lambda>_. fold g zs acc) r)"
proof (induction n arbitrary: s xs acc rule: less_induct)
  case (less n)
  show ?case
  proof (cases "n = 0")
    case True
    with less.prems show ?thesis
      by (intro exI [of _ "[]"]) (auto simp: traverse_sectors.simps)
  next
    case False
    let ?m = "min n 16"
    from less.prems False obtain b r1 where b: "fs_inner h s = Ok b"
      "traverse_block X (\<lambda>es e. Ok (es @ [e])) b 0 ?m xs = Ok r1"
      "(case r1 of Return a \<Rightarrow> Ok (Return a)
        | Next a \<Rightarrow> traverse_sectors h X (\<lambda>es e. Ok (es @ [e])) (Suc s) (n - ?m) a) = Ok r"
      using traverse_sectors.simps [of h X "\<lambda>es e. Ok (es @ [e])" s n xs]
      by (auto simp: BLOCK_SIZE_def DIR_ENTRY_LEN_def)
    from traverse_block_listing [OF b(2), of g acc] obtain zs where zs:
      "r1 = map_flow (\<lambda>_. xs @ zs) r1"
      "traverse_block X (\<lambda>a e. Ok (g e a)) b 0 ?m acc = Ok (map_flow (\<lambda>_. fold g zs acc) r1)"
      by blast
    have unf: "traverse_sectors h X (\<lambda>a e. Ok (g e a)) s n acc =
      (case map_flow (\<lambda>_. fold g zs acc) r1 of Return a \<Rightarrow> Ok (Return a)
        | Next a \<Rightarrow> traverse_sectors h X (\<lambda>a e. Ok (g e a)) (Suc s) (n - ?m) a)"
      using False b(1) zs(2)
      by (subst traverse_sectors.simps) (simp add: BLOCK_SIZE_def DIR_ENTRY_LEN_def)
    show ?thesis
    proof (cases r1)
      case (Next a)
      with zs(1) have "a = xs @ zs" by simp
      with Next b(3) have
        "traverse_sectors h X (\<lambda>es e. Ok (es @ [e])) (Suc s) (n - ?m) (xs @ zs) = Ok r" by simp
      from less.IH [OF _ this, of "fold g zs acc"] False obtain ws where
        "r = map_flow (\<lambda>_. (xs @ zs) @ ws) r"
        "traverse_sectors h X (\<lambda>a e. Ok (g e a)) (Suc s) (n - ?m) (fold g zs acc) =
          Ok (map_flow (\<lambda>_. fold g ws (fold g zs acc)) r)" by auto
      with Next unf show ?thesis by (intro exI [of _ "zs @ ws"]) simp
    next
      case (Return a)
      with zs(1) b(3) unf show ?thesis by (auto intro!: exI [of _ zs])
    qed
  qed
qed

lemma traverse_loop_listing:
  assumes "traverse_loop h X (\<lambda>es e. Ok (es @ [e])) c xs = Some (Ok ys)"
  shows "\<exists>zs. ys = xs @ zs \<and> traverse_loop h X (\<lambda>a e. Ok (g e a)) c acc = Some (Ok (fold g zs acc))"
proof -
  let ?F = "\<lambda>es e. Ok (es @ [e])"
  have "h' = h \<longrightarrow> X' = X \<longrightarrow> F' = ?F \<longrightarrow> (\<forall>ys acc. r = Ok ys \<longrightarrow>
      (\<exists>zs. ys = xs @ zs \<and> traverse_loop h X (\<lambda>a e. Ok (g e a)) c acc = Some (Ok (fold g zs acc))))"
    if "traverse_loop h' X' F' c xs = Some r" for h' X' F' c xs r
    using that
  proof (rule traverse_loop.raw_induct [rotated])
    fix loop h' X' F' c xs r
    assume IH: "\<And>h' X' F' c xs r. loop h' X' F' c xs = Some r \<Longrightarrow>
        h' = h \<longrightarrow> X' = X \<longrightarrow> F' = ?F \<longrightarrow> (\<forall>ys acc. r = Ok ys \<longrightarrow>
        (\<exists>zs. ys = xs @ zs \<and> traverse_loop h X (\<lambda>a e. Ok (g e a)) c acc = Some (Ok (fold g zs acc))))"
      and eq: "(case traverse_sectors h' X' F' (cluster_to_first_sector h' c) (dir_entry_num h' c) xs of
          Ok (Next a) \<Rightarrow> (case get_next_cluster h' c of
             Ok c \<Rightarrow> if c = CLUSTER_END_OF_FILE then Some (Ok a) else loop h' X' F' c a
           | Err e \<Rightarrow> Some (Err e) | Panic \<Rightarrow> Some Panic | Hang \<Rightarrow> Some Hang)
        | Ok (Return a) \<Rightarrow> Some (Ok a) | Err e \<Rightarrow> Some (Err e) | Panic \<Rightarrow> Some Panic
        | Hang \<Rightarrow> Some Hang) = Some r"
    show "h' = h \<longrightarrow> X' = X \<longrightarrow> F' = ?F \<longrightarrow> (\<forall>ys acc. r = Ok ys \<longrightarrow>
        (\<exists>zs. ys = xs @ zs \<and> traverse_loop h X (\<lambda>a e. Ok (g e a)) c acc = Some (Ok (fold g zs acc))))"
    proof (intro impI allI)
      fix ys acc assume h: "h' = h" "X' = X" "F' = ?F" and r: "r = Ok ys"
      from eq h r obtain f where f:
        "traverse_sectors h X ?F (cluster_to_first_sector h c) (dir_entry_num h c) xs = Ok f"
        by (auto split: outcome.splits)
      from traverse_sectors_listing [OF this, of g acc] obtain zs where zs:
        "f = map_flow (\<lambda>_. xs @ zs) f"
        "traverse_sectors h X (\<lambda>a e. Ok (g e a)) (cluster_to_first_sector h c) (dir_entry_num h c) acc
          = Ok (map_flow (\<lambda>_. fold g zs acc) f)" by blast
      show "\<exists>zs. ys = xs @ zs \<and>
          traverse_loop h X (\<lambda>a e. Ok (g e a)) c acc = Some (Ok (fold g zs acc))"
      proof (cases f)
        case (Return a)
        with eq h r f zs show ?thesis by (auto simp: traverse_loop.simps [of _ _ _ c])
      next
        case (Next a)
        then have a: "a = xs @ zs" using zs(1) by simp
        show ?thesis
        proof (cases "get_next_cluster h c = Ok CLUSTER_END_OF_FILE")
          case True
          with eq h r f zs Next a show ?thesis by (auto simp: traverse_loop.simps [of _ _ _ c])
        next
          case False
          with eq h r f Next a obtain c' where c': "get_next_cluster h c = Ok c'"
            "c' \<noteq> CLUSTER_END_OF_FILE" "loop h X ?F c' (xs @ zs) = Some (Ok ys)"
            by (auto split: outcome.splits if_splits)
          from IH [OF this(3)] obtain ws where "ys = (xs @ zs) @ ws"
            "traverse_loop h X (\<lambda>a e. Ok (g e a)) c' (fold g zs acc) =
               Some (Ok (fold g ws (fold g zs acc)))" by blast
          with c' zs Next show ?thesis
            by (intro exI [of _ "zs @ ws"]) (simp add: traverse_loop.simps [of _ _ _ c])
        qed
      qed
    qed
  qed
  with assms show ?thesis by blast
qed

lemma traverse_dir_listing:
  assumes "dir_listing h X dir = Ok es"
  shows "traverse_dir_entries h X dir (\<lambda>a e. Ok (g e a)) acc = Ok (fold g es acc)"
proof -
  from assms have "traverse_loop h X (\<lambda>es e. Ok (es @ [e])) (dir_cluster dir) [] = Some (Ok es)"
    by (auto simp: dir_listing_def traverse_dir_entries_def or_hang_def split: option.splits)
  from traverse_loop_listing [OF this, of g acc] show ?thesis
    by (auto simp: traverse_dir_entries_def)
qed

lemma get_dir_entry_by_name_listing:
  assumes "dir_listing h X dir = Ok es"
  shows "get_dir_entry_by_name h X dir name =
    and_then (sfn_parse X name) (\<lambda>f.
      let ms = filter (\<lambda>e. sfn_matches (de_filename e) f) es in
      if ms = [] then Err FileNotFound else Ok (last ms))"
proof -
  have fold: "fold (\<lambda>e r. if P e then Some e else r) es r0 =
      (if filter P es = [] then r0 else Some (last (filter P es)))" for P :: "'a DirEntry \<Rightarrow> bool" and r0
    by (induction es arbitrary: r0) auto
  show ?thesis
  proof (cases "sfn_parse X name")
    case (Ok f)
    with traverse_dir_listing [OF assms,
        where g = "\<lambda>e r. if sfn_matches (de_filename e) f then Some e else r" and acc = None]
    show ?thesis by (simp add: get_dir_entry_by_name_def fold Let_def)
  qed (simp_all add: get_dir_entry_by_name_def)
qed

lemma get_all_file_under_dir_listing:
  assumes "dir_listing h X dir = Ok es"
  shows "get_all_file_under_dir h X dir = Ok (map as_meta (filter is_displayable es))"
proof -
  have fold: "fold (\<lambda>e r. if P e then r @ [e] else r) es r0 = r0 @ filter P es"
    for P :: "'a DirEntry \<Rightarrow> bool" and r0
    by (induction es arbitrary: r0) auto
  show ?thesis
    using traverse_dir_listing [OF assms, where g = "\<lambda>e r. if is_displayable e then r @ [e] else r"]
    by (simp add: get_all_file_under_dir_def fold)
qed

lemma root_listing:
  assumes "entries_at h X (first_root_dir_sector h) es"
    and "length es = unat (root_entries_count (fs_bpb h))" "dir_cluster dir = CLUSTER_ROOT_DIR"
  shows "dir_listing h X dir = Ok (takeWhile is_valid es)"
proof -
  have "fold (\<lambda>e r. r @ [e]) xs r0 = r0 @ xs" for xs r0 :: "'a DirEntry list"
    by (induction xs arbitrary: r0) auto
  with traverse_root [OF assms, of "\<lambda>e r. r @ [e]" "[]"] show ?thesis
    by (simp add: dir_listing_def)
qed

text \<open>On a device whose root directory can be read there always is such a list of entries.\<close>

lemma entries_at_exists:
  assumes "block_device (fs_inner h)" and "\<forall>i < n. is_ok (fs_inner h (s + i div 16))"
  shows "\<exists>es. length es = n \<and> entries_at h X s es"
proof -
  have "\<exists>e b. fs_inner h (s + i div 16) = Ok b \<and> length b = 512 \<and>
      de_parse X (take 32 (drop (32 * (i mod 16)) b)) = Ok e" if i: "i < n" for i
  proof -
    from assms(2) i obtain b where b: "fs_inner h (s + i div 16) = Ok b" by (auto simp: is_ok_iff)
    then have l: "length b = 512" using assms(1) by (simp add: block_device_def BLOCK_SIZE_def)
    have "i mod 16 \<le> 15" by (metis Suc_eq_plus1 less_Suc_eq_le mod_less_divisor numeral_plus_one semiring_norm(5,2,8) zero_less_numeral)
    then have "32 * (i mod 16) + 32 \<le> 512" by linarith
    then have "32 \<le> length (take 32 (drop (32 * (i mod 16)) b))" using l by simp
    from de_parse_Ok [OF this, of X] b l show ?thesis by blast
  qed
  then obtain e where e: "\<forall>i < n. \<exists>b. fs_inner h (s + i div 16) = Ok b \<and> length b = 512 \<and>
      de_parse X (take 32 (drop (32 * (i mod 16)) b)) = Ok (e i)" by metis
  then show ?thesis
    by (intro exI [of _ "map e [0..<n]"]) (simp add: entries_at_def)
qed

section \<open>Paths\<close>

lemma parse_path_slash [simp]: "parse_path (0x2F # p) = parse_path p"
  by (simp add: parse_path_def)

lemma parse_path_nil [simp]: "parse_path [] = []"
  by (simp add: parse_path_def)

lemma str_split_append: "c \<notin> set p \<Longrightarrow> str_split c (p @ c # s) = p # str_split c s"
  by (induction p) auto

lemma parse_path_Cons: "0x2F \<notin> set p \<Longrightarrow> p \<noteq> [] \<Longrightarrow> parse_path (p @ 0x2F # s) = p # parse_path s"
  by (simp add: parse_path_def str_split_append)

lemma parse_path_single: "0x2F \<notin> set p \<Longrightarrow> p \<noteq> [] \<Longrightarrow> parse_path p = [p]"
  by (simp add: parse_path_def str_split_no_sep)

text \<open>A path is the list of its components.\<close>

lemma parse_path_components:
  "(\<forall>p \<in> set ps. p \<noteq> [] \<and> 0x2F \<notin> set p) \<Longrightarrow>
   parse_path (concat (map (\<lambda>p. 0x2F # p) ps)) = ps"
proof (induction ps)
  case Nil
  then show ?case by simp
next
  case (Cons p ps)
  then show ?case
    by (cases ps) (simp_all add: parse_path_single parse_path_Cons)
qed

lemma parse_path_parts: "p \<in> set (parse_path s) \<Longrightarrow> p \<noteq> [] \<and> 0x2F \<notin> set p"
  by (auto simp: parse_path_def str_split_pieces)

text \<open>The entry a path resolves to; components before the last are not checked to be directories.\<close>

inductive resolves ::
  "Fat16Impl \<Rightarrow> ('t, 'x) externs_scheme \<Rightarrow> 't Directory \<Rightarrow> str list \<Rightarrow> 't DirEntry \<Rightarrow> bool"
  for h X where
  last_part: "get_dir_entry_by_name h X dir p = Ok e \<Longrightarrow> resolves h X dir [p] e"
| descend: "get_dir_entry_by_name h X dir p = Ok d \<Longrightarrow> resolves h X (directory_from_entry d) ps e \<Longrightarrow>
    resolves h X dir (p # ps) e"

inductive_cases resolves_NilE: "resolves h X dir [] e"
inductive_cases resolves_ConsE: "resolves h X dir (p # ps) e"

lemma resolves_Cons_iff:
  "resolves h X dir (p # ps) e \<longleftrightarrow>
   (\<exists>d. get_dir_entry_by_name h X dir p = Ok d \<and>
        (if ps = [] then d = e else resolves h X (directory_from_entry d) ps e))"
  by (auto intro: resolves.intros elim: resolves_ConsE resolves_NilE)

lemma open_file_loop_Ok_iff:
  "open_file_loop h X dir ps = Ok fh \<longleftrightarrow>
   (\<exists>e m. resolves h X dir ps e \<and> \<not> is_directory e \<and> as_meta e = Ok m \<and>
          fh = file_handle_new m (file_new h e))"
proof (induction ps arbitrary: dir)
  case Nil
  then show ?case by (auto elim: resolves_NilE)
next
  case (Cons p ps)
  then show ?case
    by (cases "get_dir_entry_by_name h X dir p") (auto simp: resolves_Cons_iff)
qed

lemma metadata_loop_Ok_iff:
  "metadata_loop h X dir ps = Ok m \<longleftrightarrow> (\<exists>e. resolves h X dir ps e \<and> as_meta e = Ok m)"
proof (induction ps arbitrary: dir)
  case Nil
  then show ?case by (auto elim: resolves_NilE)
next
  case (Cons p ps)
  then show ?case
    by (cases "get_dir_entry_by_name h X dir p") (auto simp: resolves_Cons_iff)
qed

lemma exists_loop_Ok_iff:
  "exists_loop h X dir ps = Ok b \<longleftrightarrow> b \<and> (\<exists>e. resolves h X dir ps e)"
proof (induction ps arbitrary: dir)
  case Nil
  then show ?case by (auto elim: resolves_NilE)
next
  case (Cons p ps)
  then show ?case
    by (cases "get_dir_entry_by_name h X dir p") (auto simp: resolves_Cons_iff)
qed

lemma as_meta_not_Err: "as_meta e \<noteq> Err err"
  by (auto simp: as_meta_def de_filename_str_def sfn_display_def basename_def extension_def
      unwrap_option_def split: option.splits)

lemma metadata_exists_Err:
  "metadata_loop h X dir ps = Err err \<longleftrightarrow> exists_loop h X dir ps = Err err"
proof (induction ps arbitrary: dir)
  case Nil
  then show ?case by simp
next
  case (Cons p ps)
  then show ?case
    by (cases "get_dir_entry_by_name h X dir p") (auto simp: as_meta_not_Err)
qed

end
