(* ===== verification/Fat16_File.thy ===== *)
theory Fat16_File
  imports Fat16_Fs
begin

text \<open>
  \<open>pkg/storage/src/fs/fat16/file.rs\<close>: reading a file. \<open>file_read\<close> is the trait method \<open>read\<close>: it
  gives the result, the buffer and the file after the call. The theory shows that a read always
  returns, what it returns, and that \<open>File\<close> is a \<open>byte_reader\<close>.
\<close>

section \<open>Read for File\<close>

text \<open>
  One round of the loop reads a sector and copies the part of it that is wanted. \<open>self.offset\<close>
  never exceeds the size of the file, so that \<open>size - offset\<close> does not underflow.
\<close>

partial_function (option) file_read_loop ::
  "nat \<Rightarrow> nat \<Rightarrow> 't File \<Rightarrow> u8 list \<Rightarrow> nat \<Rightarrow> nat \<Rightarrow> nat \<Rightarrow>
   ((FsError, nat) outcome \<times> u8 list \<times> 't File) option" where
  "file_read_loop bps spc f buf read_bytes sector_offset byte_offset =
     (case fs_inner (f_handle f)
             (cluster_to_first_sector (f_handle f) (f_current_cluster f) + sector_offset) of
        Ok block \<Rightarrow>
          let bytes_to_read = min (min (length buf - read_bytes) (bps - byte_offset))
                                  (unat (de_size (f_entry f)) - f_offset f) in
          (case and_then (subslice block byte_offset (byte_offset + bytes_to_read))
                  (copy_from_slice buf read_bytes) of
             Ok buf' \<Rightarrow>
               let read' = read_bytes + bytes_to_read;
                   f' = f\<lparr>f_offset := f_offset f + bytes_to_read\<rparr> in
               if read' = length buf' \<or> f_offset f' = unat (de_size (f_entry f'))
               then Some (Ok read', buf', f')
               else if sector_offset + 1 = spc then
                 (case get_next_cluster (f_handle f') (f_current_cluster f') of
                    Ok c \<Rightarrow> file_read_loop bps spc (f'\<lparr>f_current_cluster := c\<rparr>) buf' read' 0 0
                  | Err e \<Rightarrow> Some (Err e, buf', f')
                  | Panic \<Rightarrow> Some (Panic, buf', f')
                  | Hang \<Rightarrow> Some (Hang, buf', f'))
               else file_read_loop bps spc f' buf' read' (sector_offset + 1) 0
           | Err e \<Rightarrow> Some (Err e, buf, f)
           | Panic \<Rightarrow> Some (Panic, buf, f)
           | Hang \<Rightarrow> Some (Hang, buf, f))
      | Err e \<Rightarrow> Some (Err e, buf, f)
      | Panic \<Rightarrow> Some (Panic, buf, f)
      | Hang \<Rightarrow> Some (Hang, buf, f))"

text \<open>\<open>self.offset / bps\<close> panics when the sector size of the volume is 0.\<close>

definition file_read :: "'t File reader" where
  "file_read f buf =
     (let bps = unat (bytes_per_sector (fs_bpb (f_handle f)));
          spc = unat (sectors_per_cluster (fs_bpb (f_handle f))) in
      if bps = 0 then (Panic, buf, f)
      else case file_read_loop bps spc f buf 0 (f_offset f div bps) (f_offset f mod bps) of
             Some r \<Rightarrow> r
           | None \<Rightarrow> (Hang, buf, f))"

text \<open>\<open>Seek\<close> and \<open>Write\<close> are \<open>unimplemented!()\<close>.\<close>

datatype SeekFrom = SeekStart nat | SeekEnd isize | SeekCurrent isize

definition file_seek :: "'t File \<Rightarrow> SeekFrom \<Rightarrow> (FsError, nat) outcome" where
  "file_seek f pos = Panic"

definition file_write :: "'t File \<Rightarrow> u8 list \<Rightarrow> (FsError, nat) outcome" where
  "file_write f buf = Panic"

definition file_flush :: "'t File \<Rightarrow> (FsError, unit) outcome" where
  "file_flush f = Panic"

section \<open>A read always returns\<close>

definition file_wf :: "'t File \<Rightarrow> bool" where
  "file_wf f \<longleftrightarrow> f_offset f \<le> file_length f"

lemma file_new_wf: "file_wf (file_new h e)"
  by (simp add: file_wf_def file_new_def)

text \<open>
  What holds of every result: the buffer keeps its length, the count is at most its length, the
  offset moves by the count and stays in the file, and the call is not a divergence.
\<close>

definition read_result_ok ::
  "'t File \<Rightarrow> u8 list \<Rightarrow> nat \<Rightarrow> (FsError, nat) outcome \<times> u8 list \<times> 't File \<Rightarrow> bool" where
  "read_result_ok f buf read_bytes r \<longleftrightarrow>
     (case r of (res, buf', f') \<Rightarrow>
        length buf' = length buf \<and> file_wf f' \<and> f_entry f' = f_entry f \<and> f_handle f' = f_handle f \<and>
        (\<forall>n. res = Ok n \<longrightarrow> n \<le> length buf \<and> f_offset f' + read_bytes = f_offset f + n))"

lemma file_read_loop_result:
  assumes "0 < bps" "read_bytes \<le> length buf" "byte_offset < bps" "file_wf f"
  shows "\<exists>r. file_read_loop bps spc f buf read_bytes sector_offset byte_offset = Some r \<and>
    read_result_ok f buf read_bytes r"
  using assms(2-4)
proof (induction "length buf - read_bytes" arbitrary: f buf read_bytes sector_offset byte_offset
    rule: less_induct)
  case less
  define n where "n = min (min (length buf - read_bytes) (bps - byte_offset))
              (unat (de_size (f_entry f)) - f_offset f)"
  let ?f = "f\<lparr>f_offset := f_offset f + n\<rparr>"
  have wf: "file_wf ?f" and n: "read_bytes + n \<le> length buf"
    using less.prems by (auto simp: n_def file_wf_def file_length_def)
  have IH: "\<exists>r. file_read_loop bps spc g buf' (read_bytes + n) s 0 = Some r \<and>
      read_result_ok f buf read_bytes r"
    if eqs: "length buf' = length buf" "read_bytes + n \<noteq> length buf'"
      "f_offset ?f \<noteq> unat (de_size (f_entry f))"
      "f_offset g = f_offset ?f" "f_entry g = f_entry f" "f_handle g = f_handle f" for g buf' s
  proof -
    have "f_offset f \<le> unat (de_size (f_entry f))"
      using less.prems(3) by (simp add: file_wf_def file_length_def)
    then have "0 < n"
      using eqs(1-3) less.prems(1,2) unfolding n_def by (simp add: min_def split: if_splits)
    then have "length buf' - (read_bytes + n) < length buf - read_bytes"
      using eqs n by linarith
    moreover have "file_wf g" using wf eqs(4,5) by (simp add: file_wf_def file_length_def)
    ultimately obtain r where r: "file_read_loop bps spc g buf' (read_bytes + n) s 0 = Some r"
      "read_result_ok g buf' (read_bytes + n) r"
      using less.hyps [of buf' "read_bytes + n" 0 g s] eqs(1) n assms(1) by metis
    obtain res b2 f2 where "r = (res, b2, f2)" by (cases r)
    with r(2) eqs(1,4-6) have "read_result_ok f buf read_bytes r"
      by (simp add: read_result_ok_def)
    with r(1) show ?thesis by blast
  qed
  have buf: "length buf' = length buf" if "and_then (subslice blk byte_offset (byte_offset + n))
      (copy_from_slice buf read_bytes) = (Ok buf' :: (FsError, _) outcome)" for blk buf'
    using that by (auto dest: copy_from_slice_length)
  note unfold = file_read_loop.simps [of bps spc f buf read_bytes sector_offset byte_offset,
    folded n_def, unfolded Let_def, folded n_def]
  show ?case
  proof (cases "fs_inner (f_handle f)
      (cluster_to_first_sector (f_handle f) (f_current_cluster f) + sector_offset)")
    case (Ok blk)
    show ?thesis
    proof (cases "and_then (subslice blk byte_offset (byte_offset + n))
        (copy_from_slice buf read_bytes) :: (FsError, _) outcome")
      case (Ok buf')
      note here = \<open>fs_inner _ _ = Ok blk\<close> Ok
      show ?thesis
      proof (cases "read_bytes + n = length buf' \<or> f_offset ?f = unat (de_size (f_entry f))")
        case True
        with here buf [OF Ok] wf n show ?thesis by (simp add: unfold read_result_ok_def del: and_then_Ok_iff)
      next
        case False
        show ?thesis
        proof (cases "sector_offset + 1 = spc")
          case True
          with here False buf [OF Ok] wf IH show ?thesis
            by (cases "get_next_cluster (f_handle f) (f_current_cluster f)")
              (simp_all add: unfold read_result_ok_def del: and_then_Ok_iff)
        next
          case next_sector: False
          with here False buf [OF Ok] IH show ?thesis by (simp add: unfold del: and_then_Ok_iff)
        qed
      qed
    qed (use Ok less.prems in \<open>simp_all add: unfold read_result_ok_def del: and_then_Ok_iff\<close>)
  qed (use less.prems in \<open>simp_all add: unfold read_result_ok_def del: and_then_Ok_iff\<close>)
qed

lemma file_read_result:
  assumes "file_wf f"
  shows "read_result_ok f buf 0 (file_read f buf)"
proof (cases "unat (bytes_per_sector (fs_bpb (f_handle f))) = 0")
  case True
  with assms show ?thesis by (simp add: file_read_def read_result_ok_def)
next
  case False
  let ?bps = "unat (bytes_per_sector (fs_bpb (f_handle f)))"
  obtain r where "file_read_loop ?bps (unat (sectors_per_cluster (fs_bpb (f_handle f)))) f buf 0
      (f_offset f div ?bps) (f_offset f mod ?bps) = Some r" "read_result_ok f buf 0 r"
    using file_read_loop_result [OF _ _ mod_less_divisor assms, of ?bps 0 buf] False by fastforce
  with False show ?thesis by (simp add: file_read_def)
qed

interpretation file_reader: byte_reader "file_read :: 't File reader" file_wf
proof
  fix st st' :: "'t File" and buf buf' :: "u8 list" and res n
  assume wf: "file_wf st"
  show "length buf' = length buf" if "file_read st buf = (res, buf', st')"
    using file_read_result [OF wf, of buf] that by (simp add: read_result_ok_def)
  show "n \<le> length buf" if "file_read st buf = (Ok n, buf', st')"
    using file_read_result [OF wf, of buf] that by (simp add: read_result_ok_def)
  show "file_wf st'" if "file_read st buf = (res, buf', st')"
    using file_read_result [OF wf, of buf] that by (simp add: read_result_ok_def)
qed

section \<open>What a read returns\<close>

text \<open>
  A cursor is a cluster and a sector of it. \<open>cursor_step\<close> is how the loop moves it from one sector
  to the next, and \<open>sector_holds\<close> says that the sector under the cursor is sector \<open>k\<close> of the
  contents.
\<close>

definition cursor_step :: "Fat16Impl \<Rightarrow> nat \<Rightarrow> Cluster \<times> nat \<Rightarrow> Cluster \<times> nat \<Rightarrow> bool" where
  "cursor_step h spc p q \<longleftrightarrow>
     (if snd p + 1 = spc then snd q = 0 \<and> get_next_cluster h (fst p) = Ok (fst q)
      else q = (fst p, snd p + 1))"

definition sector_holds :: "Fat16Impl \<Rightarrow> u8 list \<Rightarrow> Cluster \<times> nat \<Rightarrow> nat \<Rightarrow> bool" where
  "sector_holds h content p k \<longleftrightarrow>
     (\<exists>b. fs_inner h (cluster_to_first_sector h (fst p) + snd p) = Ok b \<and> length b = 512 \<and>
          take (length content - 512 * k) b = take 512 (drop (512 * k) content))"

lemma sector_holds_part:
  assumes "take (length content - 512 * k) b = take 512 (drop (512 * k) content)"
    and "byt + m \<le> 512" "512 * k + byt + m \<le> length content"
  shows "take m (drop byt b) = take m (drop (512 * k + byt) content)"
proof -
  have "take m (drop byt b) = drop byt (take (byt + m) (take (length content - 512 * k) b))"
    using assms(3) by (simp add: drop_take min_def)
  also have "\<dots> = drop byt (take (byt + m) (take 512 (drop (512 * k) content)))"
    by (simp only: assms(1))
  also have "\<dots> = take m (drop (512 * k + byt) content)"
    using assms(2) by (simp add: drop_take min_def add.commute)
  finally show ?thesis .
qed

lemma file_read_loop_cursor:
  assumes "f_handle f = h" "file_length f = length content"
    and "f_offset f = 512 * k + byt" "byt < 512" "f_offset f < length content"
    and "(f_current_cluster f, sec) = pos k" "read_bytes \<le> length buf"
    and "n = min (length buf - read_bytes) (length content - f_offset f)"
    and "\<And>j. k \<le> j \<Longrightarrow> j = k \<or> 512 * j < f_offset f + n \<Longrightarrow> sector_holds h content (pos j) j"
    and "\<And>j. k \<le> j \<Longrightarrow> 512 * (j + 1) < f_offset f + n \<Longrightarrow> cursor_step h spc (pos j) (pos (j + 1))"
  shows "file_read_loop 512 spc f buf read_bytes sec byt =
    Some (Ok (read_bytes + n),
          take read_bytes buf @ take n (drop (f_offset f) content) @ drop (read_bytes + n) buf,
          f\<lparr>f_offset := f_offset f + n,
            f_current_cluster := fst (pos (if n = 0 then k else (f_offset f + n - 1) div 512))\<rparr>)"
  using assms
proof (induction "length buf - read_bytes" arbitrary: f buf read_bytes sec byt k n
    rule: less_induct)
  case less
  define m where "m = min (min (length buf - read_bytes) (512 - byt))
              (unat (de_size (f_entry f)) - f_offset f)"
  have size: "unat (de_size (f_entry f)) = length content"
    using less.prems(2) by (simp add: file_length_def)
  have m: "byt + m \<le> 512" "512 * k + byt + m \<le> length content" "read_bytes + m \<le> length buf"
    using less.prems(3-5,7) size by (auto simp: m_def)
  have "sector_holds h content (pos k) k" using less.prems(9) [of k] by simp
  then obtain b where b: "fs_inner h (cluster_to_first_sector h (f_current_cluster f) + sec) = Ok b"
      "length b = 512" "take (length content - 512 * k) b = take 512 (drop (512 * k) content)"
    using less.prems(6) by (auto simp: sector_holds_def dest!: sym [of _ "pos k"])
  have dat: "take m (drop byt b) = take m (drop (f_offset f) content)"
    using sector_holds_part [OF b(3) m(1,2)] less.prems(3) by simp
  define buf' where "buf' = take read_bytes buf @ take m (drop byt b) @ drop (read_bytes + m) buf"
  have copy: "and_then (subslice b byt (byt + m)) (copy_from_slice buf read_bytes) =
      (Ok buf' :: (FsError, _) outcome)" and lbuf: "length buf' = length buf"
    using b(2) m by (simp_all add: buf'_def)
  note unfold = file_read_loop.simps [of 512 spc f buf read_bytes sec byt, folded m_def,
      unfolded Let_def, folded m_def]
  have cl: "f_current_cluster f = fst (pos k)" "sec = snd (pos k)"
    using less.prems(6) by (metis fst_conv, metis snd_conv)
  have noop: "f\<lparr>f_offset := f_offset f + m\<rparr> =
      f\<lparr>f_offset := f_offset f + m, f_current_cluster := fst (pos k)\<rparr>"
    using cl by (cases f) simp
  show ?case
  proof (cases "read_bytes + m = length buf \<or> f_offset f + m = length content")
    case True
    then have n: "n = m"
      using less.prems(3,7,8) m by (auto simp: min_def)
    have "(512 * k + byt + m - 1) div 512 = k" if "m \<noteq> 0"
    proof (rule div_nat_eqI)
      show "512 * k \<le> 512 * k + byt + m - 1" using that by simp
      show "512 * k + byt + m - 1 < 512 * Suc k" using that m(1) by simp
    qed
    then have last: "(if m = 0 then k else (f_offset f + m - 1) div 512) = k"
      using less.prems(3) by simp
    have run: "file_read_loop 512 spc f buf read_bytes sec byt =
        Some (Ok (read_bytes + m), buf', f\<lparr>f_offset := f_offset f + m\<rparr>)"
      using True b(1) copy lbuf less.prems(1) size by (simp add: unfold del: and_then_Ok_iff)
    with noop show ?thesis unfolding n last buf'_def dat by simp
  next
    case False
    have "m = length buf - read_bytes \<or> m = 512 - byt \<or> m = length content - f_offset f"
      by (simp add: m_def size min_def)
    with False have mb: "m = 512 - byt"
      using less.prems(5,7) by (metis le_add_diff_inverse less_imp_le_nat)
    have mk: "f_offset f + m = 512 * (k + 1)" using mb less.prems(3,4) by simp
    have lt: "f_offset f + m < length content" "read_bytes + m < length buf"
      using False m less.prems(3) by linarith+
    let ?f = "f\<lparr>f_offset := f_offset f + m, f_current_cluster := fst (pos (k + 1))\<rparr>"
    define n' where "n' = n - m"
    have n': "n = m + n'" "n' = min (length buf' - (read_bytes + m)) (length content - f_offset ?f)"
      "0 < n'" using less.prems(8) lt lbuf by (auto simp: n'_def min_def)
    have "512 * (k + 1) < f_offset f + n" using mk n'(1,3) by linarith
    then have "cursor_step h spc (pos k) (pos (k + 1))"
      using less.prems(10) [of k] by simp
    then have call: "file_read_loop 512 spc f buf read_bytes sec byt =
        file_read_loop 512 spc ?f buf' (read_bytes + m) (snd (pos (k + 1))) 0"
      using b(1) copy lbuf less.prems(1) False size cl
      by (subst unfold) (auto simp: cursor_step_def noop [symmetric] simp del: and_then_Ok_iff split: if_splits)
    have rec: "file_read_loop 512 spc ?f buf' (read_bytes + m) (snd (pos (k + 1))) 0 =
        Some (Ok (read_bytes + m + n'),
          take (read_bytes + m) buf' @ take n' (drop (f_offset ?f) content) @
            drop (read_bytes + m + n') buf',
          ?f\<lparr>f_offset := f_offset ?f + n', f_current_cluster :=
             fst (pos (if n' = 0 then k + 1 else (f_offset ?f + n' - 1) div 512))\<rparr>)"
    proof (rule less.hyps)
      show "length buf' - (read_bytes + m) < length buf - read_bytes"
        using lbuf lt mb less.prems(4) by simp
      show "file_length ?f = length content" using size by (simp add: file_length_def)
      show "sector_holds h content (pos j) j"
        if "k + 1 \<le> j" "j = k + 1 \<or> 512 * j < f_offset ?f + n'" for j
        using less.prems(9) [of j] that n' \<open>512 * (k + 1) < f_offset f + n\<close> by auto
      show "cursor_step h spc (pos j) (pos (j + 1))"
        if "k + 1 \<le> j" "512 * (j + 1) < f_offset ?f + n'" for j
        using less.prems(10) [of j] that n' by auto
    qed (use less.prems(1) mk lt lbuf n' in auto)
    have "take (read_bytes + m) buf' @ take n' (drop (f_offset f + m) content) @
        drop (read_bytes + m + n') buf' =
        take read_bytes buf @ take n (drop (f_offset f) content) @ drop (read_bytes + n) buf"
      using m b(2) n'(1) lt by (simp add: buf'_def dat take_add add.commute add.left_commute)
    then show ?thesis
      using call rec n'(1,3) by (simp add: add.assoc)
  qed
qed

text \<open>A file of 512-byte sectors whose clusters are \<open>cs\<close>, linked in this order by the FAT.\<close>

definition chain_holds :: "Fat16Impl \<Rightarrow> Cluster list \<Rightarrow> u8 list \<Rightarrow> bool" where
  "chain_holds h cs content \<longleftrightarrow>
     (let spc = unat (sectors_per_cluster (fs_bpb h)) in
      bytes_per_sector (fs_bpb h) = 512 \<and> 0 < spc \<and> length content \<le> 512 * (spc * length cs) \<and>
      (\<forall>i. Suc i < length cs \<longrightarrow> get_next_cluster h (cs ! i) = Ok (cs ! Suc i)) \<and>
      (\<forall>k. 512 * k < length content \<longrightarrow> sector_holds h content (cs ! (k div spc), k mod spc) k))"

lemma chain_cursor_step:
  assumes "chain_holds h cs content" "spc = unat (sectors_per_cluster (fs_bpb h))"
    and "512 * (j + 1) < length content"
  shows "cursor_step h spc (cs ! (j div spc), j mod spc) (cs ! ((j + 1) div spc), (j + 1) mod spc)"
proof (cases "j mod spc + 1 = spc")
  case True
  then have "(j + 1) mod spc = 0" "(j + 1) div spc = Suc (j div spc)"
    by (simp_all add: mod_Suc div_Suc)
  moreover have "512 * (j + 1) < 512 * (spc * length cs)"
    using assms by (auto simp: chain_holds_def Let_def)
  then have "(j + 1) div spc < length cs"
    by (simp add: less_mult_imp_div_less mult.commute)
  ultimately show ?thesis
    using True assms(1,2) by (simp add: cursor_step_def chain_holds_def Let_def)
next
  case False
  then have "(j + 1) mod spc = j mod spc + 1" "(j + 1) div spc = j div spc"
    by (simp_all add: mod_Suc div_Suc)
  with False show ?thesis by (simp add: cursor_step_def)
qed

text \<open>
  A read that starts in the first cluster returns the bytes of the file from the offset on, as
  many as fit into the buffer, however many clusters the read crosses.
\<close>

lemma file_read_chain:
  assumes "chain_holds (f_handle f) cs content" "file_length f = length content"
    and "f_offset f < length content"
    and "f_offset f < 512 * unat (sectors_per_cluster (fs_bpb (f_handle f)))"
    and "f_current_cluster f = cs ! 0"
  shows "\<exists>f'. file_read f buf =
    (let n = min (length buf) (length content - f_offset f) in
     (Ok n, take n (drop (f_offset f) content) @ drop n buf, f')) \<and>
    f_offset f' = f_offset f + min (length buf) (length content - f_offset f)"
proof -
  define h where "h = f_handle f"
  define spc where "spc = unat (sectors_per_cluster (fs_bpb h))"
  define n where "n = min (length buf) (length content - f_offset f)"
  let ?pos = "\<lambda>k. (cs ! (k div spc), k mod spc)"
  let ?k = "f_offset f div 512"
  have bps: "unat (bytes_per_sector (fs_bpb h)) = 512"
    using assms(1) by (simp add: chain_holds_def h_def Let_def)
  have "?k < spc" using assms(4) by (simp add: h_def spc_def less_mult_imp_div_less mult.commute)
  then have k: "(f_current_cluster f, ?k) = ?pos ?k" using assms(5) by simp
  have off: "f_offset f = 512 * ?k + f_offset f mod 512" by simp
  have "512 * ?k < length content" using assms(3) by (metis le_less_trans mult.commute times_div_less_eq_dividend)
  then have "file_read_loop 512 spc f buf 0 ?k (f_offset f mod 512) =
    Some (Ok (0 + n), take 0 buf @ take n (drop (f_offset f) content) @ drop (0 + n) buf,
      f\<lparr>f_offset := f_offset f + n,
        f_current_cluster := fst (?pos (if n = 0 then ?k else (f_offset f + n - 1) div 512))\<rparr>)"
  proof (intro file_read_loop_cursor [where pos = ?pos])
    show "sector_holds h content (?pos j) j" if "j = ?k \<or> 512 * j < f_offset f + n" for j
      using that assms(1,3) \<open>512 * ?k < length content\<close>
      by (auto simp: n_def h_def spc_def chain_holds_def Let_def)
    show "cursor_step h spc (?pos j) (?pos (j + 1))" if "512 * (j + 1) < f_offset f + n" for j
      using that assms(1,3) by (intro chain_cursor_step) (auto simp: n_def h_def spc_def)
  qed (use assms(2,3) k off in \<open>simp_all add: h_def n_def\<close>)
  with bps show ?thesis by (simp add: file_read_def Let_def h_def spc_def n_def)
qed

section \<open>Reading a whole file\<close>

text \<open>
  A file in consecutive sectors from its first cluster on, on a volume with 512-byte sectors and an
  even number of them to a cluster. The sector after the end has to be readable: the last, empty
  read of \<open>read_all\<close> fetches it.
\<close>

definition contiguous :: "Fat16Impl \<Rightarrow> Cluster \<Rightarrow> u8 list \<Rightarrow> bool" where
  "contiguous h c content \<longleftrightarrow>
     bytes_per_sector (fs_bpb h) = 512 \<and> even (unat (sectors_per_cluster (fs_bpb h))) \<and>
     (\<forall>k. 512 * k < length content \<longrightarrow> sector_holds h content (c, k) k) \<and>
     (\<exists>b. fs_inner h (cluster_to_first_sector h c + length content div 512) = Ok b \<and> length b = 512)"

lemma file_read_unit:
  assumes "contiguous (f_handle f) (f_current_cluster f) content" "file_length f = length content"
    and "f_offset f < length content" "f_offset f = 1024 * j"
  shows "file_read f (replicate 1024 0) =
    (let n = min 1024 (length content - f_offset f) in
     (Ok n, take n (drop (f_offset f) content) @ replicate (1024 - n) 0,
      f\<lparr>f_offset := f_offset f + n\<rparr>))"
proof -
  define h where "h = f_handle f"
  define c where "c = f_current_cluster f"
  define spc where "spc = unat (sectors_per_cluster (fs_bpb h))"
  define n where "n = min 1024 (length content - f_offset f)"
  have off: "f_offset f = 512 * (2 * j)" using assms(4) by simp
  have "file_read_loop 512 spc f (replicate 1024 0) 0 (2 * j) 0 =
    Some (Ok (0 + n), take 0 (replicate 1024 0) @ take n (drop (f_offset f) content) @
        drop (0 + n) (replicate 1024 0),
      f\<lparr>f_offset := f_offset f + n, f_current_cluster := fst ((\<lambda>k. (c, k))
         (if n = 0 then 2 * j else (f_offset f + n - 1) div 512))\<rparr>)"
  proof (intro file_read_loop_cursor [where pos = "\<lambda>k. (c, k)"])
    show "sector_holds h content (c, k) k" if "k = 2 * j \<or> 512 * k < f_offset f + n" for k
      using that assms(1,3,4) by (auto simp: contiguous_def h_def c_def n_def)
    show "cursor_step h spc (c, k) (c, k + 1)" if "2 * j \<le> k" "512 * (k + 1) < f_offset f + n" for k
    proof -
      have "f_offset f + n \<le> 512 * (2 * j + 2)" using off by (simp add: n_def)
      with that have "k = 2 * j" by simp
      then have "odd (k + 1)" by simp
      moreover have "even spc" using assms(1) by (simp add: contiguous_def h_def spc_def)
      ultimately have "k + 1 \<noteq> spc" by metis
      then show ?thesis by (simp add: cursor_step_def)
    qed
  qed (use assms(2,3) off in \<open>simp_all add: h_def n_def c_def\<close>)
  moreover have "f\<lparr>f_offset := x, f_current_cluster := c\<rparr> = f\<lparr>f_offset := x\<rparr>" for x
    by (cases f) (simp add: c_def)
  moreover have "unat (bytes_per_sector (fs_bpb h)) = 512"
    using assms(1) by (simp add: contiguous_def h_def)
  ultimately show ?thesis
    using off by (simp add: file_read_def Let_def h_def spc_def n_def)
qed

lemma file_read_at_end:
  assumes "contiguous (f_handle f) (f_current_cluster f) content" "file_length f = length content"
    and "f_offset f = length content"
  shows "file_read f buf = (Ok 0, buf, f)"
proof -
  obtain b where "fs_inner (f_handle f) (cluster_to_first_sector (f_handle f) (f_current_cluster f) +
      length content div 512) = Ok b" "length b = 512"
    using assms(1) by (auto simp: contiguous_def)
  moreover have "unat (bytes_per_sector (fs_bpb (f_handle f))) = 512"
    using assms(1) by (simp add: contiguous_def)
  ultimately show ?thesis
    using assms(2,3) by (simp add: file_read_def file_read_loop.simps Let_def file_length_def)
qed

text \<open>
  \<open>read_all\<close> then returns the size of the file, and appends its contents filled up with zeros to a
  multiple of 1024 bytes, and another 1024 zeros.
\<close>

definition padded :: "u8 list \<Rightarrow> u8 list" where
  "padded content = content @ replicate (1024 * ((length content + 1023) div 1024 + 1) - length content) 0"

lemma padded_Nil: "padded [] = replicate 1024 0"
  by (simp add: padded_def)

lemma padded_step:
  assumes "xs \<noteq> []" "n = min 1024 (length xs)"
  shows "padded xs = take n xs @ replicate (1024 - n) 0 @ padded (drop n xs)"
proof (cases "length xs \<le> 1024")
  case True
  then have "(length xs + 1023) div 1024 = 1"
    using assms(1) by (intro div_nat_eqI) (auto simp: Suc_le_eq)
  with True assms(2) show ?thesis
    by (simp add: padded_def replicate_add [symmetric] del: replicate_add)
next
  case False
  then have n: "n = 1024" using assms by simp
  have "(length xs + 1023) div 1024 = Suc ((length xs - 1024 + 1023) div 1024)"
    using False by (simp add: le_div_geq)
  then have "1024 * ((length xs + 1023) div 1024 + 1) - length xs =
      1024 * ((length (drop n xs) + 1023) div 1024 + 1) - length (drop n xs)"
    using False n by simp
  moreover have "take n xs @ drop n xs = xs" by simp
  ultimately show ?thesis unfolding padded_def using n by (metis append_assoc diff_self_eq_0 replicate_0 append_Nil)
qed

lemma read_all_loop_contiguous:
  assumes "contiguous (f_handle f) (f_current_cluster f) content" "file_length f = length content"
    and "f_offset f \<le> length content" "f_offset f = length content \<or> 1024 dvd f_offset f"
  shows "read_all_loop file_read f buf tot =
    Some (Ok (tot + (length content - f_offset f)), buf @ padded (drop (f_offset f) content),
          f\<lparr>f_offset := length content\<rparr>)"
  using assms
proof (induction "length content - f_offset f" arbitrary: f buf tot rule: less_induct)
  case less
  show ?case
  proof (cases "f_offset f = length content")
    case True
    then have "f\<lparr>f_offset := length content\<rparr> = f" by (cases f) simp
    with True file_read_at_end [OF less.prems(1,2)] show ?thesis
      by (simp add: read_all_loop.simps padded_Nil)
  next
    case False
    then have lt: "f_offset f < length content" using less.prems(3) by simp
    obtain j where j: "f_offset f = 1024 * j" using less.prems(4) False by (auto elim: dvdE)
    define n where "n = min 1024 (length content - f_offset f)"
    let ?f = "f\<lparr>f_offset := f_offset f + n\<rparr>"
    have n: "0 < n" "f_offset f + n \<le> length content" using lt by (auto simp: n_def)
    have step: "file_read f (replicate 1024 0) =
        (Ok n, take n (drop (f_offset f) content) @ replicate (1024 - n) 0, ?f)"
      using file_read_unit [OF less.prems(1,2) lt j] by (simp add: n_def Let_def)
    have "f_offset ?f = length content \<or> 1024 dvd f_offset ?f"
      using j lt by (auto simp: n_def min_def)
    then have "read_all_loop file_read ?f buf' tot' =
        Some (Ok (tot' + (length content - f_offset ?f)), buf' @ padded (drop (f_offset ?f) content),
          ?f\<lparr>f_offset := length content\<rparr>)" for buf' tot'
      using less.prems(1,2) n by (intro less.hyps) (auto simp: file_length_def)
    moreover have "padded (drop (f_offset f) content) = take n (drop (f_offset f) content) @
        replicate (1024 - n) 0 @ padded (drop n (drop (f_offset f) content))"
      using lt by (intro padded_step) (simp_all add: n_def)
    ultimately show ?thesis
      using step n by (subst read_all_loop.simps) (simp add: add.commute)
  qed
qed

end
