(* ===== verification/Storage_Mount.thy ===== *)
theory Storage_Mount
  imports Fat16_File
begin

text \<open>
  \<open>pkg/storage/src/common/{filesystem,mount}.rs\<close>: the trait \<open>FileSystem\<close> as the locale
  \<open>file_system\<close>, its implementation by FAT16, and \<open>Mount\<close>, which strips the mount point and passes
  the call on. A trait object \<open>Box<dyn FileSystem>\<close> is the record of its methods.
\<close>

section \<open>The trait FileSystem\<close>

record ('t, 'f) FileSystem =
  read_dir :: "str \<Rightarrow> (FsError, 't dir_iter) outcome"
  open_file :: "str \<Rightarrow> (FsError, ('t, 'f) FileHandle) outcome"
  metadata :: "str \<Rightarrow> (FsError, 't Metadata) outcome"
  exists :: "str \<Rightarrow> (FsError, bool) outcome"

text \<open>The methods with a default body: all of them refuse.\<close>

definition create_file_default :: "str \<Rightarrow> (FsError, ('t, 'f) FileHandle) outcome" where
  "create_file_default path = Err NotSupported"

definition append_file_default :: "str \<Rightarrow> (FsError, ('t, 'f) FileHandle) outcome" where
  "append_file_default path = Err NotSupported"

definition remove_file_default :: "str \<Rightarrow> (FsError, ('t, 'f) FileHandle) outcome" where
  "remove_file_default path = Err NotSupported"

definition remove_dir_default :: "str \<Rightarrow> (FsError, ('t, 'f) FileHandle) outcome" where
  "remove_dir_default path = Err NotSupported"

definition copy_file_default :: "str \<Rightarrow> str \<Rightarrow> (FsError, unit) outcome" where
  "copy_file_default src dst = Err NotSupported"

definition move_file_default :: "str \<Rightarrow> str \<Rightarrow> (FsError, unit) outcome" where
  "move_file_default src dst = Err NotSupported"

definition move_dir_default :: "str \<Rightarrow> str \<Rightarrow> (FsError, unit) outcome" where
  "move_dir_default src dst = Err NotSupported"

definition fat16_fs :: "('t, 'x) externs_scheme \<Rightarrow> Fat16Impl \<Rightarrow> ('t, 't File) FileSystem" where
  "fat16_fs X h = \<lparr>read_dir = fat16_read_dir X h, open_file = fat16_open_file X h,
     metadata = fat16_metadata X h, exists = fat16_exists X h\<rparr>"

section \<open>Mount\<close>

record ('t, 'f) Mount =
  mnt_fs :: "('t, 'f) FileSystem"
  mount_point :: str

definition mount_new :: "('t, 'f) FileSystem \<Rightarrow> str \<Rightarrow> ('t, 'f) Mount" where
  "mount_new fs mp = \<lparr>mnt_fs = fs, mount_point = mp\<rparr>"

definition trim_mount_point :: "('t, 'f) Mount \<Rightarrow> str \<Rightarrow> str" where
  "trim_mount_point m path = trim_start_matches (mount_point m) path"

definition mount_read_dir :: "('t, 'f) Mount \<Rightarrow> str \<Rightarrow> (FsError, 't dir_iter) outcome" where
  "mount_read_dir m path = read_dir (mnt_fs m) (trim_mount_point m path)"

definition mount_open_file :: "('t, 'f) Mount \<Rightarrow> str \<Rightarrow> (FsError, ('t, 'f) FileHandle) outcome" where
  "mount_open_file m path = open_file (mnt_fs m) (trim_mount_point m path)"

definition mount_metadata :: "('t, 'f) Mount \<Rightarrow> str \<Rightarrow> (FsError, 't Metadata) outcome" where
  "mount_metadata m path = metadata (mnt_fs m) (trim_mount_point m path)"

definition mount_exists :: "('t, 'f) Mount \<Rightarrow> str \<Rightarrow> (FsError, bool) outcome" where
  "mount_exists m path = exists (mnt_fs m) (trim_mount_point m path)"

definition mount_as_fs :: "('t, 'f) Mount \<Rightarrow> ('t, 'f) FileSystem" where
  "mount_as_fs m = \<lparr>read_dir = mount_read_dir m, open_file = mount_open_file m,
     metadata = mount_metadata m, exists = mount_exists m\<rparr>"

section \<open>The contract\<close>

text \<open>
  The three look-ups of a file system agree: a file that opens has its handle's metadata, what has
  metadata exists, a handle is never one of a directory, and a path that has no metadata because of
  an error fails in \<open>exists\<close> with the same error.
\<close>

locale file_system =
  fixes fs :: "('t, 'f) FileSystem"
  assumes open_metadata: "open_file fs p = Ok fh \<Longrightarrow> metadata fs p = Ok (fh_meta fh)"
    and open_is_file: "open_file fs p = Ok fh \<Longrightarrow> metadata_is_file (fh_meta fh)"
    and metadata_exists: "metadata fs p = Ok m \<Longrightarrow> exists fs p = Ok True"
    and exists_true: "exists fs p = Ok b \<Longrightarrow> b"
    and metadata_error: "metadata fs p = Err e \<longleftrightarrow> exists fs p = Err e"
begin

lemma open_exists: "open_file fs p = Ok fh \<Longrightarrow> exists fs p = Ok True"
  using open_metadata metadata_exists by blast

lemma directory_not_opened: "metadata fs p = Ok m \<Longrightarrow> metadata_is_dir m \<Longrightarrow> open_file fs p \<noteq> Ok fh"
  using open_metadata open_is_file by (auto simp: metadata_is_dir_def metadata_is_file_def)

end

interpretation fat16: file_system "fat16_fs X h"
proof
  fix p fh m b e
  show "metadata (fat16_fs X h) p = Ok (fh_meta fh)" if "open_file (fat16_fs X h) p = Ok fh"
    using that by (auto simp: fat16_fs_def fat16_open_file_def fat16_metadata_def
        open_file_loop_Ok_iff metadata_loop_Ok_iff file_handle_new_def)
  show "metadata_is_file (fh_meta fh)" if "open_file (fat16_fs X h) p = Ok fh"
    using that by (auto simp: fat16_fs_def fat16_open_file_def open_file_loop_Ok_iff
        file_handle_new_def as_meta_def metadata_is_file_def)
  show "exists (fat16_fs X h) p = Ok True" if "metadata (fat16_fs X h) p = Ok m"
    using that by (auto simp: fat16_fs_def fat16_metadata_def fat16_exists_def
        metadata_loop_Ok_iff exists_loop_Ok_iff)
  show "b" if "exists (fat16_fs X h) p = Ok b"
    using that by (simp add: fat16_fs_def fat16_exists_def exists_loop_Ok_iff)
  show "metadata (fat16_fs X h) p = Err e \<longleftrightarrow> exists (fat16_fs X h) p = Err e"
    by (simp add: fat16_fs_def fat16_metadata_def fat16_exists_def metadata_exists_Err)
qed

text \<open>A mounted file system keeps the contract.\<close>

locale mounted_file_system = file_system +
  fixes mp :: str

sublocale mounted_file_system \<subseteq> mnt: file_system "mount_as_fs (mount_new fs mp)"
  by unfold_locales
    (auto simp: mount_as_fs_def mount_new_def mount_open_file_def mount_metadata_def
      mount_exists_def open_metadata open_is_file metadata_exists metadata_error dest: exists_true)

interpretation rootfs: mounted_file_system "fat16_fs X h" "bytes ''/''" ..

section \<open>Mounting at the root\<close>

lemma trim_slashes: "parse_path (trim_start_matches [0x2F] p) = parse_path p"
proof (induction p)
  case Nil
  then show ?case by simp
next
  case (Cons b p)
  then show ?case
    by (subst trim_start_matches.simps) auto
qed

lemma bytes_slash: "bytes ''/'' = [0x2F]"
  by (simp add: bytes_def of_char_Char)

end
