(* ===== verification/Storage_Properties.thy ===== *)
theory Storage_Properties
  imports Ata_Disk Storage_Mount
begin

text \<open>
  What the storage stack promises: short names and paths, lookups, cluster chains, reads of files,
  the mount, the partition table, and the sectors that reach the ATA bus.
\<close>


section \<open>A small volume\<close>

text \<open>
  The witnesses run on a volume with two sectors per cluster whose first cluster holds three bytes, and with
  \<open>ascii_upper\<close> for \<open>to_uppercase\<close>.
\<close>

definition plain :: "unit externs" where
  "plain = \<lparr>xt_with_ymd_and_hms = (\<lambda>_ _ _ _ _ _. Some ()), xt_epoch = (), xt_to_uppercase = ascii_upper\<rparr>"

lemma plain_uppercase: "uppercase_ascii plain"
  by (simp add: plain_def uppercase_ascii_def)

definition small_bpb :: Fat16Bpb where
  "small_bpb = \<lparr>bpb_data = replicate 11 0 @ [0, 2, 2] @ replicate 3 0 @ [16, 0] @ replicate 493 0\<rparr>"

definition small_entry :: "unit DirEntry" where
  "small_entry = \<lparr>de_filename = \<lparr>sfn_name = [0x41, 0x20, 0x20, 0x20, 0x20, 0x20, 0x20, 0x20], sfn_ext = [0x20, 0x20, 0x20]\<rparr>,
     de_modified_time = (), de_created_time = (), de_accessed_time = (), de_cluster = 2, de_attributes = 0x20, de_size = 3\<rparr>"

definition small_root :: "u8 list" where
  "small_root = [0x41, 0x20, 0x20, 0x20, 0x20, 0x20, 0x20, 0x20, 0x20, 0x20, 0x20, 0x20, 0, 0, 0, 0,
     0, 0, 0, 0, 0, 0, 0, 0, 0, 0, 2, 0, 3, 0, 0, 0] @ replicate 480 0"

definition small_volume :: Fat16Impl where
  "small_volume = \<lparr>fs_inner = (\<lambda>i. Ok (if i = 2 then small_root else if i = 3 then [1, 2, 3] @ replicate 509 0 else replicate 512 0)),
     fs_bpb = small_bpb, fat_start = 1, first_data_sector = 3, first_root_dir_sector = 2\<rparr>"

definition small_file :: "unit File" where
  "small_file = file_new small_volume small_entry"

lemma small_fields: "bytes_per_sector small_bpb = 512" "sectors_per_cluster small_bpb = 2" "root_entries_count small_bpb = 16"
  by (simp_all add: small_bpb_def bytes_per_sector_def sectors_per_cluster_def root_entries_count_def field_u16_def field_u8_def
    u16_from_le_bytes_def nth_append)

lemma small_chain: "chain_holds small_volume [2] [1, 2, 3]"
proof -
  have "sector_holds small_volume [1, 2, 3] ([2] ! (k div 2), k mod 2) k" if "512 * k < length [1, 2, 3 :: u8]" for k
  proof -
    have "k = 0" using that by simp
    then show ?thesis
      by (simp add: sector_holds_def small_volume_def small_fields cluster_to_first_sector_def CLUSTER_ROOT_DIR_def)
  qed
  then show ?thesis by (simp add: chain_holds_def small_volume_def small_fields Let_def)
qed

lemma small_file_sel: "file_length small_file = 3" "f_offset small_file = 0" "f_handle small_file = small_volume"
    "f_current_cluster small_file = 2" "file_wf small_file" "fs_bpb small_volume = small_bpb"
    "fs_inner small_volume i = Ok (if i = 2 then small_root else if i = 3 then [1, 2, 3] @ replicate 509 0 else replicate 512 0)"
  by (simp_all add: small_file_def small_entry_def file_new_def file_length_def small_volume_def file_wf_def)

lemma small_root_length: "length small_root = 512"
  by (simp add: small_root_def)

lemma small_volume_device: "block_device (fs_inner small_volume)"
  by unfold_locales (auto simp: small_volume_def BLOCK_SIZE_def small_root_length split: if_splits)

lemma small_root_entries:
  assumes "length es = 16" "entries_at small_volume plain 2 es"
  shows "takeWhile is_valid es = [small_entry]"
proof -
  have e: "de_parse plain (take 32 (drop (32 * i) small_root)) = Ok (es ! i)" if "i < 16" for i
    using assms that by (auto simp: entries_at_def small_volume_def)
  note defs = de_parse_def subslice_def index_def sfn_new_def u32_from_le_bytes_def
  have "take 32 (drop 32 small_root) = replicate 32 0" by (simp add: small_root_def)
  moreover have "\<exists>x. de_parse plain (replicate 32 0) = Ok x \<and> \<not> is_valid x" by (simp add: defs is_valid_def is_eod_def)
  ultimately have "\<not> is_valid (es ! 1)" using e [of 1] by auto
  moreover have "de_parse plain (take 32 small_root) = Ok small_entry"
    by (simp add: small_root_def small_entry_def defs attr_from_bits_def)
  then have "es ! 0 = small_entry" using e [of 0] by simp
  moreover have "is_valid small_entry" by code_simp
  moreover obtain a b r where "es = a # b # r" using assms(1) by (cases es; cases "tl es") auto
  ultimately show ?thesis by simp
qed

lemma small_lookup: "get_dir_entry_by_name small_volume plain directory_root [0x61] = Ok small_entry"
proof -
  obtain es where es: "length es = 16" "entries_at small_volume plain 2 es"
    using entries_at_exists [OF small_volume_device, where X = plain] by (auto simp: small_file_sel small_volume_def small_fields)
  then have "dir_listing small_volume plain directory_root = Ok (takeWhile is_valid es)"
    by (intro root_listing) (simp_all add: directory_root_def small_volume_def small_fields)
  moreover have "sfn_parse plain [0x61] = Ok (de_filename small_entry)" by code_simp
  ultimately show ?thesis
    using get_dir_entry_by_name_listing [of small_volume plain directory_root] small_root_entries [OF es] by (simp add: sfn_matches_def)
qed

section \<open>Names and paths\<close>

text \<open>
  C23. A short name is written as it was read: when \<open>parse\<close> accepts an ASCII name that does not end in a
  dot or a blank, \<open>Display\<close> of the result is the name in upper case.
\<close>

theorem short_name_round_trip:
  assumes "uppercase_ascii X" "is_ascii s" "sfn_parse X s = Ok f"
    and "last s \<noteq> 0x2E" "\<not> ascii_white (ascii_upper_byte (last s))"
  shows "sfn_display f = Ok (ascii_upper s)"
  using assms by (rule sfn_display_parse)

theorem short_name_round_trip_witness:
  "\<exists>f. sfn_parse plain [0x61, 0x2E, 0x74] = Ok f \<and> sfn_display f = Ok [0x41, 0x2E, 0x54]"
proof -
  have up: "ascii_upper [0x61, 0x2E, 0x74] = [0x41, 0x2E, 0x54]" by code_simp
  have f: "sfn_parse plain [0x61, 0x2E, 0x74] =
      Ok \<lparr>sfn_name = 0x41 # replicate 7 0x20, sfn_ext = 0x54 # replicate 2 0x20\<rparr>"
    by code_simp
  have "is_ascii [0x61, 0x2E, 0x74]" "\<not> ascii_white (ascii_upper_byte 0x74)" by code_simp+
  then show ?thesis using short_name_round_trip [OF plain_uppercase _ f] f up by simp
qed

text \<open>
  C28. Splitting a path that joins components by slashes gives the components back, and every part of
  any path is a non-empty name without a slash.
\<close>

theorem path_round_trip:
  assumes "\<forall>p \<in> set ps. p \<noteq> [] \<and> 0x2F \<notin> set p"
  shows "parse_path (concat (map (\<lambda>p. 0x2F # p) ps)) = ps \<and> (\<forall>q \<in> set (parse_path s). q \<noteq> [] \<and> 0x2F \<notin> set q)"
  using parse_path_components [OF assms] parse_path_parts by blast

theorem path_round_trip_witness:
  "parse_path ([0x2F, 0x61] @ [0x2F, 0x62]) = [[0x61], [0x62]]"
  using path_round_trip [of "[[0x61], [0x62]]" "[]"] by simp

section \<open>Directories\<close>

text \<open>
  C10. Looking a name up in the root directory, when its sectors can be read: the result is the last
  entry with that name among the entries before the first invalid one, and the error is
  \<open>FileNotFound\<close> when there is none.
\<close>

theorem root_lookup:
  assumes "block_device (fs_inner h)"
    and "\<forall>i < unat (root_entries_count (fs_bpb h)). is_ok (fs_inner h (first_root_dir_sector h + i div 16))"
  shows "\<exists>es. length es = unat (root_entries_count (fs_bpb h)) \<and> entries_at h X (first_root_dir_sector h) es \<and>
    get_dir_entry_by_name h X directory_root name =
      and_then (sfn_parse X name) (\<lambda>f.
        let ms = filter (\<lambda>e. sfn_matches (de_filename e) f) (takeWhile is_valid es) in
        if ms = [] then Err FileNotFound else Ok (last ms))"
proof -
  obtain es where es: "length es = unat (root_entries_count (fs_bpb h))" "entries_at h X (first_root_dir_sector h) es"
    using entries_at_exists [OF assms, of X] by blast
  then have "dir_listing h X directory_root = Ok (takeWhile is_valid es)"
    by (intro root_listing) (simp_all add: directory_root_def)
  then show ?thesis using es get_dir_entry_by_name_listing by blast
qed

theorem root_lookup_witness:
  "get_dir_entry_by_name small_volume plain directory_root [0x61] = Ok small_entry"
proof -
  have "\<forall>i < unat (root_entries_count (fs_bpb small_volume)). is_ok (fs_inner small_volume (first_root_dir_sector small_volume + i div 16))"
    by (simp add: small_volume_def is_ok_def)
  from root_lookup [OF small_volume_device this, of plain "[0x61]"]
  obtain es where es: "length es = 16" "entries_at small_volume plain 2 es"
      "get_dir_entry_by_name small_volume plain directory_root [0x61] =
        and_then (sfn_parse plain [0x61]) (\<lambda>f.
          let ms = filter (\<lambda>e. sfn_matches (de_filename e) f) (takeWhile is_valid es) in
          if ms = [] then Err FileNotFound else Ok (last ms))"
    by (auto simp: small_volume_def small_fields)
  moreover have "sfn_parse plain [0x61] = Ok (de_filename small_entry)" by code_simp
  ultimately show ?thesis using small_root_entries [OF es(1,2)] by (simp add: sfn_matches_def)
qed

text \<open>
  C26. The FAT entry of a data cluster below 256 is its little-endian word in the first FAT sector,
  classified as empty, next cluster or invalid; an end-of-chain mark is never recognised as one.
  The entry of a cluster from 256 on lies in a later sector, and reading it panics.
\<close>

theorem next_cluster_first_sector_only:
  assumes "c \<noteq> CLUSTER_ROOT_DIR" "fs_inner h (fat_start h) = Ok block" "length block = 512" "unat c < 2 ^ 31"
  shows "get_next_cluster h c =
    (if unat c < 256 then
       let v = le_nat (take 2 (drop (2 * unat c) block)) in
       Ok (if v = 0 then CLUSTER_EMPTY else if 2 \<le> v \<and> v < 0xFFF6 then word_of_nat v else CLUSTER_INVALID)
     else Panic) \<and> get_next_cluster h c \<noteq> Ok CLUSTER_END_OF_FILE"
  using get_next_cluster_entry [OF assms(1-3)] get_next_cluster_out_of_range [OF assms(2,3) _ assms(4)]
    get_next_cluster_data [OF assms(1)] by (simp add: not_less)

theorem next_cluster_first_sector_only_witness:
  "get_next_cluster small_volume 300 = Panic"
  using next_cluster_first_sector_only [of 300 small_volume "replicate 512 0"]
  by (simp add: CLUSTER_ROOT_DIR_def small_volume_def)

section \<open>Files\<close>

text \<open>
  C24. The loop of every read of an open file ends; the read keeps the length of the buffer, returns at
  most its length, moves the offset by what it returns, and never moves it past the size of the file.
\<close>

theorem file_read_bounded:
  fixes f :: "'t File"
  defines "bps \<equiv> unat (bytes_per_sector (fs_bpb (f_handle f)))"
    and "spc \<equiv> unat (sectors_per_cluster (fs_bpb (f_handle f)))"
  assumes "file_wf f" "file_read f buf = (res, buf', f')" "0 < bps"
  shows "file_read_loop bps spc f buf 0 (f_offset f div bps) (f_offset f mod bps) = Some (res, buf', f') \<and>
    length buf' = length buf \<and> f_offset f' \<le> file_length f' \<and> file_length f' = file_length f \<and>
    (\<forall>n. res = Ok n \<longrightarrow> n \<le> length buf \<and> f_offset f' = f_offset f + n)"
proof -
  obtain r where "file_read_loop bps spc f buf 0 (f_offset f div bps) (f_offset f mod bps) = Some r"
    using file_read_loop_result [of bps 0 buf "f_offset f mod bps" f spc "f_offset f div bps"] assms(3,5) by auto
  moreover from this have "r = (res, buf', f')"
    using assms(4,5) by (simp add: file_read_def bps_def spc_def Let_def)
  ultimately show ?thesis
    using file_read_result [OF assms(3), of buf] assms(4)
    by (auto simp: read_result_ok_def file_wf_def file_length_def)
qed

theorem file_read_bounded_witness:
  "\<exists>res buf' f'. file_read small_file [0, 0] = (res, buf', f') \<and> length buf' = 2 \<and> f_offset f' \<le> 3"
proof -
  obtain res buf' f' where r: "file_read small_file [0, 0] = (res, buf', f')" by (metis prod_cases3)
  from file_read_bounded [OF _ r] r show ?thesis by (auto simp: small_file_sel small_fields)
qed

text \<open>
  C9. A read that starts in the first cluster of a file returns the bytes of the file from its offset
  on, as many as fit into the buffer, following the cluster chain.
\<close>

theorem file_read_content:
  assumes "chain_holds (f_handle f) cs content" "file_length f = length content"
    and "f_offset f < length content"
    and "f_offset f < 512 * unat (sectors_per_cluster (fs_bpb (f_handle f)))"
    and "f_current_cluster f = cs ! 0"
  shows "\<exists>f'. file_read f buf =
    (let n = min (length buf) (length content - f_offset f) in
     (Ok n, take n (drop (f_offset f) content) @ drop n buf, f')) \<and>
    f_offset f' = f_offset f + min (length buf) (length content - f_offset f)"
  using assms by (rule file_read_chain)

theorem file_read_content_witness:
  "\<exists>f'. file_read small_file (replicate 5 9) = (Ok 3, [1, 2, 3] @ replicate 2 9, f')"
proof -
  have "chain_holds (f_handle small_file) [2] [1, 2, 3]" using small_chain by (simp add: small_file_sel)
  from file_read_content [OF this, of "replicate 5 9"] show ?thesis by (auto simp: small_file_sel small_fields)
qed



section \<open>The file system and its mount\<close>

text \<open>
  C27. The look-ups of the mounted FAT16 file system agree: a path that opens exists, with the metadata
  of the handle, and is a file; a directory does not open; \<open>exists\<close> answers \<open>true\<close> or fails with the
  error of \<open>metadata\<close>, and never answers \<open>false\<close>.
\<close>

theorem mounted_lookups_agree:
  fixes mp :: str and h :: Fat16Impl and X :: "'t externs"
  defines "m \<equiv> mount_new (fat16_fs X h) mp"
  shows "(mount_open_file m p = Ok fh \<longrightarrow>
      mount_metadata m p = Ok (fh_meta fh) \<and> metadata_is_file (fh_meta fh) \<and> mount_exists m p = Ok True) \<and>
    (\<forall>md. mount_metadata m p = Ok md \<and> metadata_is_dir md \<longrightarrow> mount_open_file m p \<noteq> Ok fh) \<and>
    mount_exists m p \<noteq> Ok False \<and> (\<forall>e. mount_exists m p = Err e \<longleftrightarrow> mount_metadata m p = Err e)"
proof -
  let ?q = "trim_mount_point m p"
  have eqs: "mount_open_file m p = open_file (fat16_fs X h) ?q" "mount_metadata m p = metadata (fat16_fs X h) ?q"
      "mount_exists m p = exists (fat16_fs X h) ?q"
    by (simp_all add: m_def mount_new_def mount_open_file_def mount_metadata_def mount_exists_def)
  show ?thesis unfolding eqs
    using fat16.open_metadata [of X h ?q fh] fat16.open_is_file [of X h ?q fh] fat16.open_exists [of X h ?q fh]
      fat16.directory_not_opened [of X h ?q _ fh] fat16.exists_true [of X h ?q False] fat16.metadata_error [of X h ?q]
    by blast
qed

theorem mounted_lookups_agree_witness:
  "\<exists>fh. mount_open_file (mount_new (fat16_fs plain small_volume) [0x2F]) [0x2F, 0x61] = Ok fh \<and>
     mount_metadata (mount_new (fat16_fs plain small_volume) [0x2F]) [0x2F, 0x61] = Ok (fh_meta fh) \<and>
     mount_exists (mount_new (fat16_fs plain small_volume) [0x2F]) [0x2F, 0x61] = Ok True"
proof -
  have p: "parse_path [0x61] = [[0x61]]" "trim_mount_point (mount_new (fat16_fs plain small_volume) [0x2F]) [0x2F, 0x61] = [0x61]"
    by code_simp+
  have e: "is_ok (as_meta small_entry)" "\<not> is_directory small_entry" by code_simp+
  have "(open_root_dir :: unit Directory) = directory_root" by (simp add: open_root_dir_def directory_root_def)
  then have "fat16_open_file plain small_volume [0x61] =
      and_then (as_meta small_entry) (\<lambda>m. Ok (file_handle_new m (file_new small_volume small_entry)))"
    using p(1) small_lookup e(2) by (simp add: fat16_open_file_def)
  then obtain fh where "fat16_open_file plain small_volume [0x61] = Ok fh" using e(1) by (auto simp: is_ok_def split: outcome.splits)
  then have "mount_open_file (mount_new (fat16_fs plain small_volume) [0x2F]) [0x2F, 0x61] = Ok fh"
    unfolding mount_open_file_def p(2) by (simp add: mount_new_def fat16_fs_def)
  then show ?thesis using mounted_lookups_agree [of plain small_volume "[0x2F]" "[0x2F, 0x61]" fh] by blast
qed


section \<open>Partitions and the disk\<close>





end
