(* ===== verification/Mem_Frames.thy ===== *)
theory Mem_Frames
  imports Rust_Prelude
begin

text \<open>
  \<open>pkg/kernel/src/memory/frames.rs\<close>: the allocator of physical frames. A frame is its number, the
  physical address divided by 4096. The iterator over the usable regions is the list of the frames
  it has still to give; the recycled frames are a \<open>Vec\<close>, used as a stack. The locale
  \<open>frame_allocator\<close> is the contract of the two traits that the mapping code relies on.
\<close>

type_synonym frame = nat

section \<open>BootInfoFrameAllocator\<close>

datatype MemoryType = CONVENTIONAL | OtherMemory nat

record MemoryDescriptor =
  md_ty :: MemoryType
  phys_start :: u64
  page_count :: u64

record BootInfoFrameAllocator =
  fa_size :: nat
  fa_used :: nat
  fa_frames :: "frame list"
  fa_recycled :: "frame list"

definition create_frame_iter :: "MemoryDescriptor list \<Rightarrow> frame list" where
  "create_frame_iter memory_map =
     concat (map (\<lambda>r. map (\<lambda>v. unat (word_of_nat v * 4096 + phys_start r) div 4096)
                          [0..<unat (page_count r)])
       (filter (\<lambda>r. md_ty r = CONVENTIONAL) memory_map))"

definition frame_alloc_init :: "MemoryDescriptor list \<Rightarrow> nat \<Rightarrow> BootInfoFrameAllocator" where
  "frame_alloc_init memory_map sz =
     \<lparr>fa_size = sz, fa_used = 0, fa_frames = create_frame_iter memory_map, fa_recycled = []\<rparr>"

definition frames_used :: "BootInfoFrameAllocator \<Rightarrow> nat" where
  "frames_used a = fa_used a"

definition frames_total :: "BootInfoFrameAllocator \<Rightarrow> nat" where
  "frames_total a = fa_size a"

definition frames_recycled :: "BootInfoFrameAllocator \<Rightarrow> nat" where
  "frames_recycled a = length (fa_recycled a)"

definition allocate_frame :: "BootInfoFrameAllocator \<Rightarrow> frame option \<times> BootInfoFrameAllocator" where
  "allocate_frame a =
     (if fa_recycled a \<noteq> []
      then (Some (last (fa_recycled a)), a\<lparr>fa_recycled := butlast (fa_recycled a)\<rparr>)
      else let a' = a\<lparr>fa_used := fa_used a + 1\<rparr> in
        case fa_frames a' of
          [] \<Rightarrow> (None, a')
        | f # fs \<Rightarrow> (Some f, a'\<lparr>fa_frames := fs\<rparr>))"

definition deallocate_frame :: "frame \<Rightarrow> BootInfoFrameAllocator \<Rightarrow> BootInfoFrameAllocator" where
  "deallocate_frame f a = a\<lparr>fa_recycled := fa_recycled a @ [f]\<rparr>"

section \<open>The contract\<close>

text \<open>
  \<open>free a\<close> is the set of frames that an allocator still can give. An allocation gives one of them,
  and fails only when there is none; a frame that is not free may be returned.
\<close>

locale frame_allocator =
  fixes alloc :: "'a \<Rightarrow> frame option \<times> 'a"
    and dealloc :: "frame \<Rightarrow> 'a \<Rightarrow> 'a"
    and free :: "'a \<Rightarrow> frame set"
    and wf :: "'a \<Rightarrow> bool"
  assumes alloc_Some: "wf a \<Longrightarrow> alloc a = (Some f, a') \<Longrightarrow> f \<in> free a \<and> free a' = free a - {f} \<and> wf a'"
    and alloc_None: "wf a \<Longrightarrow> alloc a = (None, a') \<Longrightarrow> free a = {} \<and> free a' = {} \<and> wf a'"
    and dealloc_free: "wf a \<Longrightarrow> f \<notin> free a \<Longrightarrow> free (dealloc f a) = insert f (free a) \<and> wf (dealloc f a)"
begin

text \<open>\<open>n\<close> allocations in a row.\<close>

fun alloc_many :: "nat \<Rightarrow> 'a \<Rightarrow> frame option list \<times> 'a" where
  "alloc_many 0 a = ([], a)"
| "alloc_many (Suc n) a =
     (let (r, a1) = alloc a; (rs, a2) = alloc_many n a1 in (r # rs, a2))"

lemma alloc_step: "wf a \<Longrightarrow> alloc a = (r, a') \<Longrightarrow>
  wf a' \<and> set_option r \<subseteq> free a \<and> free a' = free a - set_option r \<and> (r = None \<longrightarrow> free a = {})"
  using alloc_Some [of a _ a'] alloc_None [of a a'] by (cases r) simp_all

text \<open>Frames that were given and not returned are never given again.\<close>

lemma alloc_many_distinct:
  assumes "wf a" "alloc_many n a = (rs, a')"
  shows "distinct (filter (\<lambda>r. r \<noteq> None) rs) \<and> the ` set (filter (\<lambda>r. r \<noteq> None) rs) \<subseteq> free a \<and>
    free a' = free a - the ` set (filter (\<lambda>r. r \<noteq> None) rs) \<and> wf a'"
  using assms
proof (induction n arbitrary: a rs)
  case 0
  then show ?case by auto
next
  case (Suc n)
  obtain r a1 where step: "alloc a = (r, a1)" by (cases "alloc a") auto
  from Suc.prems(2) step obtain rs' where rs: "alloc_many n a1 = (rs', a')" "rs = r # rs'"
    by (auto split: prod.splits)
  note s = alloc_step [OF Suc.prems(1) step]
  note IH = Suc.IH [OF _ rs(1)]
  show ?case
  proof (cases r)
    case None
    with s IH rs show ?thesis by auto
  next
    case (Some f)
    have "Some f \<notin> set (filter (\<lambda>r. r \<noteq> None) rs')"
    proof
      assume "Some f \<in> set (filter (\<lambda>r. r \<noteq> None) rs')"
      then have "f \<in> free a1" using IH s by (metis (no_types, lifting) image_eqI option.sel subsetD)
      with s Some show False by auto
    qed
    with Some s IH rs show ?thesis by auto
  qed
qed

end

definition fa_free :: "BootInfoFrameAllocator \<Rightarrow> frame set" where
  "fa_free a = set (fa_frames a) \<union> set (fa_recycled a)"

definition fa_wf :: "BootInfoFrameAllocator \<Rightarrow> bool" where
  "fa_wf a \<longleftrightarrow> distinct (fa_frames a @ fa_recycled a)"

lemma distinct_last_butlast: "xs \<noteq> [] \<Longrightarrow> distinct xs \<Longrightarrow> set (butlast xs) = set xs - {last xs}"
  by (induction xs rule: rev_induct) auto

interpretation boot_frames: frame_allocator allocate_frame deallocate_frame fa_free fa_wf
proof
  fix a a' f
  show "f \<in> fa_free a \<and> fa_free a' = fa_free a - {f} \<and> fa_wf a'"
    if wf: "fa_wf a" and step: "allocate_frame a = (Some f, a')"
  proof (cases "fa_recycled a = []")
    case True
    with wf step show ?thesis
      by (auto simp: allocate_frame_def Let_def fa_free_def fa_wf_def split: list.splits)
  next
    case False
    then have "f = last (fa_recycled a)" "a' = a\<lparr>fa_recycled := butlast (fa_recycled a)\<rparr>"
      using step by (auto simp: allocate_frame_def)
    moreover have "last (fa_recycled a) \<in> set (fa_recycled a)" using False by simp
    ultimately show ?thesis
      using wf False distinct_last_butlast [OF False]
      by (auto simp: fa_free_def fa_wf_def distinct_butlast dest: in_set_butlastD)
  qed
  show "fa_free a = {} \<and> fa_free a' = {} \<and> fa_wf a'"
    if "fa_wf a" "allocate_frame a = (None, a')"
    using that by (auto simp: allocate_frame_def Let_def fa_free_def fa_wf_def
        split: list.splits if_splits)
  show "fa_free (deallocate_frame f a) = insert f (fa_free a) \<and> fa_wf (deallocate_frame f a)"
    if "fa_wf a" "f \<notin> fa_free a"
    using that by (auto simp: deallocate_frame_def fa_free_def fa_wf_def)
qed

section \<open>The frames of the memory map\<close>

text \<open>
  Regions that are page aligned, end below \<open>2 ^ 64\<close> and do not overlap, as UEFI guarantees, give
  distinct frames.
\<close>

definition region_frames :: "MemoryDescriptor \<Rightarrow> frame set" where
  "region_frames r = {unat (phys_start r) div 4096 ..< unat (phys_start r) div 4096 + unat (page_count r)}"

definition memory_map_wf :: "MemoryDescriptor list \<Rightarrow> bool" where
  "memory_map_wf ms \<longleftrightarrow>
     (\<forall>r \<in> set ms. 4096 dvd unat (phys_start r) \<and> unat (phys_start r) + 4096 * unat (page_count r) < 2 ^ 64) \<and>
     (\<forall>i < length ms. \<forall>j < length ms. i \<noteq> j \<longrightarrow> region_frames (ms ! i) \<inter> region_frames (ms ! j) = {})"

lemma region_frame_list:
  assumes "4096 dvd unat (phys_start r)" "unat (phys_start r) + 4096 * unat (page_count r) < 2 ^ 64"
  shows "map (\<lambda>v. unat (word_of_nat v * 4096 + phys_start r) div 4096) [0..<unat (page_count r)] =
    map (\<lambda>v. unat (phys_start r) div 4096 + v) [0..<unat (page_count r)]"
proof (rule map_cong [OF refl])
  fix v
  assume "v \<in> set [0..<unat (page_count r)]"
  then have "v < unat (page_count r)" by simp
  with assms(2) have lt: "v * 4096 + unat (phys_start r) < 2 ^ 64" by simp
  have "unat (word_of_nat v * 4096 + phys_start r) = v * 4096 + unat (phys_start r)"
  proof -
    have "word_of_nat v * 4096 + phys_start r = (word_of_nat (v * 4096 + unat (phys_start r)) :: u64)"
      by simp
    then have "unat (word_of_nat v * 4096 + phys_start r) =
        unat (word_of_nat (v * 4096 + unat (phys_start r)) :: u64)" by (rule arg_cong)
    also have "\<dots> = v * 4096 + unat (phys_start r)"
      using lt by (simp only: unat_of_nat take_bit_nat_eq_self len_of_finite_2_def len_num1 len_bit0) simp
    finally show ?thesis .
  qed
  then show "unat (word_of_nat v * 4096 + phys_start r) div 4096 = unat (phys_start r) div 4096 + v"
    by (simp add: add.commute)
qed

lemma memory_map_wf_Cons:
  assumes "memory_map_wf (r # ms)"
  shows "memory_map_wf ms" "\<forall>s \<in> set ms. region_frames r \<inter> region_frames s = {}"
    "4096 dvd unat (phys_start r)" "unat (phys_start r) + 4096 * unat (page_count r) < 2 ^ 64"
proof -
  show "memory_map_wf ms"
    unfolding memory_map_wf_def
  proof (intro conjI allI impI)
    fix i j
    assume "i < length ms" "j < length ms" "i \<noteq> j"
    then show "region_frames (ms ! i) \<inter> region_frames (ms ! j) = {}"
      using assms unfolding memory_map_wf_def by (metis Suc_less_eq length_Cons nat.inject nth_Cons_Suc)
  qed (use assms in \<open>simp add: memory_map_wf_def\<close>)
  show "\<forall>s \<in> set ms. region_frames r \<inter> region_frames s = {}"
  proof
    fix s assume "s \<in> set ms"
    then obtain j where "j < length ms" "ms ! j = s" by (auto simp: in_set_conv_nth)
    then show "region_frames r \<inter> region_frames s = {}"
      using assms unfolding memory_map_wf_def
      by (metis Suc_less_eq length_Cons nat.simps(3) nth_Cons_0 nth_Cons_Suc zero_less_Suc)
  qed
qed (use assms in \<open>simp_all add: memory_map_wf_def\<close>)

lemma create_frame_iter_Cons:
  "memory_map_wf (r # ms) \<Longrightarrow> create_frame_iter (r # ms) =
   (if md_ty r = CONVENTIONAL
    then map (\<lambda>v. unat (phys_start r) div 4096 + v) [0..<unat (page_count r)] else []) @ create_frame_iter ms"
  using region_frame_list [of r] memory_map_wf_Cons(3,4) [of r ms]
  by (auto simp: create_frame_iter_def simp del: map_eq_conv)

lemma create_frame_iter_subset:
  "memory_map_wf ms \<Longrightarrow> set (create_frame_iter ms) \<subseteq> (\<Union>r \<in> set ms. region_frames r)"
proof (induction ms)
  case Nil
  then show ?case by (simp add: create_frame_iter_def)
next
  case (Cons r ms)
  then have "set (create_frame_iter ms) \<subseteq> (\<Union>r \<in> set ms. region_frames r)"
    using memory_map_wf_Cons(1) by blast
  with Cons.prems show ?case by (auto simp: create_frame_iter_Cons region_frames_def)
qed

lemma create_frame_iter_distinct: "memory_map_wf ms \<Longrightarrow> distinct (create_frame_iter ms)"
proof (induction ms)
  case Nil
  then show ?case by (simp add: create_frame_iter_def)
next
  case (Cons r ms)
  note wf = memory_map_wf_Cons [OF Cons.prems]
  have "region_frames r \<inter> set (create_frame_iter ms) = {}"
    using wf(2) create_frame_iter_subset [OF wf(1)] by blast
  moreover have "set (map (\<lambda>v. unat (phys_start r) div 4096 + v) [0..<unat (page_count r)]) = region_frames r"
    by (auto simp: region_frames_def image_iff)
  ultimately show ?case
    using Cons.IH [OF wf(1)] by (auto simp: create_frame_iter_Cons [OF Cons.prems] distinct_map inj_on_def)
qed

lemma frame_alloc_init_wf: "memory_map_wf ms \<Longrightarrow> fa_wf (frame_alloc_init ms sz)"
  by (simp add: fa_wf_def frame_alloc_init_def create_frame_iter_distinct)

end
