(* ===== verification/Elf_Map.thy ===== *)
theory Elf_Map
  imports Mem_Frames
begin

text \<open>
  \<open>pkg/elf/src/lib.rs\<close>, the mapping of page ranges. A page is its number, the virtual address
  divided by 4096. The page tables are those of the crate \<open>x86_64\<close>: the record \<open>mapper\<close> has the
  methods of its trait \<open>Mapper\<close> that the code calls, on the state \<open>'w\<close> of the paging structures
  and the state \<open>'a\<close> of the frame allocator that \<open>map_to\<close> takes frames for new tables from.
  \<open>mapper_laws\<close> states the documented behaviour of the methods in terms of the translation
  \<open>\<alpha>\<close> that the structures represent. \<open>trace\<close> is whether the log level evaluates \<open>trace!\<close>.
\<close>

type_synonym page = nat
type_synonym PageTableFlags = u64

section \<open>The crate's interface\<close>

datatype MapToError = FrameAllocationFailed | ParentEntryHugePage | PageAlreadyMapped frame
datatype UnmapError = UnmapHugePage | PageNotMapped | InvalidFrameAddress nat

record ('w, 'a) mapper =
  map_to :: "page \<Rightarrow> frame \<Rightarrow> PageTableFlags \<Rightarrow> 'w \<Rightarrow> 'a \<Rightarrow> (MapToError, unit) outcome \<times> 'w \<times> 'a"
  unmap :: "page \<Rightarrow> 'w \<Rightarrow> (UnmapError, frame) outcome \<times> 'w"
  translate_page :: "page \<Rightarrow> 'w \<Rightarrow> frame option"
  clean_up_tables :: "'w \<Rightarrow> 'a \<Rightarrow> 'w \<times> 'a"

definition PRESENT :: PageTableFlags where "PRESENT = 0x1"
definition WRITABLE :: PageTableFlags where "WRITABLE = 0x2"
definition USER_ACCESSIBLE :: PageTableFlags where "USER_ACCESSIBLE = 0x4"
definition NO_EXECUTE :: PageTableFlags where "NO_EXECUTE = 0x8000000000000000"

definition PAGE_SIZE :: nat where "PAGE_SIZE = 4096"

definition containing_address :: "u64 \<Rightarrow> page" where
  "containing_address addr = unat addr div 4096"

definition start_address :: "page \<Rightarrow> u64" where
  "start_address p = word_of_nat (p * 4096)"

definition align_up :: "u64 \<Rightarrow> u64" where
  "align_up addr = (if addr AND 0xFFF = 0 then addr else (addr OR 0xFFF) + 1)"

text \<open>\<open>VirtAddr::new\<close> panics on an address that is not canonical.\<close>

definition canonical :: "u64 \<Rightarrow> bool" where
  "canonical addr \<longleftrightarrow> addr < 0x800000000000 \<or> 0xFFFF800000000000 \<le> addr"

section \<open>map_range, map_pages\<close>

fun map_loop ::
  "('w, 'a) mapper \<Rightarrow> ('a \<Rightarrow> frame option \<times> 'a) \<Rightarrow> PageTableFlags \<Rightarrow> page list \<Rightarrow> 'w \<Rightarrow> 'a \<Rightarrow>
   (MapToError, unit) outcome \<times> 'w \<times> 'a" where
  "map_loop M alloc flags [] w a = (Ok (), w, a)"
| "map_loop M alloc flags (p # ps) w a =
     (case alloc a of
        (None, a1) \<Rightarrow> (Err FrameAllocationFailed, w, a1)
      | (Some f, a1) \<Rightarrow>
          (case map_to M p f flags w a1 of
             (Ok _, w2, a2) \<Rightarrow> map_loop M alloc flags ps w2 a2
           | (r, w2, a2) \<Rightarrow> (r, w2, a2)))"

definition range_flags :: "bool \<Rightarrow> PageTableFlags" where
  "range_flags user_access =
     (let flags = PRESENT OR WRITABLE in if user_access then flags OR USER_ACCESSIBLE else flags)"

definition map_range ::
  "('w, 'a) mapper \<Rightarrow> ('a \<Rightarrow> frame option \<times> 'a) \<Rightarrow> page \<Rightarrow> page \<Rightarrow> bool \<Rightarrow> 'w \<Rightarrow> 'a \<Rightarrow>
   (MapToError, unit) outcome \<times> 'w \<times> 'a" where
  "map_range M alloc lo hi user_access w a =
     map_loop M alloc (range_flags user_access) [lo..<Suc hi] w a"

text \<open>
  \<open>Page::range_inclusive(range_start, range_end - 1)\<close> is empty for \<open>pages = 0\<close>; the release build
  has no \<open>debug_assert!\<close> against it, and the \<open>unwrap\<close> in the last \<open>trace!\<close> then panics when the page
  is not mapped.
\<close>

definition map_pages ::
  "bool \<Rightarrow> ('w, 'a) mapper \<Rightarrow> ('a \<Rightarrow> frame option \<times> 'a) \<Rightarrow> u64 \<Rightarrow> nat \<Rightarrow> bool \<Rightarrow> 'w \<Rightarrow> 'a \<Rightarrow>
   (MapToError, page \<times> page) outcome \<times> 'w \<times> 'a" where
  "map_pages trace M alloc addr pages user_access w a =
     (let range_start = containing_address addr; range_end = range_start + pages in
      case (if pages = 0 then (Ok (), w, a)
            else map_range M alloc range_start (range_end - 1) user_access w a) of
        (Ok _, w1, a1) \<Rightarrow>
          if trace \<and> translate_page M range_start w1 = None then (Panic, w1, a1)
          else (Ok (range_start, range_end), w1, a1)
      | (Err e, w1, a1) \<Rightarrow> (Err e, w1, a1)
      | (Panic, w1, a1) \<Rightarrow> (Panic, w1, a1)
      | (Hang, w1, a1) \<Rightarrow> (Hang, w1, a1))"

section \<open>unmap_range, unmap_pages\<close>

fun unmap_loop ::
  "('w, 'a) mapper \<Rightarrow> (frame \<Rightarrow> 'a \<Rightarrow> 'a) \<Rightarrow> bool \<Rightarrow> page list \<Rightarrow> 'w \<Rightarrow> 'a \<Rightarrow>
   (UnmapError, unit) outcome \<times> 'w \<times> 'a" where
  "unmap_loop M dealloc do_dealloc [] w a = (Ok (), w, a)"
| "unmap_loop M dealloc do_dealloc (p # ps) w a =
     (case unmap M p w of
        (Ok f, w1) \<Rightarrow> unmap_loop M dealloc do_dealloc ps w1 (if do_dealloc then dealloc f a else a)
      | (Err e, w1) \<Rightarrow> (Err e, w1, a)
      | (Panic, w1) \<Rightarrow> (Panic, w1, a)
      | (Hang, w1) \<Rightarrow> (Hang, w1, a))"

definition unmap_range ::
  "('w, 'a) mapper \<Rightarrow> (frame \<Rightarrow> 'a \<Rightarrow> 'a) \<Rightarrow> page \<Rightarrow> page \<Rightarrow> bool \<Rightarrow> 'w \<Rightarrow> 'a \<Rightarrow>
   (UnmapError, unit) outcome \<times> 'w \<times> 'a" where
  "unmap_range M dealloc lo hi do_dealloc w a =
     unmap_loop M dealloc do_dealloc [lo..<Suc hi] w a"

definition unmap_pages ::
  "('w, 'a) mapper \<Rightarrow> (frame \<Rightarrow> 'a \<Rightarrow> 'a) \<Rightarrow> u64 \<Rightarrow> nat \<Rightarrow> bool \<Rightarrow> 'w \<Rightarrow> 'a \<Rightarrow>
   (UnmapError, unit) outcome \<times> 'w \<times> 'a" where
  "unmap_pages M dealloc addr pages do_dealloc w a =
     (let first = containing_address addr in
      if pages = 0 then (Ok (), w, a)
      else unmap_range M dealloc first (first + pages - 1) do_dealloc w a)"

section \<open>What the crate promises\<close>

text \<open>
  \<open>\<alpha> w p\<close> is the frame and the flags that page \<open>p\<close> is mapped to. \<open>map_to\<close> maps a page that is not
  mapped, takes frames for tables from the allocator, and changes no other translation; \<open>unmap\<close>
  removes the translation of a mapped page; when they fail, the translation stays.
\<close>

definition mapper_laws ::
  "('w, 'a) mapper \<Rightarrow> ('w \<Rightarrow> page \<rightharpoonup> frame \<times> PageTableFlags) \<Rightarrow> ('a \<Rightarrow> frame set) \<Rightarrow> ('a \<Rightarrow> bool) \<Rightarrow> bool" where
  "mapper_laws M \<alpha> free awf \<longleftrightarrow>
     (\<forall>p f fl w a r w' a'. map_to M p f fl w a = (r, w', a') \<longrightarrow> awf a \<longrightarrow>
        awf a' \<and> free a' \<subseteq> free a \<and>
        (case r of Ok _ \<Rightarrow> \<alpha> w p = None \<and> \<alpha> w' = (\<alpha> w)(p \<mapsto> (f, fl))
         | Err _ \<Rightarrow> \<alpha> w' = \<alpha> w | _ \<Rightarrow> False)) \<and>
     (\<forall>p w r w'. unmap M p w = (r, w') \<longrightarrow>
        (case r of Ok f \<Rightarrow> (\<exists>fl. \<alpha> w p = Some (f, fl)) \<and> \<alpha> w' = (\<alpha> w)(p := None)
         | Err _ \<Rightarrow> \<alpha> w p = None \<and> \<alpha> w' = \<alpha> w | _ \<Rightarrow> False)) \<and>
     (\<forall>p w. translate_page M p w = map_option fst (\<alpha> w p))"

lemma map_to_law:
  assumes "mapper_laws M \<alpha> free awf" "map_to M p f fl w a = (r, w', a')" "awf a"
  shows "awf a'" "free a' \<subseteq> free a" "r = Ok () \<Longrightarrow> \<alpha> w p = None" "r = Ok () \<Longrightarrow> \<alpha> w' = (\<alpha> w)(p \<mapsto> (f, fl))"
    "r = Err e \<Longrightarrow> \<alpha> w' = \<alpha> w" "r \<noteq> Panic" "r \<noteq> Hang"
proof -
  from assms(1) have "\<forall>p f fl w a r w' a'. map_to M p f fl w a = (r, w', a') \<longrightarrow> awf a \<longrightarrow>
        awf a' \<and> free a' \<subseteq> free a \<and>
        (case r of Ok _ \<Rightarrow> \<alpha> w p = None \<and> \<alpha> w' = (\<alpha> w)(p \<mapsto> (f, fl))
         | Err _ \<Rightarrow> \<alpha> w' = \<alpha> w | _ \<Rightarrow> False)"
    unfolding mapper_laws_def by (elim conjE)
  with assms(2,3) have *: "awf a' \<and> free a' \<subseteq> free a \<and>
        (case r of Ok _ \<Rightarrow> \<alpha> w p = None \<and> \<alpha> w' = (\<alpha> w)(p \<mapsto> (f, fl))
         | Err _ \<Rightarrow> \<alpha> w' = \<alpha> w | _ \<Rightarrow> False)" by blast
  then show "awf a'" "free a' \<subseteq> free a" by blast+
  from * show "r = Ok () \<Longrightarrow> \<alpha> w p = None" "r = Ok () \<Longrightarrow> \<alpha> w' = (\<alpha> w)(p \<mapsto> (f, fl))"
    "r = Err e \<Longrightarrow> \<alpha> w' = \<alpha> w" "r \<noteq> Panic" "r \<noteq> Hang"
    by (auto split: outcome.splits)
qed

lemma unmap_law:
  assumes "mapper_laws M \<alpha> free awf" "unmap M p w = (r, w')"
  shows "r = Ok f \<Longrightarrow> \<exists>fl. \<alpha> w p = Some (f, fl)" "r = Ok f \<Longrightarrow> \<alpha> w' = (\<alpha> w)(p := None)"
    "r = Err e \<Longrightarrow> \<alpha> w p = None" "r = Err e \<Longrightarrow> \<alpha> w' = \<alpha> w" "r \<noteq> Panic" "r \<noteq> Hang"
proof -
  from assms(1) have "\<forall>p w r w'. unmap M p w = (r, w') \<longrightarrow>
        (case r of Ok f \<Rightarrow> (\<exists>fl. \<alpha> w p = Some (f, fl)) \<and> \<alpha> w' = (\<alpha> w)(p := None)
         | Err _ \<Rightarrow> \<alpha> w p = None \<and> \<alpha> w' = \<alpha> w | _ \<Rightarrow> False)"
    unfolding mapper_laws_def by (elim conjE)
  with assms(2) have *: "case r of Ok f \<Rightarrow> (\<exists>fl. \<alpha> w p = Some (f, fl)) \<and> \<alpha> w' = (\<alpha> w)(p := None)
         | Err _ \<Rightarrow> \<alpha> w p = None \<and> \<alpha> w' = \<alpha> w | _ \<Rightarrow> False" by blast
  then show "r = Ok f \<Longrightarrow> \<exists>fl. \<alpha> w p = Some (f, fl)" "r = Ok f \<Longrightarrow> \<alpha> w' = (\<alpha> w)(p := None)"
    "r = Err e \<Longrightarrow> \<alpha> w p = None" "r = Err e \<Longrightarrow> \<alpha> w' = \<alpha> w" "r \<noteq> Panic" "r \<noteq> Hang"
    by (auto split: outcome.splits)
qed

lemma translate_law: "mapper_laws M \<alpha> free awf \<Longrightarrow> translate_page M p w = map_option fst (\<alpha> w p)"
  unfolding mapper_laws_def by (elim conjE) blast

text \<open>The allocator is well formed, and no frame that is mapped is free.\<close>

definition frames_ok ::
  "('a \<Rightarrow> frame set) \<Rightarrow> ('a \<Rightarrow> bool) \<Rightarrow> ('w \<Rightarrow> page \<rightharpoonup> frame \<times> PageTableFlags) \<Rightarrow> 'w \<Rightarrow> 'a \<Rightarrow> bool" where
  "frames_ok free awf \<alpha> w a \<longleftrightarrow> awf a \<and> (\<forall>p f fl. \<alpha> w p = Some (f, fl) \<longrightarrow> f \<notin> free a)"

text \<open>The frames of the pages \<open>A\<close> are mapped nowhere else.\<close>

definition private_pages :: "(page \<rightharpoonup> frame \<times> PageTableFlags) \<Rightarrow> page set \<Rightarrow> bool" where
  "private_pages v A \<longleftrightarrow> (\<forall>p \<in> A. \<forall>q. map_option fst (v p) = map_option fst (v q) \<longrightarrow> p = q)"

lemma private_pagesD:
  "private_pages v A \<Longrightarrow> p \<in> A \<Longrightarrow> map_option fst (v p) = map_option fst (v q) \<Longrightarrow> p = q"
  unfolding private_pages_def by blast

lemma private_pages_extend:
  assumes "private_pages v A" "A \<subseteq> dom v" "\<forall>p. p \<notin> B \<longrightarrow> v' p = v p" "A \<inter> B = {}"
    and "inj_on (\<lambda>p. map_option fst (v' p)) B" "\<forall>p \<in> B. \<exists>f \<in> F. \<exists>fl. v' p = Some (f, fl)"
    and "\<forall>p f fl. v p = Some (f, fl) \<longrightarrow> f \<notin> F"
  shows "private_pages v' (A \<union> B)"
  unfolding private_pages_def
proof (intro ballI allI impI)
  fix p q assume p: "p \<in> A \<union> B" and eq: "map_option fst (v' p) = map_option fst (v' q)"
  have cross: False if x: "x \<in> B" and y: "y \<notin> B" and e: "map_option fst (v' x) = map_option fst (v' y)" for x y
  proof -
    obtain f fl where f: "f \<in> F" "v' x = Some (f, fl)" using assms(6) x by blast
    then obtain gl where "v y = Some (f, gl)" using e assms(3) y by (cases "v y") auto
    with assms(7) f(1) show False by blast
  qed
  show "p = q"
  proof (cases "p \<in> B")
    case True
    with cross [of p q] eq have "q \<in> B" by auto
    with True eq assms(5) show ?thesis by (auto dest: inj_onD)
  next
    case False
    with cross [of q p] eq have "q \<notin> B" by auto
    with False p eq assms(1,3) show ?thesis unfolding private_pages_def by auto
  qed
qed

section \<open>What the loops do\<close>

context frame_allocator
begin

text \<open>
  A run of the loop maps the pages in order to frames that were free, each to another one, until
  it is done or fails; the pages it mapped were not mapped before.
\<close>

lemma map_loop_spec:
  assumes "mapper_laws M \<alpha> free wf" "wf a" "distinct ps" "map_loop M alloc fl ps w a = (r, w', a')"
  shows "\<exists>fs k. length fs = k \<and> k \<le> length ps \<and> distinct fs \<and> set fs \<subseteq> free a \<and>
    \<alpha> w' = \<alpha> w ++ map_of (zip (take k ps) (map (\<lambda>f. (f, fl)) fs)) \<and>
    (\<forall>p \<in> set (take k ps). \<alpha> w p = None) \<and>
    wf a' \<and> free a' \<subseteq> free a - set fs \<and> (r = Ok () \<longleftrightarrow> k = length ps) \<and> r \<noteq> Panic \<and> r \<noteq> Hang"
  using assms(2-4)
proof (induction ps arbitrary: w a)
  case Nil
  then show ?case by (intro exI [of _ "[]"]) auto
next
  case (Cons p ps)
  obtain fo a1 where al: "alloc a = (fo, a1)" by (cases "alloc a")
  note s = alloc_step [OF Cons.prems(1) al]
  show ?case
  proof (cases fo)
    case None
    with al Cons.prems(3) s show ?thesis
      by (intro exI [of _ "[]"]) auto
  next
    case (Some f)
    obtain r1 w2 a2 where mt: "map_to M p f fl w a1 = (r1, w2, a2)" by (cases "map_to M p f fl w a1")
    have wf1: "wf a1" using s by blast
    note law = map_to_law [OF assms(1) mt wf1]
    show ?thesis
    proof (cases r1)
      case (Ok u)
      then have ok: "\<alpha> w p = None" "\<alpha> w2 = (\<alpha> w)(p \<mapsto> (f, fl))" using law(3,4) by auto
      have "map_loop M alloc fl ps w2 a2 = (r, w', a')"
        using Cons.prems(3) al mt Some Ok by simp
      from Cons.IH [OF law(1) _ this] Cons.prems(2) obtain fs where fs:
        "length fs \<le> length ps" "distinct fs" "set fs \<subseteq> free a2"
        "\<alpha> w' = \<alpha> w2 ++ map_of (zip (take (length fs) ps) (map (\<lambda>f. (f, fl)) fs))"
        "\<forall>q \<in> set (take (length fs) ps). \<alpha> w2 q = None"
        "wf a'" "free a' \<subseteq> free a2 - set fs" "r = Ok () \<longleftrightarrow> length fs = length ps" "r \<noteq> Panic" "r \<noteq> Hang"
        by auto
      have fr: "f \<in> free a" "free a2 \<subseteq> free a - {f}" using s Some law(2) by auto
      have p: "p \<notin> set (take (length fs) ps)" using Cons.prems(2) by (auto dest: in_set_takeD)
      then have "p \<notin> dom (map_of (zip (take (length fs) ps) (map (\<lambda>f. (f, fl)) fs)))"
        using fs(1) by (simp add: dom_map_of_zip)
      then have tr: "\<alpha> w' = \<alpha> w ++ map_of (zip (take (Suc (length fs)) (p # ps)) (map (\<lambda>f. (f, fl)) (f # fs)))"
        by (simp add: fs(4) ok(2) map_add_upd_left)
      have new: "\<forall>q \<in> set (take (Suc (length fs)) (p # ps)). \<alpha> w q = None"
      proof
        fix q assume "q \<in> set (take (Suc (length fs)) (p # ps))"
        then have "q = p \<or> q \<in> set (take (length fs) ps)" by auto
        moreover have "\<alpha> w q = None" if "q \<in> set (take (length fs) ps)"
          using fs(5) ok(2) p that by (metis fun_upd_apply)
        ultimately show "\<alpha> w q = None" using ok(1) by blast
      qed
      show ?thesis
        by (rule exI [of _ "f # fs"], rule exI [of _ "Suc (length fs)"], intro conjI tr new)
          (use fs(1-3,6-10) fr in auto)
    next
      case (Err e)
      with al mt Some Cons.prems(3) law(1,2) law(5) [of e] s show ?thesis
        by (intro exI [of _ "[]"]) auto
    qed (use law in auto)
  qed
qed

text \<open>
  Unmapping a range that is mapped, injectively and to frames that are not free, succeeds, removes
  exactly these translations, and gives the frames back.
\<close>

lemma unmap_loop_spec:
  assumes "mapper_laws M \<alpha> free wf" "wf a" "distinct ps" "length fs = length ps" "distinct fs"
    and "\<forall>i < length ps. \<exists>fl. \<alpha> w (ps ! i) = Some (fs ! i, fl)" "set fs \<inter> free a = {}"
  shows "\<exists>w' a'. unmap_loop M dealloc True ps w a = (Ok (), w', a') \<and>
    \<alpha> w' = (\<alpha> w) |` (- set ps) \<and> free a' = free a \<union> set fs \<and> wf a'"
  using assms(2-7)
proof (induction ps arbitrary: w a fs)
  case Nil
  then show ?case by (auto simp: restrict_map_def)
next
  case (Cons p ps)
  then obtain f gs where fs: "fs = f # gs" by (metis length_Suc_conv)
  obtain fl where m: "\<alpha> w p = Some (f, fl)" using Cons.prems(5) fs by force
  obtain r w1 where u: "unmap M p w = (r, w1)" by (cases "unmap M p w")
  note law = unmap_law [OF assms(1) u]
  have r: "r = Ok f"
  proof (cases r)
    case (Ok g)
    with law(1) m show ?thesis by auto
  qed (use law m in auto)
  then have w1: "\<alpha> w1 = (\<alpha> w)(p := None)" using law(2) by blast
  have d: "free (dealloc f a) = insert f (free a)" "wf (dealloc f a)"
    using dealloc_free [of a f] Cons.prems(1,6) fs by auto
  have "\<exists>w' a'. unmap_loop M dealloc True ps w1 (dealloc f a) = (Ok (), w', a') \<and>
      \<alpha> w' = (\<alpha> w1) |` (- set ps) \<and> free a' = free (dealloc f a) \<union> set gs \<and> wf a'"
  proof (rule Cons.IH)
    show "\<forall>i < length ps. \<exists>fl. \<alpha> w1 (ps ! i) = Some (gs ! i, fl)"
    proof (intro allI impI)
      fix i assume i: "i < length ps"
      then have "ps ! i \<noteq> p" using Cons.prems(2) by (auto simp: in_set_conv_nth)
      moreover have "\<exists>fl. \<alpha> w ((p # ps) ! Suc i) = Some (fs ! Suc i, fl)"
        using Cons.prems(5) i by (metis Suc_less_eq length_Cons)
      ultimately show "\<exists>fl. \<alpha> w1 (ps ! i) = Some (gs ! i, fl)" using w1 fs by simp
    qed
  qed (use Cons.prems fs d in auto)
  then obtain w' a' where "unmap_loop M dealloc True ps w1 (dealloc f a) = (Ok (), w', a')"
    "\<alpha> w' = (\<alpha> w1) |` (- set ps)" "free a' = free (dealloc f a) \<union> set gs" "wf a'" by blast
  with u r w1 d fs show ?case
    by (auto simp: restrict_map_def fun_eq_iff)
qed

text \<open>
  \<open>map_pages\<close> that succeeds has mapped the pages of the range, none of which was mapped, to as many
  free frames; one that fails has mapped a part of them. Either way no other translation changes.
\<close>

lemma map_pages_cases:
  assumes "mapper_laws M \<alpha> free wf" "wf a" "map_pages trace M alloc addr n user w a = (r, w', a')"
  defines "lo \<equiv> containing_address addr"
  shows "\<exists>fs. length fs \<le> n \<and> distinct fs \<and> set fs \<subseteq> free a \<and>
    \<alpha> w' = \<alpha> w ++ map_of (zip (take (length fs) [lo..<lo + n]) (map (\<lambda>f. (f, range_flags user)) fs)) \<and>
    (\<forall>p \<in> set (take (length fs) [lo..<lo + n]). \<alpha> w p = None) \<and>
    wf a' \<and> free a' \<subseteq> free a - set fs \<and> r \<noteq> Hang \<and> (r = Panic \<longrightarrow> n = 0) \<and>
    (\<forall>lo' hi. r = Ok (lo', hi) \<longrightarrow> lo' = lo \<and> hi = lo + n \<and> length fs = n)"
proof (cases "n = 0")
  case True
  then show ?thesis
    using assms(2,3) by (intro exI [of _ "[]"]) (auto simp: map_pages_def Let_def lo_def split: if_splits)
next
  case False
  obtain r1 w1 a1 where ml: "map_loop M alloc (range_flags user) [lo..<lo + n] w a = (r1, w1, a1)"
    by (metis prod_cases3)
  from False have "Suc (lo + n - 1) = lo + n" by simp
  then have mr: "map_range M alloc lo (lo + n - 1) user w a = (r1, w1, a1)"
    using ml by (simp only: map_range_def)
  obtain fs where fs: "length fs \<le> n" "distinct fs" "set fs \<subseteq> free a"
    "\<alpha> w1 = \<alpha> w ++ map_of (zip (take (length fs) [lo..<lo + n]) (map (\<lambda>f. (f, range_flags user)) fs))"
    "\<forall>p \<in> set (take (length fs) [lo..<lo + n]). \<alpha> w p = None"
    "wf a1" "free a1 \<subseteq> free a - set fs" "r1 = Ok () \<longleftrightarrow> length fs = n" "r1 \<noteq> Panic" "r1 \<noteq> Hang"
    using map_loop_spec [OF assms(1,2) _ ml] by auto
  have tr: "translate_page M lo w1 \<noteq> None" if "r1 = Ok ()"
  proof -
    have "lo \<in> set [lo..<lo + n]" using False by simp
    with that fs(1,4,8) have "lo \<in> dom (\<alpha> w1)" by (simp add: dom_map_of_zip)
    then show ?thesis using translate_law [OF assms(1)] by auto
  qed
  have w: "w' = w1" "a' = a1" and r: "r = (case r1 of Ok _ \<Rightarrow> Ok (lo, lo + n) | Err e \<Rightarrow> Err e | _ \<Rightarrow> Panic)"
    using assms(3) False mr tr fs(9,10)
    by (auto simp: map_pages_def Let_def lo_def [symmetric] split: outcome.splits if_splits)
  show ?thesis
    unfolding w
    by (rule exI [of _ fs], intro conjI fs(1-7)) (use r fs(8-10) in \<open>auto split: outcome.splits\<close>)
qed

lemma map_pages_frames_ok:
  assumes "mapper_laws M \<alpha> free wf" "frames_ok free wf \<alpha> w a"
    and "map_pages trace M alloc addr n user w a = (r, w', a')"
  shows "frames_ok free wf \<alpha> w' a'" "\<alpha> w \<subseteq>\<^sub>m \<alpha> w'" "r \<noteq> Hang" "0 < n \<Longrightarrow> r \<noteq> Panic"
    "p \<notin> {containing_address addr..<containing_address addr + n} \<Longrightarrow> \<alpha> w' p = \<alpha> w p"
proof -
  let ?ps = "[containing_address addr..<containing_address addr + n]"
  obtain fs where fs: "length fs \<le> n" "set fs \<subseteq> free a"
    "\<alpha> w' = \<alpha> w ++ map_of (zip (take (length fs) ?ps) (map (\<lambda>f. (f, range_flags user)) fs))"
    "\<forall>p \<in> set (take (length fs) ?ps). \<alpha> w p = None"
    "wf a'" "free a' \<subseteq> free a - set fs" "r \<noteq> Hang" "r = Panic \<longrightarrow> n = 0"
    using map_pages_cases [OF assms(1) _ assms(3)] assms(2) by (auto simp: frames_ok_def)
  let ?m = "map_of (zip (take (length fs) ?ps) (map (\<lambda>f. (f, range_flags user)) fs))"
  have dom: "dom ?m = set (take (length fs) ?ps)" using fs(1) by (simp add: dom_map_of_zip)
  have new: "f \<in> set fs" if "?m p = Some (f, fl)" for p f fl
    using map_of_SomeD [OF that] by (auto dest: set_zip_rightD)
  show "frames_ok free wf \<alpha> w' a'"
    using assms(2) fs(3,5,6) new by (auto simp: frames_ok_def map_add_Some_iff) blast+
  show "\<alpha> w \<subseteq>\<^sub>m \<alpha> w'"
    unfolding map_le_def
  proof
    fix p assume "p \<in> dom (\<alpha> w)"
    then have "p \<notin> dom ?m" using fs(4) dom by auto
    then show "\<alpha> w p = \<alpha> w' p" using fs(3) by (simp add: map_add_dom_app_simps)
  qed
  show "r \<noteq> Hang" "0 < n \<Longrightarrow> r \<noteq> Panic" using fs(7,8) by auto
  show "\<alpha> w' p = \<alpha> w p" if "p \<notin> {containing_address addr..<containing_address addr + n}"
  proof -
    have "p \<notin> dom ?m" unfolding dom using that by (auto dest: in_set_takeD)
    then show ?thesis by (simp add: fs(3) map_add_dom_app_simps)
  qed
qed

lemma map_pages_Ok:
  assumes "mapper_laws M \<alpha> free wf" "wf a" "map_pages trace M alloc addr n user w a = (Ok (lo, hi), w', a')"
  shows "lo = containing_address addr" "hi = lo + n"
    "\<exists>fs. length fs = n \<and> distinct fs \<and> set fs \<subseteq> free a \<and>
      (\<forall>i < n. \<alpha> w (lo + i) = None \<and> \<alpha> w' (lo + i) = Some (fs ! i, range_flags user)) \<and>
      free a' \<subseteq> free a - set fs"
proof -
  let ?lo = "containing_address addr"
  obtain fs where fs: "lo = ?lo" "hi = ?lo + n" "length fs = n" "distinct fs" "set fs \<subseteq> free a"
    "\<alpha> w' = \<alpha> w ++ map_of (zip [?lo..<?lo + n] (map (\<lambda>f. (f, range_flags user)) fs))"
    "\<forall>p \<in> set [?lo..<?lo + n]. \<alpha> w p = None" "free a' \<subseteq> free a - set fs"
    using map_pages_cases [OF assms] by auto
  show "lo = ?lo" "hi = lo + n" using fs(1,2) by auto
  have "\<alpha> w' (lo + i) = Some (fs ! i, range_flags user)" if "i < n" for i
  proof -
    have "map_of (zip [?lo..<?lo + n] (map (\<lambda>f. (f, range_flags user)) fs)) ([?lo..<?lo + n] ! i) =
        Some (map (\<lambda>f. (f, range_flags user)) fs ! i)"
      using that fs(3) by (intro map_of_zip_nth) auto
    then show ?thesis using that fs(1,3,6) by (simp add: map_add_Some_iff)
  qed
  then show "\<exists>fs. length fs = n \<and> distinct fs \<and> set fs \<subseteq> free a \<and>
      (\<forall>i < n. \<alpha> w (lo + i) = None \<and> \<alpha> w' (lo + i) = Some (fs ! i, range_flags user)) \<and>
      free a' \<subseteq> free a - set fs"
    using fs by (intro exI [of _ fs]) auto
qed

lemma map_pages_private:
  assumes "mapper_laws M \<alpha> free wf" "frames_ok free wf \<alpha> w a"
    and "map_pages trace M alloc addr n user w a = (Ok (lo, hi), w', a')"
  shows "private_pages (\<alpha> w') {lo..<lo + n}"
proof -
  have "wf a" using assms(2) by (simp add: frames_ok_def)
  note mp = map_pages_Ok [OF assms(1) this assms(3)]
  obtain fs where fs: "length fs = n" "distinct fs" "set fs \<subseteq> free a"
      "\<forall>i < n. \<alpha> w' (lo + i) = Some (fs ! i, range_flags user)"
    using mp(3) by blast
  have new: "\<alpha> w' p = Some (fs ! (p - lo), range_flags user)" if "p \<in> {lo..<lo + n}" for p
    using fs(4) [rule_format, of "p - lo"] that by auto
  have "private_pages (\<alpha> w') ({} \<union> {lo..<lo + n})"
  proof (rule private_pages_extend)
    show "\<forall>p. p \<notin> {lo..<lo + n} \<longrightarrow> \<alpha> w' p = \<alpha> w p"
      using map_pages_frames_ok(5) [OF assms] by (simp add: mp(1))
    show "inj_on (\<lambda>p. map_option fst (\<alpha> w' p)) {lo..<lo + n}"
      using new fs(1,2) by (auto simp: inj_on_def nth_eq_iff_index_eq)
    have "fs ! (p - lo) \<in> free a" if "p \<in> {lo..<lo + n}" for p
      using fs(1) that by (intro subsetD [OF fs(3)] nth_mem) auto
    then show "\<forall>p \<in> {lo..<lo + n}. \<exists>f \<in> free a. \<exists>fl. \<alpha> w' p = Some (f, fl)" using new by auto
    show "\<forall>p f fl. \<alpha> w p = Some (f, fl) \<longrightarrow> f \<notin> free a" using assms(2) by (simp add: frames_ok_def)
  qed (simp_all add: private_pages_def)
  then show ?thesis by simp
qed

text \<open>Unmapping pages that are all mapped, to different frames.\<close>

lemma unmap_pages_Ok:
  fixes addr :: u64
  assumes "mapper_laws M \<alpha> free wf" "frames_ok free wf \<alpha> w a"
  defines "lo \<equiv> containing_address addr"
  assumes fs: "length fs = n" "distinct fs" "\<forall>i < n. \<exists>fl. \<alpha> w (lo + i) = Some (fs ! i, fl)"
  shows "\<exists>w' a'. unmap_pages M dealloc addr n True w a = (Ok (), w', a') \<and>
    \<alpha> w' = (\<alpha> w) |` (- {lo..<lo + n}) \<and> free a' = free a \<union> set fs \<and> wf a'"
proof (cases "n = 0")
  case True
  then show ?thesis using assms(2) fs(1) by (auto simp: unmap_pages_def frames_ok_def restrict_map_def)
next
  case False
  then have "Suc (lo + n - 1) = lo + n" by simp
  then have "unmap_pages M dealloc addr n True w a = unmap_loop M dealloc True [lo..<lo + n] w a"
    using False by (simp only: unmap_pages_def unmap_range_def Let_def lo_def if_False)
  moreover have "set fs \<inter> free a = {}"
    using fs(1,3) assms(2) by (fastforce simp: frames_ok_def in_set_conv_nth)
  ultimately show ?thesis
    using unmap_loop_spec [OF assms(1), of a "[lo..<lo + n]" fs w] assms(2) fs
    by (simp add: frames_ok_def)
qed

lemma unmap_pages_private:
  fixes n :: nat
    and addr :: u64
  assumes laws: "mapper_laws M \<alpha> free wf" and ok: "frames_ok free wf \<alpha> w a"
  defines "A \<equiv> {containing_address addr..<containing_address addr + n}"
  assumes dom: "A \<subseteq> dom (\<alpha> w)" and priv: "private_pages (\<alpha> w) A"
  shows "\<exists>w' a'. unmap_pages M dealloc addr n True w a = (Ok (), w', a') \<and>
    \<alpha> w' = (\<alpha> w) |` (- A) \<and> frames_ok free wf \<alpha> w' a'"
proof -
  let ?lo = "containing_address addr"
  define fs where "fs = map (\<lambda>i. fst (the (\<alpha> w (?lo + i)))) [0..<n]"
  have fs: "\<exists>fl. \<alpha> w (?lo + i) = Some (fs ! i, fl)" if "i < n" for i
  proof -
    have "?lo + i \<in> A" using that by (simp add: A_def)
    with dom have "?lo + i \<in> dom (\<alpha> w)" by blast
    then show ?thesis using that by (auto simp: fs_def)
  qed
  have pg: "?lo + i = q" if "i < n" "map_option fst (\<alpha> w q) = Some (fs ! i)" for i q
    using private_pagesD [OF priv, of "?lo + i" q] fs [OF that(1)] that by (auto simp: A_def)
  have "distinct fs"
    unfolding distinct_conv_nth
  proof (intro allI impI)
    fix i j assume ij: "i < length fs" "j < length fs" "i \<noteq> j"
    then have "i < n" "j < n" by (simp_all add: fs_def)
    then show "fs ! i \<noteq> fs ! j" using pg [of i "?lo + j"] fs [of j] ij(3) by auto
  qed
  then obtain w' a' where un: "unmap_pages M dealloc addr n True w a = (Ok (), w', a')"
    and w': "\<alpha> w' = (\<alpha> w) |` (- A)" and a': "free a' = free a \<union> set fs" "wf a'"
    using unmap_pages_Ok [OF laws ok, of fs n addr] fs by (auto simp: fs_def A_def)
  have "frames_ok free wf \<alpha> w' a'"
    unfolding frames_ok_def
  proof (intro conjI allI impI)
    fix p f fl assume "\<alpha> w' p = Some (f, fl)"
    then have p: "p \<notin> A" "\<alpha> w p = Some (f, fl)" using w' by (auto simp: restrict_map_def split: if_splits)
    then have "f \<notin> free a" using ok unfolding frames_ok_def by blast
    moreover have "f \<notin> set fs"
    proof
      assume "f \<in> set fs"
      then obtain i where "i < n" "f = fs ! i" by (auto simp: in_set_conv_nth fs_def)
      with pg [of i p] p show False by (auto simp: A_def)
    qed
    ultimately show "f \<notin> free a'" by (simp add: a')
  qed (rule a'(2))
  with un w' show ?thesis by blast
qed

end

end
