(* ===== verification/Elf_Load.thy ===== *)
theory Elf_Load
  imports Elf_Map
begin

text \<open>
  \<open>pkg/elf/src/lib.rs\<close>, loading the segments of a program into new frames. An \<open>ElfFile\<close> of the
  crate \<open>xmas_elf\<close> is what its accessors return: the program headers, the entry point and the
  bytes of the image. Physical memory maps a frame and an offset in it to a byte; the code reaches
  it through the linear mapping at \<open>physical_offset\<close>.
\<close>

datatype SegmentType = SegLoad | SegOther

record ProgramHeader =
  ph_type :: "SegmentType option"
  ph_mem_size :: u64
  ph_file_size :: u64
  ph_offset :: u64
  ph_virtual_addr :: u64
  ph_is_execute :: bool
  ph_is_write :: bool

record ElfFile =
  elf_input :: "nat \<Rightarrow> u8"
  elf_program_iter :: "ProgramHeader list"
  elf_entry_point :: u64

type_synonym phys_mem = "frame \<Rightarrow> nat \<Rightarrow> u8"

text \<open>\<open>copy_nonoverlapping\<close> to the start of a frame, and \<open>write_bytes\<close> of zeros up to its end.\<close>

definition copy_to_frame :: "phys_mem \<Rightarrow> frame \<Rightarrow> (nat \<Rightarrow> u8) \<Rightarrow> nat \<Rightarrow> nat \<Rightarrow> phys_mem" where
  "copy_to_frame mem f src at count = mem(f := (\<lambda>i. if i < count then src (at + i) else mem f i))"

definition zero_frame :: "phys_mem \<Rightarrow> frame \<Rightarrow> nat \<Rightarrow> nat \<Rightarrow> phys_mem" where
  "zero_frame mem f at count = mem(f := (\<lambda>i. if at \<le> i \<and> i < at + count then 0 else mem f i))"

definition segment_flags :: "ProgramHeader \<Rightarrow> bool \<Rightarrow> PageTableFlags" where
  "segment_flags segment user_access =
     (let f0 = PRESENT;
          f1 = (if \<not> ph_is_execute segment then f0 OR NO_EXECUTE else f0);
          f2 = (if ph_is_write segment then f1 OR WRITABLE else f1) in
      if user_access then f2 OR USER_ACCESSIBLE else f2)"

text \<open>\<open>file_size - offset\<close> is a \<open>u64\<close> subtraction that wraps.\<close>

definition load_count :: "u64 \<Rightarrow> nat \<Rightarrow> nat" where
  "load_count file_size idx =
     (let offset = word_of_nat idx * 4096 in
      if file_size - offset < 4096 then unat (file_size - offset) else 4096)"

fun load_pages ::
  "('w, 'a) mapper \<Rightarrow> ('a \<Rightarrow> frame option \<times> 'a) \<Rightarrow> PageTableFlags \<Rightarrow> ElfFile \<Rightarrow> u64 \<Rightarrow> u64 \<Rightarrow> nat \<Rightarrow>
   page list \<Rightarrow> 'w \<Rightarrow> 'a \<Rightarrow> phys_mem \<Rightarrow> (MapToError, unit) outcome \<times> 'w \<times> 'a \<times> phys_mem" where
  "load_pages M alloc flags elf file_offset file_size idx [] w a mem = (Ok (), w, a, mem)"
| "load_pages M alloc flags elf file_offset file_size idx (p # ps) w a mem =
     (case alloc a of
        (None, a1) \<Rightarrow> (Err FrameAllocationFailed, w, a1, mem)
      | (Some f, a1) \<Rightarrow>
          (let count = load_count file_size idx;
               mem1 = copy_to_frame mem f (elf_input elf) (unat file_offset + idx * 4096) count in
           case map_to M p f flags w a1 of
             (Ok _, w2, a2) \<Rightarrow>
               load_pages M alloc flags elf file_offset file_size (Suc idx) ps w2 a2
                 (if count < 4096 then zero_frame mem1 f count (4096 - count) else mem1)
           | (r, w2, a2) \<Rightarrow> (r, w2, a2, mem1)))"

fun zero_pages ::
  "('w, 'a) mapper \<Rightarrow> ('a \<Rightarrow> frame option \<times> 'a) \<Rightarrow> PageTableFlags \<Rightarrow>
   page list \<Rightarrow> 'w \<Rightarrow> 'a \<Rightarrow> phys_mem \<Rightarrow> (MapToError, unit) outcome \<times> 'w \<times> 'a \<times> phys_mem" where
  "zero_pages M alloc flags [] w a mem = (Ok (), w, a, mem)"
| "zero_pages M alloc flags (p # ps) w a mem =
     (case alloc a of
        (None, a1) \<Rightarrow> (Err FrameAllocationFailed, w, a1, mem)
      | (Some f, a1) \<Rightarrow>
          (case map_to M p f flags w a1 of
             (Ok _, w2, a2) \<Rightarrow> zero_pages M alloc flags ps w2 a2 (zero_frame mem f 0 4096)
           | (r, w2, a2) \<Rightarrow> (r, w2, a2, mem)))"

definition load_segment ::
  "('w, 'a) mapper \<Rightarrow> ('a \<Rightarrow> frame option \<times> 'a) \<Rightarrow> ElfFile \<Rightarrow> ProgramHeader \<Rightarrow> bool \<Rightarrow>
   'w \<Rightarrow> 'a \<Rightarrow> phys_mem \<Rightarrow> (MapToError, page \<times> page) outcome \<times> 'w \<times> 'a \<times> phys_mem" where
  "load_segment M alloc elf segment user_access w a mem =
     (let mem_size = ph_mem_size segment;
          file_size = ph_file_size segment;
          file_offset = ph_offset segment AND NOT 0xFFF;
          virt_start_addr = ph_virtual_addr segment;
          flags = segment_flags segment user_access;
          start_page = containing_address virt_start_addr;
          end_page = containing_address (virt_start_addr + file_size - 1) in
      if \<not> (canonical virt_start_addr \<and> canonical (virt_start_addr + file_size) \<and>
           canonical (virt_start_addr + file_size - 1)) then (Panic, w, a, mem)
      else
      case load_pages M alloc flags elf file_offset file_size 0 [start_page..<Suc end_page] w a mem of
        (Ok _, w1, a1, mem1) \<Rightarrow>
          (case (if mem_size > file_size then
                   let zero_start = virt_start_addr + file_size;
                       zero_end = virt_start_addr + mem_size in
                   if \<not> (canonical zero_end \<and> canonical (align_up zero_start)) then (Panic, w1, a1, mem1)
                   else
                     zero_pages M alloc flags
                       [containing_address (align_up zero_start)..<Suc (containing_address zero_end)] w1 a1 mem1
                 else (Ok (), w1, a1, mem1)) of
             (Ok _, w2, a2, mem2) \<Rightarrow>
               if \<not> (canonical (virt_start_addr + mem_size) \<and> canonical (virt_start_addr + mem_size - 1))
               then (Panic, w2, a2, mem2)
               else (Ok (start_page, containing_address (virt_start_addr + mem_size - 1)), w2, a2, mem2)
           | (Err e, s) \<Rightarrow> (Err e, s)
           | (Panic, s) \<Rightarrow> (Panic, s)
           | (Hang, s) \<Rightarrow> (Hang, s))
      | (Err e, s) \<Rightarrow> (Err e, s)
      | (Panic, s) \<Rightarrow> (Panic, s)
      | (Hang, s) \<Rightarrow> (Hang, s))"

text \<open>
  \<open>load_elf\<close>: the iterator loads the segments of type \<open>Load\<close> in order, and \<open>collect\<close> stops at the
  first error; \<open>get_type().unwrap()\<close> panics on a header with no type.
\<close>

fun load_segments ::
  "('w, 'a) mapper \<Rightarrow> ('a \<Rightarrow> frame option \<times> 'a) \<Rightarrow> ElfFile \<Rightarrow> ProgramHeader list \<Rightarrow> bool \<Rightarrow>
   'w \<Rightarrow> 'a \<Rightarrow> phys_mem \<Rightarrow> (MapToError, (page \<times> page) list) outcome \<times> 'w \<times> 'a \<times> phys_mem" where
  "load_segments M alloc elf [] user_access w a mem = (Ok [], w, a, mem)"
| "load_segments M alloc elf (segment # segments) user_access w a mem =
     (case ph_type segment of
        None \<Rightarrow> (Panic, w, a, mem)
      | Some SegOther \<Rightarrow> load_segments M alloc elf segments user_access w a mem
      | Some SegLoad \<Rightarrow>
          (case load_segment M alloc elf segment user_access w a mem of
             (Ok r, w1, a1, mem1) \<Rightarrow>
               (case load_segments M alloc elf segments user_access w1 a1 mem1 of
                  (res, s) \<Rightarrow> (and_then res (\<lambda>rs. Ok (r # rs)), s))
           | (Err e, s) \<Rightarrow> (Err e, s)
           | (Panic, s) \<Rightarrow> (Panic, s)
           | (Hang, s) \<Rightarrow> (Hang, s)))"

definition load_elf ::
  "('w, 'a) mapper \<Rightarrow> ('a \<Rightarrow> frame option \<times> 'a) \<Rightarrow> ElfFile \<Rightarrow> bool \<Rightarrow>
   'w \<Rightarrow> 'a \<Rightarrow> phys_mem \<Rightarrow> (MapToError, (page \<times> page) list) outcome \<times> 'w \<times> 'a \<times> phys_mem" where
  "load_elf M alloc elf user_access w a mem =
     load_segments M alloc elf (elf_program_iter elf) user_access w a mem"

section \<open>What the loading loops do\<close>

text \<open>Page \<open>k\<close> of a segment: its part of the file, and zeros.\<close>

definition page_image :: "ElfFile \<Rightarrow> u64 \<Rightarrow> u64 \<Rightarrow> nat \<Rightarrow> nat \<Rightarrow> u8" where
  "page_image elf file_offset file_size k i =
     (if i < load_count file_size k then elf_input elf (unat file_offset + k * 4096 + i) else 0)"

lemma load_count_le: "load_count file_size k \<le> 4096"
  by (auto simp: load_count_def Let_def word_less_nat_alt)

lemma map_add_map_of_Cons:
  "p \<notin> set ps \<Longrightarrow> length fs = length ps \<Longrightarrow>
   m(p \<mapsto> v) ++ map_of (zip ps (map g fs)) = m ++ map_of (zip (p # ps) (v # map g fs))"
proof -
  assume "p \<notin> set ps" "length fs = length ps"
  then have "p \<notin> dom (map_of (zip ps (map g fs)))" by (simp add: dom_map_of_zip)
  then show ?thesis by (simp add: map_add_upd_left)
qed

lemma round_up_mult:
  fixes n :: nat
  shows "n mod 4096 = 0 \<Longrightarrow> (n + 4095) div 4096 * 4096 = n"
    "n mod 4096 \<noteq> 0 \<Longrightarrow> (n + 4095) div 4096 * 4096 = n - n mod 4096 + 4096"
proof -
  define q r where "q = n div 4096" and "r = n mod 4096"
  have n: "n = 4096 * q + r" and r: "r < 4096" by (simp_all add: q_def r_def)
  show "(n + 4095) div 4096 * 4096 = n" if "n mod 4096 = 0"
  proof -
    from that have "r = 0" by (simp add: r_def)
    then have "(n + 4095) div 4096 = q" using n by (intro div_nat_eqI) simp_all
    with \<open>r = 0\<close> n show ?thesis by simp
  qed
  show "(n + 4095) div 4096 * 4096 = n - n mod 4096 + 4096" if "n mod 4096 \<noteq> 0"
  proof -
    from that have "0 < r" by (simp add: r_def)
    then have "(n + 4095) div 4096 = q + 1" using n r by (intro div_nat_eqI) simp_all
    moreover have "n - r + 4096 = (q + 1) * 4096" using n by simp
    ultimately show ?thesis by (simp add: r_def)
  qed
qed

lemma unat_add_u64: "unat x + unat y < 2 ^ 64 \<Longrightarrow> unat ((x :: u64) + y) = unat x + unat y"
  by (simp add: unat_word_ariths)

lemma unat_minus_1_u64: "0 < unat (x :: u64) \<Longrightarrow> unat (x - 1) = unat x - 1"
  by (rule unat_minus_one) auto

lemma unat_align_up:
  assumes "unat x + 4095 < 2 ^ 64"
  shows "unat (align_up x) = (unat x + 4095) div 4096 * 4096"
proof (cases "unat x mod 4096 = 0")
  case True
  then have "x AND 0xFFF = 0" using unat_and_mask12 [of x] by (metis unat_eq_zero)
  then show ?thesis using round_up_mult(1) [OF True] by (simp add: align_up_def)
next
  case False
  then have "x AND 0xFFF \<noteq> 0" using unat_and_mask12 [of x] by auto
  moreover have "unat ((x OR 0xFFF) + 1) = unat x - unat x mod 4096 + 4096"
  proof -
    have e: "(x OR 0xFFF) + 1 = (x AND NOT 0xFFF) + 0x1000"
      unfolding or_eq_plus by simp
    have lt: "unat (x AND NOT 0xFFF) + unat (0x1000 :: u64) < 2 ^ 64"
      using assms False unat_and_not_mask12 [of x] by simp
    then have "unat ((x AND NOT 0xFFF) + 0x1000) = unat (x AND NOT 0xFFF) + unat (0x1000 :: u64)"
      by (intro unat_add_lem [THEN iffD1]) simp
    then show ?thesis unfolding e unat_and_not_mask12 by simp
  qed
  ultimately show ?thesis using round_up_mult(2) [OF False] by (simp add: align_up_def)
qed

lemma containing_align_up:
  assumes "unat x + 4095 < 2 ^ 64"
  shows "containing_address (align_up x) = (unat x + 4095) div 4096"
  unfolding containing_address_def unat_align_up [OF assms] by simp

lemma load_count_min:
  assumes "4096 * k < unat file_size"
  shows "load_count file_size k = min 4096 (unat file_size - 4096 * k)"
proof -
  have lt: "4096 * k < 2 ^ 64" using assms by (rule less_trans) simp
  have k: "unat (word_of_nat k * 4096 :: u64) = 4096 * k"
  proof -
    have "(word_of_nat k * 4096 :: u64) = word_of_nat (4096 * k)" by simp
    then show ?thesis using lt by (simp only: unat_of_nat take_bit_nat_eq_self) simp
  qed
  have "unat (file_size - word_of_nat k * 4096) = unat file_size - 4096 * k"
    using assms k by (simp add: unat_sub word_le_nat_alt)
  then show ?thesis by (simp add: load_count_def Let_def word_less_nat_alt min_def)
qed

lemma page_image_file:
  assumes "4096 * k < unat file_size" "i < 4096"
  shows "page_image elf fo file_size k i =
    (if 4096 * k + i < unat file_size then elf_input elf (unat fo + (4096 * k + i)) else 0)"
  using assms by (auto simp: page_image_def load_count_min mult.commute add.assoc)


lemma map_of_zip_upt:
  assumes "length fs = length [m..<n]" "m \<le> q" "q < n"
  shows "map_of (zip [m..<n] (map g fs)) q = Some (g (fs ! (q - m)))"
proof -
  have "map_of (zip [m..<n] (map g fs)) ([m..<n] ! (q - m)) = Some (map g fs ! (q - m))"
    using assms by (intro map_of_zip_nth) auto
  with assms show ?thesis by simp
qed

lemma map_of_zip_upt_None: "length fs = length [m..<n] \<Longrightarrow> q < m \<or> n \<le> q \<Longrightarrow> map_of (zip [m..<n] (map g fs)) q = None"
  by (simp add: map_of_zip_is_None) auto

text \<open>A segment that starts at a page boundary, in memory and in the file, and does not wrap.\<close>

definition aligned_segment :: "ProgramHeader \<Rightarrow> bool" where
  "aligned_segment s \<longleftrightarrow> 4096 dvd unat (ph_virtual_addr s) \<and> 4096 dvd unat (ph_offset s) \<and>
     0 < ph_file_size s \<and> ph_file_size s \<le> ph_mem_size s \<and>
     unat (ph_virtual_addr s) + unat (ph_mem_size s) + 4096 < 2 ^ 64"

lemma aligned_segment_pages:
  assumes "aligned_segment s"
  defines "v \<equiv> unat (ph_virtual_addr s)" and "n \<equiv> unat (ph_file_size s)" and "m \<equiv> unat (ph_mem_size s)"
  shows "unat (ph_offset s AND NOT 0xFFF) = unat (ph_offset s)"
    and "containing_address (ph_virtual_addr s + ph_file_size s - 1) = (v + n - 1) div 4096"
    and "containing_address (align_up (ph_virtual_addr s + ph_file_size s)) = Suc ((v + n - 1) div 4096)"
    and "containing_address (ph_virtual_addr s + ph_mem_size s) = (v + m) div 4096"
    and "containing_address (ph_virtual_addr s + ph_mem_size s - 1) = (v + m - 1) div 4096"
    and "0 < n" "n \<le> m" "4096 dvd v"
proof -
  have lt: "v + n < 2 ^ 64" "v + m < 2 ^ 64" and n: "0 < n" and nm: "n \<le> m"
    using assms(1) unfolding aligned_segment_def v_def n_def m_def
    by (auto simp: word_le_nat_alt word_less_nat_alt)
  have vn: "unat (ph_virtual_addr s + ph_file_size s) = v + n"
    using lt by (simp add: v_def n_def unat_add_u64)
  have vm: "unat (ph_virtual_addr s + ph_mem_size s) = v + m"
    using lt by (simp add: v_def m_def unat_add_u64)
  show "unat (ph_offset s AND NOT 0xFFF) = unat (ph_offset s)"
    using assms(1) unfolding unat_and_not_mask12 aligned_segment_def by (simp add: dvd_eq_mod_eq_0)
  show "containing_address (ph_virtual_addr s + ph_file_size s - 1) = (v + n - 1) div 4096"
    using vn n by (simp add: containing_address_def unat_minus_1_u64)
  show "containing_address (align_up (ph_virtual_addr s + ph_file_size s)) = Suc ((v + n - 1) div 4096)"
  proof -
    have "v + n + 4095 < 2 ^ 64"
      using assms(1) nm unfolding aligned_segment_def v_def m_def by linarith
    then have "containing_address (align_up (ph_virtual_addr s + ph_file_size s)) = (v + n + 4095) div 4096"
      using containing_align_up vn by metis
    also have "v + n + 4095 = (v + n - 1) + 4096" using n by simp
    finally show ?thesis by simp
  qed
  show "containing_address (ph_virtual_addr s + ph_mem_size s) = (v + m) div 4096"
    using vm by (simp add: containing_address_def)
  show "containing_address (ph_virtual_addr s + ph_mem_size s - 1) = (v + m - 1) div 4096"
    using vm n nm by (simp add: containing_address_def unat_minus_1_u64)
  show "0 < n" "n \<le> m" "4096 dvd v" using n nm assms(1) by (auto simp: aligned_segment_def v_def)
qed

context frame_allocator
begin

lemma load_pages_Ok:
  assumes "mapper_laws M \<alpha> free wf" "wf a" "distinct ps"
    and "load_pages M alloc fl elf fo fsz idx ps w a mem = (Ok (), w', a', mem')"
  shows "\<exists>fs. length fs = length ps \<and> distinct fs \<and> set fs \<subseteq> free a \<and>
    \<alpha> w' = \<alpha> w ++ map_of (zip ps (map (\<lambda>f. (f, fl)) fs)) \<and> wf a' \<and> free a' \<subseteq> free a - set fs \<and>
    (\<forall>g. g \<notin> set fs \<longrightarrow> mem' g = mem g) \<and>
    (\<forall>j < length ps. \<forall>i < 4096. mem' (fs ! j) i = page_image elf fo fsz (idx + j) i)"
  using assms(2-4)
proof (induction ps arbitrary: idx w a mem)
  case Nil
  then show ?case by auto
next
  case (Cons p ps)
  obtain f a1 where al: "alloc a = (Some f, a1)"
    using Cons.prems(3) by (auto split: prod.splits option.splits)
  note s = alloc_Some [OF Cons.prems(1) al]
  define mem1 where "mem1 = copy_to_frame mem f (elf_input elf) (unat fo + idx * 4096) (load_count fsz idx)"
  define mem2 where "mem2 = (if load_count fsz idx < 4096
    then zero_frame mem1 f (load_count fsz idx) (4096 - load_count fsz idx) else mem1)"
  obtain w2 a2 where mt: "map_to M p f fl w a1 = (Ok (), w2, a2)"
    using Cons.prems(3) al by (auto simp: Let_def split: prod.splits outcome.splits)
  note law = map_to_law [OF assms(1) mt, rule_format]
  have wf1: "wf a1" using s by blast
  have "load_pages M alloc fl elf fo fsz (Suc idx) ps w2 a2 mem2 = (Ok (), w', a', mem')"
    using Cons.prems(3) al mt unfolding mem1_def mem2_def by (simp add: Let_def split del: if_split)
  from Cons.IH [OF law(1) [OF wf1] _ this] Cons.prems(2) obtain fs where fs:
    "length fs = length ps" "distinct fs" "set fs \<subseteq> free a2"
    "\<alpha> w' = \<alpha> w2 ++ map_of (zip ps (map (\<lambda>f. (f, fl)) fs))" "wf a'" "free a' \<subseteq> free a2 - set fs"
    "\<forall>g. g \<notin> set fs \<longrightarrow> mem' g = mem2 g"
    "\<forall>j < length ps. \<forall>i < 4096. mem' (fs ! j) i = page_image elf fo fsz (Suc idx + j) i"
    by auto
  have fr: "f \<in> free a" "free a2 \<subseteq> free a - {f}" using s law(2) [OF wf1] by auto
  then have nf: "f \<notin> set fs" using fs(3) by auto
  have tr: "\<alpha> w' = \<alpha> w ++ map_of (zip (p # ps) (map (\<lambda>f. (f, fl)) (f # fs)))"
    using fs(1,4) law(4) [OF wf1] Cons.prems(2) by (simp add: map_add_map_of_Cons)
  have img: "\<forall>i < 4096. mem2 f i = page_image elf fo fsz idx i"
    using load_count_le [of fsz idx]
    by (auto simp: mem2_def mem1_def page_image_def copy_to_frame_def zero_frame_def)
  have oth: "\<forall>g. g \<notin> set (f # fs) \<longrightarrow> mem' g = mem g"
    using fs(7) by (simp add: mem2_def mem1_def copy_to_frame_def zero_frame_def)
  have "mem' ((f # fs) ! j) i = page_image elf fo fsz (idx + j) i"
    if "j < length (p # ps)" "i < 4096" for i j
    using that fs(7,8) nf img by (cases j) auto
  then have img: "\<forall>j < length (p # ps). \<forall>i < 4096.
      mem' ((f # fs) ! j) i = page_image elf fo fsz (idx + j) i" by blast
  show ?case
    by (rule exI [of _ "f # fs"], intro conjI tr img oth) (use fs(1,2,3,5,6) fr nf in auto)
qed

lemma zero_pages_Ok:
  assumes "mapper_laws M \<alpha> free wf" "wf a" "distinct ps"
    and "zero_pages M alloc fl ps w a mem = (Ok (), w', a', mem')"
  shows "\<exists>fs. length fs = length ps \<and> distinct fs \<and> set fs \<subseteq> free a \<and>
    \<alpha> w' = \<alpha> w ++ map_of (zip ps (map (\<lambda>f. (f, fl)) fs)) \<and> wf a' \<and> free a' \<subseteq> free a - set fs \<and>
    (\<forall>g. g \<notin> set fs \<longrightarrow> mem' g = mem g) \<and> (\<forall>f \<in> set fs. \<forall>i < 4096. mem' f i = 0)"
  using assms(2-4)
proof (induction ps arbitrary: w a mem)
  case Nil
  then show ?case by auto
next
  case (Cons p ps)
  obtain f a1 where al: "alloc a = (Some f, a1)"
    using Cons.prems(3) by (auto split: prod.splits option.splits)
  note s = alloc_Some [OF Cons.prems(1) al]
  obtain w2 a2 where mt: "map_to M p f fl w a1 = (Ok (), w2, a2)"
    using Cons.prems(3) al by (auto split: prod.splits outcome.splits)
  note law = map_to_law [OF assms(1) mt, rule_format]
  have wf1: "wf a1" using s by blast
  have "zero_pages M alloc fl ps w2 a2 (zero_frame mem f 0 4096) = (Ok (), w', a', mem')"
    using Cons.prems(3) al mt by simp
  from Cons.IH [OF law(1) [OF wf1] _ this] Cons.prems(2) obtain fs where fs:
    "length fs = length ps" "distinct fs" "set fs \<subseteq> free a2"
    "\<alpha> w' = \<alpha> w2 ++ map_of (zip ps (map (\<lambda>f. (f, fl)) fs))" "wf a'" "free a' \<subseteq> free a2 - set fs"
    "\<forall>g. g \<notin> set fs \<longrightarrow> mem' g = zero_frame mem f 0 4096 g" "\<forall>f \<in> set fs. \<forall>i < 4096. mem' f i = 0"
    by auto
  have fr: "f \<in> free a" "free a2 \<subseteq> free a - {f}" using s law(2) [OF wf1] by auto
  then have nf: "f \<notin> set fs" using fs(3) by auto
  have tr: "\<alpha> w' = \<alpha> w ++ map_of (zip (p # ps) (map (\<lambda>f. (f, fl)) (f # fs)))"
    using fs(1,4) law(4) [OF wf1] Cons.prems(2) by (simp add: map_add_map_of_Cons)
  have mem: "\<forall>g. g \<notin> set (f # fs) \<longrightarrow> mem' g = mem g" "\<forall>g \<in> set (f # fs). \<forall>i < 4096. mem' g i = 0"
    using fs(7,8) nf by (auto simp: zero_frame_def)
  show ?case
    by (rule exI [of _ "f # fs"], intro conjI tr mem) (use fs(1,2,3,5,6) fr nf in auto)
qed

lemma zeroed_pages:
  assumes "mapper_laws M \<alpha> free wf" "wf a1"
    and "(if b then zero_pages M alloc fl [lo..<hi] w1 a1 mem1 else (Ok (), w1, a1, mem1)) =
      (Ok (), w', a', mem')"
    and "free a1 \<inter> F = {}"
  shows "\<forall>q < lo. \<alpha> w' q = \<alpha> w1 q" "\<forall>f \<in> F. mem' f = mem1 f"
    "b \<Longrightarrow> lo \<le> q \<Longrightarrow> q < hi \<Longrightarrow> \<exists>f. \<alpha> w' q = Some (f, fl) \<and> (\<forall>i < 4096. mem' f i = 0)"
proof -
  have "(\<forall>q < lo. \<alpha> w' q = \<alpha> w1 q) \<and> (\<forall>f \<in> F. mem' f = mem1 f) \<and> (b \<longrightarrow>
    (\<forall>q. lo \<le> q \<and> q < hi \<longrightarrow> (\<exists>f. \<alpha> w' q = Some (f, fl) \<and> (\<forall>i < 4096. mem' f i = 0))))"
  proof (cases b)
    case True
    then have "zero_pages M alloc fl [lo..<hi] w1 a1 mem1 = (Ok (), w', a', mem')"
      using assms(3) by simp
    from zero_pages_Ok [OF assms(1,2) distinct_upt this] obtain gs where gs:
      "length gs = length [lo..<hi]" "set gs \<subseteq> free a1"
      "\<alpha> w' = \<alpha> w1 ++ map_of (zip [lo..<hi] (map (\<lambda>f. (f, fl)) gs))"
      "\<forall>g. g \<notin> set gs \<longrightarrow> mem' g = mem1 g" "\<forall>f \<in> set gs. \<forall>i < 4096. mem' f i = 0" by blast
    have "\<alpha> w' q = Some (gs ! (q - lo), fl) \<and> gs ! (q - lo) \<in> set gs" if "lo \<le> q" "q < hi" for q
      using that gs(1) map_of_zip_upt [OF gs(1) that, of "\<lambda>f. (f, fl)"] by (simp add: gs(3))
    moreover have "\<alpha> w' q = \<alpha> w1 q" if "q < lo" for q
      using map_of_zip_upt_None [OF gs(1), of q "\<lambda>f. (f, fl)"] that by (simp add: gs(3) map_add_def)
    ultimately show ?thesis using gs(2,4,5) assms(4) by blast
  next
    case False
    with assms(3) show ?thesis by simp
  qed
  then show "\<forall>q < lo. \<alpha> w' q = \<alpha> w1 q" "\<forall>f \<in> F. mem' f = mem1 f"
    "b \<Longrightarrow> lo \<le> q \<Longrightarrow> q < hi \<Longrightarrow> \<exists>f. \<alpha> w' q = Some (f, fl) \<and> (\<forall>i < 4096. mem' f i = 0)"
    by blast+
qed

text \<open>
  Loading an aligned segment: every byte of its memory image is where the page table says, the
  file's bytes first and zeros after them.
\<close>

lemma load_segment_image:
  assumes laws: "mapper_laws M \<alpha> free wf" and "wf a" and al: "aligned_segment s"
    and run: "load_segment M alloc elf s user w a mem = (Ok r, w', a', mem')"
    and i: "i < unat (ph_mem_size s)"
  shows "\<exists>f. \<alpha> w' ((unat (ph_virtual_addr s) + i) div 4096) = Some (f, segment_flags s user) \<and>
    mem' f ((unat (ph_virtual_addr s) + i) mod 4096) =
      (if i < unat (ph_file_size s) then elf_input elf (unat (ph_offset s) + i) else 0)"
proof -
  define v n m where "v = unat (ph_virtual_addr s)" and "n = unat (ph_file_size s)"
    and "m = unat (ph_mem_size s)"
  note pages = aligned_segment_pages [OF al, folded v_def n_def m_def]
  let ?fl = "segment_flags s user"
  let ?lo = "v div 4096" and ?mid = "Suc ((v + n - 1) div 4096)"
  have lo: "containing_address (ph_virtual_addr s) = ?lo" by (simp add: containing_address_def v_def)
  obtain w1 a1 mem1 where one: "load_pages M alloc ?fl elf (ph_offset s AND NOT 0xFFF) (ph_file_size s) 0
      [?lo..<?mid] w a mem = (Ok (), w1, a1, mem1)"
    and two: "(if ph_mem_size s > ph_file_size s
      then zero_pages M alloc ?fl [?mid..<Suc ((v + m) div 4096)] w1 a1 mem1
      else (Ok (), w1, a1, mem1)) = (Ok (), w', a', mem')"
    using run unfolding load_segment_def Let_def pages lo
    by (auto simp del: upt_Suc split: prod.split_asm outcome.split_asm if_split_asm)
  from load_pages_Ok [OF laws assms(2) _ one] obtain fs where fs: "length fs = length [?lo..<?mid]"
    "\<alpha> w1 = \<alpha> w ++ map_of (zip [?lo..<?mid] (map (\<lambda>f. (f, ?fl)) fs))" "wf a1"
    "free a1 \<subseteq> free a - set fs"
    "\<forall>j < length [?lo..<?mid]. \<forall>i < 4096. mem1 (fs ! j) i =
       page_image elf (ph_offset s AND NOT 0xFFF) (ph_file_size s) (0 + j) i"
    by (auto simp del: upt_Suc)
  have "free a1 \<inter> set fs = {}" using fs(4) by blast
  note bss = zeroed_pages [OF laws fs(3) two this]
  obtain vp where vp: "v = 4096 * vp" using pages(8) by (elim dvdE)
  define q k where "q = (v + i) div 4096" and "k = i div 4096"
  have q: "q = vp + k" "(v + i) mod 4096 = i mod 4096" "i = 4096 * k + i mod 4096"
    by (simp_all add: q_def k_def vp)
  have mid: "?lo = vp" "(v + n - 1) div 4096 = vp + (n - 1) div 4096"
    using pages(6) by (simp_all add: vp)
  have "\<exists>f. \<alpha> w' q = Some (f, ?fl) \<and>
      mem' f (i mod 4096) = (if i < n then elf_input elf (unat (ph_offset s) + i) else 0)"
  proof (cases "q < ?mid")
    case True
    then have "k \<le> (n - 1) div 4096" using q(1) mid(2) by simp
    then have kn: "4096 * k < n" using pages(6) by (simp add: less_eq_div_iff_mult_less_eq mult.commute)
    have at: "\<alpha> w' q = Some (fs ! k, ?fl)"
      using bss(1) True map_of_zip_upt [OF fs(1), of q "\<lambda>f. (f, ?fl)"] mid q(1) by (simp add: fs(2))
    have kl: "k < length [?lo..<?mid]" using True q(1) mid by simp
    then have "mem' (fs ! k) (i mod 4096) = mem1 (fs ! k) (i mod 4096)" using bss(2) fs(1) by simp
    also have "\<dots> = page_image elf (ph_offset s AND NOT 0xFFF) (ph_file_size s) k (i mod 4096)"
      using fs(5) kl by simp
    also have "\<dots> = (if i < n then elf_input elf (unat (ph_offset s) + i) else 0)"
      using page_image_file [of k "ph_file_size s" "i mod 4096" elf "ph_offset s AND NOT 0xFFF"] kn q(3)
      unfolding pages(1) n_def by simp
    finally show ?thesis using at by blast
  next
    case False
    have "\<not> i < n"
    proof
      assume "i < n"
      then have "v + i \<le> v + n - 1" by simp
      then have "q \<le> (v + n - 1) div 4096" unfolding q_def by (rule div_le_mono)
      with False show False by simp
    qed
    moreover have "v + i \<le> v + m" using i by (simp add: m_def)
    then have "q \<le> (v + m) div 4096" unfolding q_def by (rule div_le_mono)
    moreover have "ph_file_size s < ph_mem_size s"
      using \<open>\<not> i < n\<close> i by (simp add: word_less_nat_alt n_def)
    ultimately show ?thesis using bss(3) [of q] False by auto
  qed
  then show ?thesis using q(2) by (simp add: q_def v_def n_def)
qed

end

section \<open>A whole program\<close>

text \<open>The memory image of a segment is where the translation \<open>v\<close> says: the bytes of the file, then zeros.\<close>

definition in_memory :: "(page \<rightharpoonup> frame \<times> PageTableFlags) \<Rightarrow> phys_mem \<Rightarrow> ElfFile \<Rightarrow> bool \<Rightarrow> ProgramHeader \<Rightarrow> bool" where
  "in_memory v mem elf user s \<longleftrightarrow> (\<forall>i < unat (ph_mem_size s).
     \<exists>f. v ((unat (ph_virtual_addr s) + i) div 4096) = Some (f, segment_flags s user) \<and>
       mem f ((unat (ph_virtual_addr s) + i) mod 4096) =
         (if i < unat (ph_file_size s) then elf_input elf (unat (ph_offset s) + i) else 0))"

context frame_allocator
begin

text \<open>
  Loading a page or a segment keeps what is mapped, and the content of the frames behind it.
\<close>

definition extends where
  "extends \<alpha> w mem w' a' mem' \<longleftrightarrow> frames_ok free wf \<alpha> w' a' \<and> \<alpha> w \<subseteq>\<^sub>m \<alpha> w' \<and>
     (\<forall>p f fl. \<alpha> w p = Some (f, fl) \<longrightarrow> (mem' :: phys_mem) f = mem f)"

lemma extends_refl: "frames_ok free wf \<alpha> w a \<Longrightarrow> extends \<alpha> w mem w a mem"
  by (simp add: extends_def)

lemma extendsD:
  assumes "extends \<alpha> w mem w' a' mem'" "\<alpha> w p = Some (f, fl)"
  shows "\<alpha> w' p = Some (f, fl)" "mem' f = mem f"
proof -
  have "\<alpha> w \<subseteq>\<^sub>m \<alpha> w'" using assms(1) by (simp add: extends_def)
  then show "\<alpha> w' p = Some (f, fl)" using assms(2) by (metis map_le_def domI)
  show "mem' f = mem f" using assms unfolding extends_def by blast
qed

lemma extends_trans:
  assumes "extends \<alpha> w mem w1 a1 mem1" "extends \<alpha> w1 mem1 w2 a2 mem2"
  shows "extends \<alpha> w mem w2 a2 mem2"
  unfolding extends_def
proof (intro conjI allI impI)
  show "frames_ok free wf \<alpha> w2 a2" using assms(2) by (simp add: extends_def)
  show "\<alpha> w \<subseteq>\<^sub>m \<alpha> w2" using assms map_le_trans [of "\<alpha> w" "\<alpha> w1" "\<alpha> w2"] by (simp add: extends_def)
  show "mem2 f = mem f" if "\<alpha> w p = Some (f, fl)" for p f fl
    using extendsD [OF assms(1) that] extendsD(2) [OF assms(2), of p f fl] by simp
qed

lemma extends_map_to:
  assumes laws: "mapper_laws M \<alpha> free wf" and ok: "frames_ok free wf \<alpha> w a" and al: "alloc a = (Some f, a1)"
    and mt: "map_to M p f fl w a1 = (Ok (), w2, a2)" and mem: "\<forall>g. g \<noteq> f \<longrightarrow> mem2 g = mem g"
  shows "extends \<alpha> w mem w2 a2 mem2"
proof -
  note s = alloc_Some [OF _ al]
  have wf: "wf a" using ok by (simp add: frames_ok_def)
  note law = map_to_law [OF laws mt]
  have fr: "f \<in> free a" "free a2 \<subseteq> free a - {f}" "wf a2" "wf a1" using s [OF wf] law(1,2) by auto
  have tr: "\<alpha> w p = None" "\<alpha> w2 = (\<alpha> w)(p \<mapsto> (f, fl))" using law(3,4) fr(4) by auto
  have old: "g \<notin> free a" if "\<alpha> w p' = Some (g, fl')" for p' g fl' using ok that by (auto simp: frames_ok_def)
  have "frames_ok free wf \<alpha> w2 a2"
    using fr tr(2) old by (fastforce simp: frames_ok_def split: if_splits)
  moreover have "\<alpha> w \<subseteq>\<^sub>m \<alpha> w2" using tr by (auto simp: map_le_def)
  moreover have "mem2 g = mem g" if "\<alpha> w p' = Some (g, fl')" for p' g fl' using old [OF that] fr(1) mem by auto
  ultimately show ?thesis unfolding extends_def by blast
qed

lemma load_pages_extends:
  assumes laws: "mapper_laws M \<alpha> free wf"
  shows "load_pages M alloc fl elf fo fsz idx ps w a mem = (Ok (), w', a', mem') \<Longrightarrow> frames_ok free wf \<alpha> w a \<Longrightarrow>
    extends \<alpha> w mem w' a' mem'"
proof (induction ps arbitrary: idx w a mem)
  case Nil
  then show ?case by (simp add: extends_refl)
next
  case (Cons p ps)
  obtain r a1 where al: "alloc a = (r, a1)" by (cases "alloc a")
  with Cons.prems(1) obtain f where r: "r = Some f" by (cases r) auto
  obtain q w2 a2 where mt: "map_to M p f fl w a1 = (q, w2, a2)" by (cases "map_to M p f fl w a1") auto
  define mem1 where "mem1 = copy_to_frame mem f (elf_input elf) (unat fo + idx * 4096) (load_count fsz idx)"
  define mem2 where "mem2 = (if load_count fsz idx < 4096 then zero_frame mem1 f (load_count fsz idx) (4096 - load_count fsz idx) else mem1)"
  have q: "q = Ok ()" using Cons.prems(1) al r mt by (cases q) (simp_all add: Let_def)
  have m: "\<forall>g. g \<noteq> f \<longrightarrow> mem2 g = mem g" by (simp add: mem2_def mem1_def copy_to_frame_def zero_frame_def)
  have ld: "load_pages M alloc fl elf fo fsz (Suc idx) ps w2 a2 mem2 = (Ok (), w', a', mem')"
    using Cons.prems(1) al r mt q by (simp add: Let_def mem2_def mem1_def split: if_split_asm)
  have e: "extends \<alpha> w mem w2 a2 mem2"
    using extends_map_to [OF laws Cons.prems(2) _ _ m, of a1] al r mt q by simp
  moreover have "frames_ok free wf \<alpha> w2 a2" using e by (simp add: extends_def)
  ultimately show ?case using extends_trans [OF e Cons.IH [OF ld]] by simp
qed

lemma zero_pages_extends:
  assumes laws: "mapper_laws M \<alpha> free wf"
  shows "zero_pages M alloc fl ps w a mem = (Ok (), w', a', mem') \<Longrightarrow> frames_ok free wf \<alpha> w a \<Longrightarrow>
    extends \<alpha> w mem w' a' mem'"
proof (induction ps arbitrary: w a mem)
  case Nil
  then show ?case by (simp add: extends_refl)
next
  case (Cons p ps)
  obtain r a1 where al: "alloc a = (r, a1)" by (cases "alloc a")
  with Cons.prems(1) obtain f where r: "r = Some f" by (cases r) auto
  obtain q w2 a2 where mt: "map_to M p f fl w a1 = (q, w2, a2)" by (cases "map_to M p f fl w a1") auto
  define mem2 where "mem2 = zero_frame mem f 0 4096"
  have q: "q = Ok ()" using Cons.prems(1) al r mt by (cases q) simp_all
  have m: "\<forall>g. g \<noteq> f \<longrightarrow> mem2 g = mem g" by (simp add: mem2_def zero_frame_def)
  have ld: "zero_pages M alloc fl ps w2 a2 mem2 = (Ok (), w', a', mem')"
    using Cons.prems(1) al r mt q by (simp add: mem2_def)
  have e: "extends \<alpha> w mem w2 a2 mem2"
    using extends_map_to [OF laws Cons.prems(2) _ _ m, of a1] al r mt q by simp
  moreover have "frames_ok free wf \<alpha> w2 a2" using e by (simp add: extends_def)
  ultimately show ?case using extends_trans [OF e Cons.IH [OF ld]] by simp
qed

lemma load_segment_extends:
  assumes laws: "mapper_laws M \<alpha> free wf" and ok: "frames_ok free wf \<alpha> w a"
    and run: "load_segment M alloc elf s user w a mem = (Ok r, w', a', mem')"
  shows "extends \<alpha> w mem w' a' mem'"
proof -
  let ?fl = "segment_flags s user"
  let ?ps = "[containing_address (ph_virtual_addr s)..<Suc (containing_address (ph_virtual_addr s + ph_file_size s - 1))]"
  let ?qs = "[containing_address (align_up (ph_virtual_addr s + ph_file_size s))..<Suc (containing_address (ph_virtual_addr s + ph_mem_size s))]"
  obtain w1 a1 mem1 where one: "load_pages M alloc ?fl elf (ph_offset s AND NOT 0xFFF) (ph_file_size s) 0 ?ps w a mem = (Ok (), w1, a1, mem1)"
    and two: "(if ph_file_size s < ph_mem_size s then zero_pages M alloc ?fl ?qs w1 a1 mem1 else (Ok (), w1, a1, mem1)) = (Ok (), w', a', mem')"
    using run unfolding load_segment_def Let_def
    by (auto simp del: upt_Suc split: prod.split_asm outcome.split_asm if_split_asm)
  note e1 = load_pages_extends [OF laws one ok]
  then have "frames_ok free wf \<alpha> w1 a1" by (simp add: extends_def)
  then have "extends \<alpha> w1 mem1 w' a' mem'"
    using two zero_pages_extends [OF laws] by (cases "ph_file_size s < ph_mem_size s") (auto simp: extends_refl simp del: upt_Suc)
  with e1 show ?thesis by (rule extends_trans)
qed

text \<open>Every byte of every segment of a program is in memory after all of them are loaded.\<close>

lemma load_segments_image:
  assumes laws: "mapper_laws M \<alpha> free wf"
  shows "load_segments M alloc elf ss user w a mem = (Ok rs, w', a', mem') \<Longrightarrow> frames_ok free wf \<alpha> w a \<Longrightarrow>
    \<forall>s \<in> set ss. ph_type s = Some SegLoad \<longrightarrow> aligned_segment s \<Longrightarrow>
    extends \<alpha> w mem w' a' mem' \<and>
    (\<forall>s \<in> set ss. ph_type s = Some SegLoad \<longrightarrow> in_memory (\<alpha> w') mem' elf user s)"
proof (induction ss arbitrary: rs w a mem)
  case Nil
  then show ?case by (simp add: extends_refl)
next
  case (Cons s ss)
  show ?case
  proof (cases "ph_type s = Some SegLoad")
    case False
    then have "load_segments M alloc elf ss user w a mem = (Ok rs, w', a', mem')"
      using Cons.prems(1) by (auto split: option.split_asm SegmentType.split_asm)
    then show ?thesis using Cons.IH Cons.prems(2,3) False by simp
  next
    case True
    obtain r rs' w1 a1 mem1 where one: "load_segment M alloc elf s user w a mem = (Ok r, w1, a1, mem1)"
      and two: "load_segments M alloc elf ss user w1 a1 mem1 = (Ok rs', w', a', mem')"
      using Cons.prems(1) True by (auto split: prod.split_asm outcome.split_asm)
    note e = load_segment_extends [OF laws Cons.prems(2) one]
    then have ok: "frames_ok free wf \<alpha> w1 a1" by (simp add: extends_def)
    have al: "aligned_segment s" using Cons.prems(3) True by simp
    have wf: "wf a" using Cons.prems(2) by (simp add: frames_ok_def)
    note IH = Cons.IH [OF two ok] 
    have IH': "extends \<alpha> w1 mem1 w' a' mem'" using IH Cons.prems(3) by simp
    have "in_memory (\<alpha> w') mem' elf user s"
      unfolding in_memory_def
    proof (intro allI impI)
      fix i assume that: "i < unat (ph_mem_size s)"
      from load_segment_image [OF laws wf al one that] obtain f where f:
        "\<alpha> w1 ((unat (ph_virtual_addr s) + i) div 4096) = Some (f, segment_flags s user)"
        "mem1 f ((unat (ph_virtual_addr s) + i) mod 4096) =
           (if i < unat (ph_file_size s) then elf_input elf (unat (ph_offset s) + i) else 0)" by blast
      from extendsD [OF IH' f(1)] f(2)
      show "\<exists>f. \<alpha> w' ((unat (ph_virtual_addr s) + i) div 4096) = Some (f, segment_flags s user) \<and>
          mem' f ((unat (ph_virtual_addr s) + i) mod 4096) =
            (if i < unat (ph_file_size s) then elf_input elf (unat (ph_offset s) + i) else 0)" by auto
    qed
    then show ?thesis using IH Cons.prems(3) extends_trans [OF e IH'] by simp
  qed
qed

end

end
