(* ===== verification/Proc_Sync.thy ===== *)
theory Proc_Sync
  imports Rust_Prelude "HOL-Library.Multiset"
begin

text \<open>
  \<open>pkg/kernel/src/proc/{pid,sync}.rs\<close>: process identifiers, semaphores and the set of semaphores of
  a process. The locale \<open>counting_semaphore\<close> is the contract of a semaphore: the tokens it was given
  are the ones it still has and the ones it granted, it blocks only when it has none, and it wakes
  in the order of the waits.
\<close>

section \<open>ProcessId (pid.rs)\<close>

datatype ProcessId = ProcessId (pid_u16: u16)

instantiation ProcessId :: linorder
begin

definition less_eq_ProcessId :: "ProcessId \<Rightarrow> ProcessId \<Rightarrow> bool" where
  "less_eq_ProcessId p q \<longleftrightarrow> pid_u16 p \<le> pid_u16 q"

definition less_ProcessId :: "ProcessId \<Rightarrow> ProcessId \<Rightarrow> bool" where
  "less_ProcessId p q \<longleftrightarrow> pid_u16 p < pid_u16 q"

instance
  by standard (auto simp: less_eq_ProcessId_def less_ProcessId_def intro: ProcessId.expand)

end

text \<open>\<open>ProcessId::new()\<close> on the counter: \<open>fetch_add\<close> wraps.\<close>

definition process_id_new :: "u16 \<Rightarrow> ProcessId \<times> u16" where
  "process_id_new counter = (ProcessId (counter + 1), counter + 1)"

definition KERNEL_PID :: ProcessId where
  "KERNEL_PID = ProcessId 1"

section \<open>Semaphore (sync.rs)\<close>

record Semaphore =
  sem_count :: nat
  wait_queue :: "ProcessId list"

datatype SemaphoreResult = SemOk | NotExist | Block ProcessId | WakeUp ProcessId

definition semaphore_new :: "nat \<Rightarrow> Semaphore" where
  "semaphore_new v = \<lparr>sem_count = v, wait_queue = []\<rparr>"

definition semaphore_wait :: "ProcessId \<Rightarrow> Semaphore \<Rightarrow> SemaphoreResult \<times> Semaphore" where
  "semaphore_wait pid s =
     (if sem_count s = 0 then (Block pid, s\<lparr>wait_queue := wait_queue s @ [pid]\<rparr>)
      else (SemOk, s\<lparr>sem_count := sem_count s - 1\<rparr>))"

definition semaphore_signal :: "Semaphore \<Rightarrow> SemaphoreResult \<times> Semaphore" where
  "semaphore_signal s =
     (case wait_queue s of
        pid # rest \<Rightarrow> (WakeUp pid, s\<lparr>wait_queue := rest\<rparr>)
      | [] \<Rightarrow> (SemOk, s\<lparr>sem_count := sem_count s + 1\<rparr>))"

section \<open>SemaphoreSet\<close>

datatype SemaphoreId = SemaphoreId u32

record SemaphoreSet =
  sems :: "SemaphoreId \<rightharpoonup> Semaphore"

definition semset_new :: SemaphoreSet where
  "semset_new = \<lparr>sems = Map.empty\<rparr>"

definition semset_insert :: "u32 \<Rightarrow> nat \<Rightarrow> SemaphoreSet \<Rightarrow> bool \<times> SemaphoreSet" where
  "semset_insert key v s =
     (let sid = SemaphoreId key in
      (sems s sid = None, s\<lparr>sems := (sems s)(sid \<mapsto> semaphore_new v)\<rparr>))"

definition semset_remove :: "u32 \<Rightarrow> SemaphoreSet \<Rightarrow> bool \<times> SemaphoreSet" where
  "semset_remove key s =
     (let sid = SemaphoreId key in (sems s sid \<noteq> None, s\<lparr>sems := (sems s)(sid := None)\<rparr>))"

definition semset_wait :: "u32 \<Rightarrow> ProcessId \<Rightarrow> SemaphoreSet \<Rightarrow> SemaphoreResult \<times> SemaphoreSet" where
  "semset_wait key pid s =
     (let sid = SemaphoreId key in
      case sems s sid of
        Some sem \<Rightarrow> (let (r, sem') = semaphore_wait pid sem in (r, s\<lparr>sems := (sems s)(sid \<mapsto> sem')\<rparr>))
      | None \<Rightarrow> (NotExist, s))"

definition semset_signal :: "u32 \<Rightarrow> SemaphoreSet \<Rightarrow> SemaphoreResult \<times> SemaphoreSet" where
  "semset_signal key s =
     (let sid = SemaphoreId key in
      case sems s sid of
        Some sem \<Rightarrow> (let (r, sem') = semaphore_signal sem in (r, s\<lparr>sems := (sems s)(sid \<mapsto> sem')\<rparr>))
      | None \<Rightarrow> (NotExist, s))"

section \<open>The contract of a semaphore\<close>

text \<open>
  \<open>tokens s\<close> is the number of units a semaphore has, \<open>queue s\<close> its waiting processes. A history is
  a sequence of waits and signals; \<open>grants\<close> are the processes that passed a wait, at once or woken
  later, in order.
\<close>

datatype sem_event = Wait ProcessId | Signal

locale counting_semaphore =
  fixes wait :: "ProcessId \<Rightarrow> 's \<Rightarrow> SemaphoreResult \<times> 's"
    and signal :: "'s \<Rightarrow> SemaphoreResult \<times> 's"
    and tokens :: "'s \<Rightarrow> nat"
    and queue :: "'s \<Rightarrow> ProcessId list"
  assumes wait_token: "0 < tokens s \<Longrightarrow> wait p s = (r, s') \<Longrightarrow>
      r = SemOk \<and> tokens s' = tokens s - 1 \<and> queue s' = queue s"
    and wait_block: "tokens s = 0 \<Longrightarrow> wait p s = (r, s') \<Longrightarrow>
      r = Block p \<and> tokens s' = 0 \<and> queue s' = queue s @ [p]"
    and signal_wake: "queue s = p # ps \<Longrightarrow> signal s = (r, s') \<Longrightarrow>
      r = WakeUp p \<and> tokens s' = tokens s \<and> queue s' = ps"
    and signal_token: "queue s = [] \<Longrightarrow> signal s = (r, s') \<Longrightarrow>
      r = SemOk \<and> tokens s' = tokens s + 1 \<and> queue s' = []"
begin

definition step :: "sem_event \<Rightarrow> 's \<times> ProcessId list \<Rightarrow> 's \<times> ProcessId list" where
  "step e st = (case st of (s, grants) \<Rightarrow>
     (case e of
        Wait p \<Rightarrow> (case wait p s of (SemOk, s') \<Rightarrow> (s', grants @ [p]) | (_, s') \<Rightarrow> (s', grants))
      | Signal \<Rightarrow> (case signal s of (WakeUp p, s') \<Rightarrow> (s', grants @ [p]) | (_, s') \<Rightarrow> (s', grants))))"

definition run :: "sem_event list \<Rightarrow> 's \<Rightarrow> 's \<times> ProcessId list" where
  "run es s = fold step es (s, [])"

definition waits :: "sem_event list \<Rightarrow> ProcessId list" where
  "waits es = concat (map (\<lambda>e. case e of Wait p \<Rightarrow> [p] | Signal \<Rightarrow> []) es)"

definition signals :: "sem_event list \<Rightarrow> nat" where
  "signals es = length (filter (\<lambda>e. e = Signal) es)"

lemma run_snoc: "run (es @ [e]) s = step e (run es s)"
  by (simp add: run_def)

lemma waits_snoc: "waits (es @ [e]) = waits es @ (case e of Wait p \<Rightarrow> [p] | Signal \<Rightarrow> [])"
  by (simp add: waits_def)

lemma signals_snoc: "signals (es @ [e]) = signals es + (if e = Signal then 1 else 0)"
  by (simp add: signals_def)

text \<open>
  From a semaphore with \<open>n\<close> tokens and no waiting process: tokens are conserved, no process waits
  while there is a token, and the processes are granted and queued in the order of their waits.
\<close>

lemma run_invariant:
  assumes "queue s = []" "run es s = (s', grants)"
  shows "tokens s' + length grants = tokens s + signals es \<and> grants @ queue s' = waits es \<and>
    (tokens s' = 0 \<or> queue s' = [])"
  using assms(2)
proof (induction es arbitrary: s' grants rule: rev_induct)
  case Nil
  with assms(1) show ?case by (simp add: run_def waits_def signals_def)
next
  case (snoc e es)
  obtain t gs where t: "run es s = (t, gs)" by (cases "run es s")
  note IH = snoc.IH [OF t]
  have st: "step e (t, gs) = (s', grants)" using snoc.prems t by (simp add: run_snoc)
  show ?case
  proof (cases e)
    case (Wait p)
    obtain r u where w: "wait p t = (r, u)" by (cases "wait p t")
    show ?thesis
    proof (cases "tokens t = 0")
      case True
      with wait_block [OF True w] st w Wait IH show ?thesis
        by (auto simp: step_def waits_snoc signals_snoc)
    next
      case False
      then have "queue t = []" using IH by simp
      with False wait_token [OF _ w] st w Wait IH show ?thesis
        by (auto simp: step_def waits_snoc signals_snoc)
    qed
  next
    case Signal
    obtain r u where w: "signal t = (r, u)" by (cases "signal t")
    show ?thesis
    proof (cases "queue t")
      case Nil
      with signal_token [OF Nil w] st w Signal IH show ?thesis
        by (auto simp: step_def waits_snoc signals_snoc)
    next
      case (Cons p ps)
      with signal_wake [OF Cons w] st w Signal IH show ?thesis
        by (auto simp: step_def waits_snoc signals_snoc)
    qed
  qed
qed

end

interpretation sem: counting_semaphore semaphore_wait semaphore_signal sem_count wait_queue
  by unfold_locales (auto simp: semaphore_wait_def semaphore_signal_def split: if_splits list.splits)

section \<open>The set of semaphores\<close>

lemma semset_other:
  "k \<noteq> key \<Longrightarrow> sems (snd (semset_insert key v s)) (SemaphoreId k) = sems s (SemaphoreId k)"
  "k \<noteq> key \<Longrightarrow> sems (snd (semset_remove key s)) (SemaphoreId k) = sems s (SemaphoreId k)"
  "k \<noteq> key \<Longrightarrow> sems (snd (semset_wait key p s)) (SemaphoreId k) = sems s (SemaphoreId k)"
  "k \<noteq> key \<Longrightarrow> sems (snd (semset_signal key s)) (SemaphoreId k) = sems s (SemaphoreId k)"
  by (auto simp: semset_insert_def semset_remove_def semset_wait_def semset_signal_def Let_def
      split: option.splits prod.splits)

end
