(* ===== verification/Vm_Stack.thy ===== *)
theory Vm_Stack
  imports Elf_Load Proc_Sync
begin

text \<open>
  \<open>pkg/kernel/src/proc/{paging,vm/stack}.rs\<close>: page tables and the stack of a process, on the state
  \<open>vm_state\<close> of the memory of the machine. An \<open>Arc\<close> is a reference into a store of
  \<open>vm_state\<close>, so that a forked process and its parent see each other's changes of the shared heap
  end, and \<open>Arc::strong_count\<close> of a page table is a count in the store.
\<close>

section \<open>Memory of the machine\<close>

record 'w paging =
  pg_mapper :: "frame \<Rightarrow> ('w, BootInfoFrameAllocator) mapper"
  pg_copy_l4 :: "frame \<Rightarrow> frame \<Rightarrow> 'w \<Rightarrow> 'w"

record Cr3RegValue =
  cr3_addr :: frame
  cr3_flags :: u64

text \<open>
  \<open>vs_cr3\<close> is the register; \<open>vs_tables\<close> holds the \<open>Arc<Cr3RegValue>\<close>s with their strong counts and
  \<open>vs_heap_ends\<close> the \<open>Arc<AtomicU64>\<close>s; \<open>vs_next\<close> is the next unused reference.
\<close>

record 'w vm_state =
  vs_paging :: 'w
  vs_alloc :: BootInfoFrameAllocator
  vs_mem :: phys_mem
  vs_cr3 :: Cr3RegValue
  vs_tables :: "nat \<rightharpoonup> Cr3RegValue \<times> nat"
  vs_heap_ends :: "nat \<rightharpoonup> u64"
  vs_next :: nat

text \<open>A call of the kernel that has no error type ends with a value, a panic or never.\<close>

type_synonym 'a exec = "(unit, 'a) outcome"

section \<open>PageTableContext (paging.rs)\<close>

record PageTableContext =
  ptc_reg :: nat

definition new_table :: "Cr3RegValue \<Rightarrow> 'w vm_state \<Rightarrow> PageTableContext \<times> 'w vm_state" where
  "new_table v s =
     (\<lparr>ptc_reg = vs_next s\<rparr>, s\<lparr>vs_tables := (vs_tables s)(vs_next s \<mapsto> (v, 1)), vs_next := vs_next s + 1\<rparr>)"

definition page_table_new :: "'w vm_state \<Rightarrow> PageTableContext \<times> 'w vm_state" where
  "page_table_new s = new_table (vs_cr3 s) s"

definition ptc_value :: "PageTableContext \<Rightarrow> 'w vm_state \<Rightarrow> Cr3RegValue exec" where
  "ptc_value t s = unwrap_option (map_option fst (vs_tables s (ptc_reg t)))"

definition clone_l4 :: "'w paging \<Rightarrow> PageTableContext \<Rightarrow> 'w vm_state \<Rightarrow> (PageTableContext \<times> 'w vm_state) exec" where
  "clone_l4 P t s =
     and_then (ptc_value t s) (\<lambda>v.
     case allocate_frame (vs_alloc s) of
       (None, a) \<Rightarrow> Panic
     | (Some f, a) \<Rightarrow>
         Ok (new_table \<lparr>cr3_addr = f, cr3_flags = 0\<rparr>
           (s\<lparr>vs_alloc := a, vs_paging := pg_copy_l4 P (cr3_addr v) f (vs_paging s)\<rparr>)))"

definition ptc_load :: "PageTableContext \<Rightarrow> 'w vm_state \<Rightarrow> 'w vm_state exec" where
  "ptc_load t s = and_then (ptc_value t s) (\<lambda>v. Ok (s\<lparr>vs_cr3 := v\<rparr>))"

definition ptc_mapper :: "'w paging \<Rightarrow> PageTableContext \<Rightarrow> 'w vm_state \<Rightarrow> ('w, BootInfoFrameAllocator) mapper exec" where
  "ptc_mapper P t s = and_then (ptc_value t s) (\<lambda>v. Ok (pg_mapper P (cr3_addr v)))"

definition using_count :: "PageTableContext \<Rightarrow> 'w vm_state \<Rightarrow> nat exec" where
  "using_count t s = unwrap_option (map_option snd (vs_tables s (ptc_reg t)))"

definition ptc_fork :: "PageTableContext \<Rightarrow> 'w vm_state \<Rightarrow> PageTableContext \<times> 'w vm_state" where
  "ptc_fork t s =
     (t, s\<lparr>vs_tables := (vs_tables s)(ptc_reg t := map_option (\<lambda>(v, n). (v, n + 1)) (vs_tables s (ptc_reg t)))\<rparr>)"

text \<open>Dropping the \<open>Arc\<close>.\<close>

definition ptc_drop :: "PageTableContext \<Rightarrow> 'w vm_state \<Rightarrow> 'w vm_state" where
  "ptc_drop t s = s\<lparr>vs_tables := (vs_tables s)(ptc_reg t :=
     (case vs_tables s (ptc_reg t) of None \<Rightarrow> None
      | Some (v, n) \<Rightarrow> if n \<le> 1 then None else Some (v, n - 1)))\<rparr>"

section \<open>Stack (vm/stack.rs)\<close>

definition STACK_MAX :: u64 where "STACK_MAX = 0x400000000000"
definition STACK_MAX_PAGES :: nat where "STACK_MAX_PAGES = 0x100000"
definition STACK_MAX_SIZE :: u64 where "STACK_MAX_SIZE = 0x100000 * 4096"
definition STACK_START_MASK :: u64 where "STACK_START_MASK = NOT (STACK_MAX_SIZE - 1)"
definition STACK_DEF_PAGE :: nat where "STACK_DEF_PAGE = 1"
definition STACK_DEF_SIZE :: u64 where "STACK_DEF_SIZE = 1 * 4096"
definition STACK_INIT_TOP :: u64 where "STACK_INIT_TOP = STACK_MAX - 8"
definition KSTACK_MAX :: u64 where "KSTACK_MAX = 0xFFFFFF0200000000"
definition KSTACK_DEF_PAGE :: nat where "KSTACK_DEF_PAGE = 32"
definition KSTACK_DEF_SIZE :: u64 where "KSTACK_DEF_SIZE = 32 * 4096"
definition KSTACK_INIT_BOT :: u64 where "KSTACK_INIT_BOT = KSTACK_MAX - KSTACK_DEF_SIZE"
definition KSTACK_INIT_TOP :: u64 where "KSTACK_INIT_TOP = KSTACK_MAX - 8"

record Stack =
  st_start :: page
  st_end :: page
  st_usage :: nat

definition stack_new :: "page \<Rightarrow> nat \<Rightarrow> Stack" where
  "stack_new top_page sz = \<lparr>st_start = top_page - sz + 1, st_end = top_page + 1, st_usage = sz\<rparr>"

definition stack_empty :: Stack where
  "stack_empty = \<lparr>st_start = containing_address STACK_INIT_TOP,
     st_end = containing_address STACK_INIT_TOP, st_usage = 0\<rparr>"

definition kstack :: Stack where
  "kstack = \<lparr>st_start = containing_address KSTACK_INIT_BOT,
     st_end = containing_address KSTACK_INIT_TOP, st_usage = KSTACK_DEF_PAGE\<rparr>"

definition stack_min_addr :: "Stack \<Rightarrow> u64" where
  "stack_min_addr st = start_address (st_start st)"

text \<open>The bottom of the first page of the stack of a process: \<open>pid - 1\<close> is a \<open>u16\<close>.\<close>

definition stack_bottom :: "ProcessId \<Rightarrow> u64" where
  "stack_bottom pid = STACK_MAX - ucast (pid_u16 pid - 1) * STACK_MAX_SIZE - STACK_DEF_SIZE"

definition stack_init ::
  "bool \<Rightarrow> ('w, BootInfoFrameAllocator) mapper \<Rightarrow> ProcessId \<Rightarrow> Stack \<Rightarrow> 'w vm_state \<Rightarrow>
   (u64 \<times> Stack \<times> 'w vm_state) exec" where
  "stack_init trace M pid st s =
     (case map_pages trace M allocate_frame (stack_bottom pid) STACK_DEF_PAGE True (vs_paging s) (vs_alloc s) of
        (Ok (lo, hi), w, a) \<Rightarrow>
          Ok (start_address lo + 4096 - 8,
              st\<lparr>st_start := lo, st_end := hi, st_usage := STACK_DEF_PAGE\<rparr>,
              s\<lparr>vs_paging := w, vs_alloc := a\<rparr>)
      | (Hang, w, a) \<Rightarrow> Hang
      | (_, w, a) \<Rightarrow> Panic)"

definition set_stack :: "u64 \<Rightarrow> nat \<Rightarrow> Stack \<Rightarrow> Stack" where
  "set_stack bottom page_num st =
     st\<lparr>st_start := containing_address bottom, st_end := containing_address bottom + page_num\<rparr>"

definition stack_offset :: "Stack \<Rightarrow> Stack \<Rightarrow> u64" where
  "stack_offset st old = start_address (st_start st) - start_address (st_start old)"

definition is_on_stack :: "Stack \<Rightarrow> u64 \<Rightarrow> bool" where
  "is_on_stack st addr \<longleftrightarrow>
     addr AND STACK_START_MASK = start_address (st_start st) AND STACK_START_MASK"

text \<open>
  \<open>self.range.start - new_start_page\<close> panics in the crate when the page is above the start of the
  range.
\<close>

definition grow_stack ::
  "bool \<Rightarrow> ProcessId \<Rightarrow> ('w, BootInfoFrameAllocator) mapper \<Rightarrow> u64 \<Rightarrow> Stack \<Rightarrow> 'w vm_state \<Rightarrow>
   (MapToError, unit) outcome \<times> Stack \<times> 'w vm_state" where
  "grow_stack trace cur M addr st s =
     (let new_start_page = containing_address addr in
      if st_start st < new_start_page then (Panic, st, s)
      else
        let page_count = st_start st - new_start_page; user_access = (cur \<noteq> KERNEL_PID) in
        case map_pages trace M allocate_frame (start_address new_start_page) page_count user_access
               (vs_paging s) (vs_alloc s) of
          (Ok _, w, a) \<Rightarrow>
            (Ok (), st\<lparr>st_start := new_start_page, st_usage := st_end st - new_start_page\<rparr>,
             s\<lparr>vs_paging := w, vs_alloc := a\<rparr>)
        | (Err e, w, a) \<Rightarrow> (Err e, st, s\<lparr>vs_paging := w, vs_alloc := a\<rparr>)
        | (Panic, w, a) \<Rightarrow> (Panic, st, s\<lparr>vs_paging := w, vs_alloc := a\<rparr>)
        | (Hang, w, a) \<Rightarrow> (Hang, st, s\<lparr>vs_paging := w, vs_alloc := a\<rparr>))"

definition stack_handle_page_fault ::
  "bool \<Rightarrow> ProcessId \<Rightarrow> ('w, BootInfoFrameAllocator) mapper \<Rightarrow> u64 \<Rightarrow> Stack \<Rightarrow> 'w vm_state \<Rightarrow>
   (bool \<times> Stack \<times> 'w vm_state) exec" where
  "stack_handle_page_fault trace cur M addr st s =
     (if \<not> is_on_stack st addr then Ok (False, st, s)
      else case grow_stack trace cur M addr st s of
        (Ok _, st', s') \<Rightarrow> Ok (True, st', s')
      | (Err _, st', s') \<Rightarrow> Ok (False, st', s')
      | (Panic, st', s') \<Rightarrow> Panic
      | (Hang, st', s') \<Rightarrow> Hang)"

definition stack_memory_usage :: "Stack \<Rightarrow> nat" where
  "stack_memory_usage st = st_usage st * 4096"

definition stack_clean_up ::
  "('w, BootInfoFrameAllocator) mapper \<Rightarrow> Stack \<Rightarrow> 'w vm_state \<Rightarrow>
   (UnmapError, unit) outcome \<times> Stack \<times> 'w vm_state" where
  "stack_clean_up M st s =
     (if st_usage st = 0 then (Ok (), st, s)
      else case unmap_pages M deallocate_frame (start_address (st_start st)) (st_end st - st_start st) True
                  (vs_paging s) (vs_alloc s) of
        (Ok _, w, a) \<Rightarrow> (Ok (), st\<lparr>st_usage := 0\<rparr>, s\<lparr>vs_paging := w, vs_alloc := a\<rparr>)
      | (r, w, a) \<Rightarrow> (r, st, s\<lparr>vs_paging := w, vs_alloc := a\<rparr>))"

text \<open>
  \<open>clone_range\<close> copies through virtual addresses, that is through the page table in \<open>Cr3\<close>, page by
  page; a page that is not mapped is a fault in the kernel.
\<close>

fun clone_pages ::
  "('w, BootInfoFrameAllocator) mapper \<Rightarrow> page \<Rightarrow> page \<Rightarrow> nat \<Rightarrow> 'w vm_state \<Rightarrow> 'w vm_state exec" where
  "clone_pages M src dst 0 s = Ok s"
| "clone_pages M src dst (Suc n) s =
     (case (translate_page M src (vs_paging s), translate_page M dst (vs_paging s)) of
        (Some f, Some g) \<Rightarrow>
          clone_pages M (src + 1) (dst + 1) n
            (s\<lparr>vs_mem := copy_to_frame (vs_mem s) g (vs_mem s f) 0 4096\<rparr>)
      | _ \<Rightarrow> Panic)"

definition clone_range :: "'w paging \<Rightarrow> u64 \<Rightarrow> u64 \<Rightarrow> nat \<Rightarrow> 'w vm_state \<Rightarrow> 'w vm_state exec" where
  "clone_range P src_addr dest_addr sz s =
     clone_pages (pg_mapper P (cr3_addr (vs_cr3 s))) (containing_address src_addr)
       (containing_address dest_addr) sz s"

text \<open>
  The loop of \<open>fork\<close>: another attempt one stack slot below as long as mapping fails. Subtracting
  below 0 panics in the crate, so the loop ends.
\<close>

function map_child_stack ::
  "bool \<Rightarrow> ('w, BootInfoFrameAllocator) mapper \<Rightarrow> u64 \<Rightarrow> nat \<Rightarrow> 'w vm_state \<Rightarrow> (u64 \<times> 'w vm_state) exec" where
  "map_child_stack trace M child_stack_min pages s =
     (case map_pages trace M allocate_frame child_stack_min pages True (vs_paging s) (vs_alloc s) of
        (Ok _, w, a) \<Rightarrow> Ok (child_stack_min, s\<lparr>vs_paging := w, vs_alloc := a\<rparr>)
      | (Err _, w, a) \<Rightarrow>
          if child_stack_min < STACK_MAX_SIZE then Panic
          else map_child_stack trace M (child_stack_min - STACK_MAX_SIZE) pages
                 (s\<lparr>vs_paging := w, vs_alloc := a\<rparr>)
      | (Panic, w, a) \<Rightarrow> Panic
      | (Hang, w, a) \<Rightarrow> Hang)"
  by pat_completeness auto
termination
proof (relation "measure (\<lambda>(trace, M, m, c, s). unat m)")
  fix m :: u64
  assume "\<not> m < STACK_MAX_SIZE"
  then have "unat (m - STACK_MAX_SIZE) = unat m - unat STACK_MAX_SIZE"
    by (simp add: unat_sub not_less)
  moreover have "0 < unat STACK_MAX_SIZE" "unat STACK_MAX_SIZE \<le> unat m"
    using \<open>\<not> m < STACK_MAX_SIZE\<close> by (simp_all add: STACK_MAX_SIZE_def word_le_nat_alt not_less)
  ultimately have "unat (m - STACK_MAX_SIZE) < unat m" by linarith
  then show "((trace, M, m - STACK_MAX_SIZE, c, s'), trace, M, m, c, s)
      \<in> measure (\<lambda>(trace, M, m, c, s). unat m)" for trace M c s s'
    by simp
qed simp

declare map_child_stack.simps [simp del]

definition stack_fork ::
  "bool \<Rightarrow> 'w paging \<Rightarrow> ('w, BootInfoFrameAllocator) mapper \<Rightarrow> nat \<Rightarrow> Stack \<Rightarrow> 'w vm_state \<Rightarrow>
   (Stack \<times> 'w vm_state) exec" where
  "stack_fork trace P M stack_offset_count st s =
     (if st_start st < stack_offset_count then Panic
      else
        let child_stack_min = start_address (st_start st - stack_offset_count);
            child_stack_count = st_usage st in
        and_then (map_child_stack trace M child_stack_min child_stack_count s) (\<lambda>(m, s1).
        and_then (clone_range P (stack_min_addr st) m child_stack_count s1) (\<lambda>s2.
          Ok (\<lparr>st_start = containing_address m, st_end = containing_address m + child_stack_count,
               st_usage = st_usage st\<rparr>, s2))))"

section \<open>Addresses and slots\<close>

lemma unat_start_address: "p < 2 ^ 52 \<Longrightarrow> unat (start_address p) = p * 4096"
  unfolding start_address_def by (simp only: unsigned_of_nat) (simp add: take_bit_nat_eq_self)

lemma containing_start [simp]: "p < 2 ^ 52 \<Longrightarrow> containing_address (start_address p) = p"
  by (simp only: containing_address_def unat_start_address nonzero_mult_div_cancel_right zero_neq_numeral [symmetric] not_False_eq_True)

lemma containing_less: "containing_address addr < 2 ^ 52"
proof -
  have "unat addr < 2 ^ 52 * 4096" by (rule less_le_trans [OF unsigned_less]) simp
  then show ?thesis unfolding containing_address_def by (rule less_mult_imp_div_less)
qed

lemma and_not_mask_eq_iff:
  fixes x y :: "'a :: len word"
  shows "x AND NOT (mask n) = y AND NOT (mask n) \<longleftrightarrow> drop_bit n x = drop_bit n y"
proof
  assume h: "x AND NOT (mask n) = y AND NOT (mask n)"
  show "drop_bit n x = drop_bit n y"
  proof (rule bit_eqI)
    fix i assume "possible_bit TYPE('a word) i"
    have "bit (x AND NOT (mask n)) (n + i) = bit (y AND NOT (mask n)) (n + i)" using h by simp
    then show "bit (drop_bit n x) i = bit (drop_bit n y) i"
      by (auto simp: bit_drop_bit_eq bit_and_iff bit_not_iff bit_mask_iff dest: bit_imp_possible_bit)
  qed
next
  assume h: "drop_bit n x = drop_bit n y"
  show "x AND NOT (mask n) = y AND NOT (mask n)"
  proof (rule bit_eqI)
    fix i assume "possible_bit TYPE('a word) i"
    have "bit (drop_bit n x) (i - n) = bit (drop_bit n y) (i - n)" using h by simp
    then show "bit (x AND NOT (mask n)) i = bit (y AND NOT (mask n)) i"
      by (auto simp: bit_drop_bit_eq bit_and_iff bit_not_iff bit_mask_iff)
  qed
qed

lemma stack_mask: "STACK_START_MASK = NOT (mask 32)"
  by (simp add: STACK_START_MASK_def STACK_MAX_SIZE_def mask_eq_exp_minus_1)

text \<open>An address is on a stack iff it is in the same slot of 4 GiB as the stack's first page.\<close>

lemma is_on_stack_iff:
  assumes "st_start st < 2 ^ 52"
  shows "is_on_stack st addr \<longleftrightarrow> unat addr div 2 ^ 32 = st_start st div 2 ^ 20"
proof -
  have "is_on_stack st addr \<longleftrightarrow> drop_bit 32 addr = drop_bit 32 (start_address (st_start st))"
    by (simp only: is_on_stack_def stack_mask and_not_mask_eq_iff)
  also have "\<dots> \<longleftrightarrow> unat (drop_bit 32 addr) = unat (drop_bit 32 (start_address (st_start st)))"
    by (simp add: word_unat_eq_iff)
  also have "\<dots> \<longleftrightarrow> unat addr div 2 ^ 32 = st_start st * 4096 div 2 ^ 32"
    by (simp only: unat_drop_bit_eq drop_bit_eq_div [where 'a = nat] unat_start_address [OF assms])
  also have "st_start st * 4096 div 2 ^ 32 = st_start st div 2 ^ 20"
  proof -
    have "st_start st * 4096 div (2 ^ 20 * 4096) = st_start st div 2 ^ 20" by (rule div_mult_mult2) simp
    then show ?thesis by simp
  qed
  finally show ?thesis .
qed

text \<open>The slot of the stack of a process counts down from \<open>STACK_MAX\<close> with its identifier.\<close>

lemma unat_stack_bottom:
  assumes "0 < pid_u16 pid" "pid_u16 pid \<le> 0x4000"
  shows "unat (stack_bottom pid) = 0x400000000000 - (unat (pid_u16 pid) - 1) * 2 ^ 32 - 4096"
proof -
  let ?k = "unat (pid_u16 pid) - 1"
  have u: "unat (pid_u16 pid - 1) = ?k" using assms(1) by (intro unat_minus_one) auto
  have k: "?k < 0x4000" using assms by (simp add: word_le_nat_alt word_less_nat_alt)
  have "unat (ucast (pid_u16 pid - 1) * STACK_MAX_SIZE :: u64) = ?k * 2 ^ 32"
    using k by (simp add: unat_word_ariths unsigned_ucast_eq take_bit_nat_eq_self u STACK_MAX_SIZE_def)
  moreover have "?k * 2 ^ 32 \<le> 0x3FFF00000000" using k by simp
  ultimately show ?thesis
    by (simp add: stack_bottom_def STACK_MAX_def STACK_DEF_SIZE_def unat_sub word_le_nat_alt)
qed

lemma stack_bottom_page:
  assumes "0 < pid_u16 pid" "pid_u16 pid \<le> 0x4000"
  shows "containing_address (stack_bottom pid) = (0x4000 - unat (pid_u16 pid)) * 2 ^ 20 + (2 ^ 20 - 1)"
proof -
  obtain k where k: "unat (pid_u16 pid) = Suc k" "k < 0x4000"
    using assms by (cases "unat (pid_u16 pid)") (auto simp: word_le_nat_alt word_less_nat_alt)
  then obtain d where d: "0x4000 = Suc k + d" by (metis add_Suc less_iff_Suc_add)
  show ?thesis
    using k(1) unfolding containing_address_def unat_stack_bottom [OF assms]
    by (intro div_nat_eqI) (use d in \<open>simp_all add: k(1)\<close>)
qed

section \<open>What the operations of a stack do\<close>

text \<open>
  The stack is the range of its pages, all of them mapped. \<open>vm_ok\<close>: the allocator is well formed
  and no mapped frame is free.
\<close>

definition stack_mapped :: "('w \<Rightarrow> page \<rightharpoonup> frame \<times> PageTableFlags) \<Rightarrow> 'w \<Rightarrow> Stack \<Rightarrow> bool" where
  "stack_mapped \<alpha> w st \<longleftrightarrow> st_start st \<le> st_end st \<and> st_end st < 2 ^ 52 \<and>
     st_usage st = st_end st - st_start st \<and> {st_start st..<st_end st} \<subseteq> dom (\<alpha> w)"

abbreviation vm_ok :: "('w \<Rightarrow> page \<rightharpoonup> frame \<times> PageTableFlags) \<Rightarrow> 'w vm_state \<Rightarrow> bool" where
  "vm_ok \<alpha> s \<equiv> frames_ok fa_free fa_wf \<alpha> (vs_paging s) (vs_alloc s)"

lemma stack_mapped_page: "stack_mapped \<alpha> w st \<Longrightarrow> i < st_usage st \<Longrightarrow> \<exists>f fl. \<alpha> w (st_start st + i) = Some (f, fl)"
proof -
  assume "stack_mapped \<alpha> w st" "i < st_usage st"
  then have "st_start st + i \<in> {st_start st..<st_end st}" "{st_start st..<st_end st} \<subseteq> dom (\<alpha> w)"
    by (auto simp: stack_mapped_def)
  then have "st_start st + i \<in> dom (\<alpha> w)" by blast
  then show ?thesis by auto
qed

lemma grow_stack_Ok:
  assumes laws: "mapper_laws M \<alpha> fa_free fa_wf" and ok: "vm_ok \<alpha> s" "stack_mapped \<alpha> (vs_paging s) st"
    and run: "grow_stack trace cur M addr st s = (Ok u, st', s')"
  shows "stack_mapped \<alpha> (vs_paging s') st'" "vm_ok \<alpha> s'" "\<alpha> (vs_paging s) \<subseteq>\<^sub>m \<alpha> (vs_paging s')"
    "st_start st' = containing_address addr" "st_end st' = st_end st"
    "p \<notin> {st_start st'..<st_start st} \<Longrightarrow> \<alpha> (vs_paging s') p = \<alpha> (vs_paging s) p"
    "p \<in> {st_start st'..<st_start st} \<Longrightarrow>
      \<exists>f \<in> fa_free (vs_alloc s). \<alpha> (vs_paging s') p = Some (f, range_flags (cur \<noteq> KERNEL_PID))"
proof -
  let ?p = "containing_address addr"
  let ?n = "st_start st - ?p"
  obtain r w a where mp: "map_pages trace M allocate_frame (start_address ?p) ?n (cur \<noteq> KERNEL_PID)
      (vs_paging s) (vs_alloc s) = (r, w, a)" by (metis prod_cases3)
  have le: "?p \<le> st_start st" and st': "st' = st\<lparr>st_start := ?p, st_usage := st_end st - ?p\<rparr>"
    and s': "s' = s\<lparr>vs_paging := w, vs_alloc := a\<rparr>" and r: "\<exists>lo hi. r = Ok (lo, hi)"
    using run mp by (auto simp: grow_stack_def Let_def split: if_splits outcome.splits)
  obtain lo hi where lohi: "r = Ok (lo, hi)" using r by blast
  have cs: "containing_address (start_address ?p) = ?p" using containing_less by simp
  have awf: "fa_wf (vs_alloc s)" using ok(1) by (simp add: frames_ok_def)
  note fok = boot_frames.map_pages_frames_ok [OF laws ok(1) mp, unfolded cs]
  obtain fs where fs: "length fs = ?n" "set fs \<subseteq> fa_free (vs_alloc s)"
    "\<forall>i < ?n. \<alpha> w (?p + i) = Some (fs ! i, range_flags (cur \<noteq> KERNEL_PID))"
    using boot_frames.map_pages_Ok [OF laws awf mp [unfolded lohi], unfolded cs] by auto
  have new: "\<exists>f \<in> fa_free (vs_alloc s). \<alpha> w p = Some (f, range_flags (cur \<noteq> KERNEL_PID))"
    if "?p \<le> p" "p < st_start st" for p
    using fs(1,2) fs(3) [rule_format, of "p - ?p"] that by (auto intro!: bexI [of _ "fs ! (p - ?p)"])
  have old: "{st_start st..<st_end st} \<subseteq> dom (\<alpha> w)"
    using ok(2) map_le_implies_dom_le [OF fok(2)] unfolding stack_mapped_def by blast
  have "p \<in> dom (\<alpha> w)" if "?p \<le> p" "p < st_end st" for p
  proof (cases "p < st_start st")
    case True
    then show ?thesis using new [OF that(1)] by auto
  next
    case False
    with that have "p \<in> {st_start st..<st_end st}" by simp
    with old show ?thesis ..
  qed
  then have "{?p..<st_end st} \<subseteq> dom (\<alpha> w)" by (intro subsetI) simp
  then show "stack_mapped \<alpha> (vs_paging s') st'"
    using ok(2) le by (simp add: stack_mapped_def s' st')
  show "vm_ok \<alpha> s'" "\<alpha> (vs_paging s) \<subseteq>\<^sub>m \<alpha> (vs_paging s')" using fok(1,2) by (auto simp: s')
  show "st_start st' = ?p" "st_end st' = st_end st" by (simp_all add: st')
  show "\<alpha> (vs_paging s') p = \<alpha> (vs_paging s) p" if "p \<notin> {st_start st'..<st_start st}"
    using fok(5) [of p] that le by (simp add: s' st')
  show "\<exists>f \<in> fa_free (vs_alloc s). \<alpha> (vs_paging s') p = Some (f, range_flags (cur \<noteq> KERNEL_PID))"
    if "p \<in> {st_start st'..<st_start st}" using new that by (simp add: s' st')
qed

text \<open>Copying pages whose frames are mapped, to frames that are none of the source's.\<close>

lemma clone_pages_copies:
  assumes laws: "mapper_laws M \<alpha> free awf"
  shows "\<lbrakk>length fs = n; length gs = n; distinct gs; set fs \<inter> set gs = {};
     \<forall>i < n. (\<exists>fl. \<alpha> (vs_paging s) (src + i) = Some (fs ! i, fl)) \<and>
       (\<exists>fl. \<alpha> (vs_paging s) (dst + i) = Some (gs ! i, fl))\<rbrakk> \<Longrightarrow>
   \<exists>mem. clone_pages M src dst n s = Ok (s\<lparr>vs_mem := mem\<rparr>) \<and>
     (\<forall>i < n. \<forall>j < 4096. mem (gs ! i) j = vs_mem s (fs ! i) j) \<and>
     (\<forall>g. g \<notin> set gs \<longrightarrow> mem g = vs_mem s g)"
proof (induction n arbitrary: src dst s fs gs)
  case 0
  then show ?case by (intro exI [of _ "vs_mem s"]) simp
next
  case (Suc n)
  obtain f fs' where fs: "fs = f # fs'" using Suc.prems(1) by (metis length_Suc_conv)
  obtain g gs' where gs: "gs = g # gs'" using Suc.prems(2) by (metis length_Suc_conv)
  define s1 where "s1 = s\<lparr>vs_mem := copy_to_frame (vs_mem s) g (vs_mem s f) 0 4096\<rparr>"
  have m: "(\<exists>fl. \<alpha> (vs_paging s) (src + i) = Some (fs ! i, fl)) \<and>
       (\<exists>fl. \<alpha> (vs_paging s) (dst + i) = Some (gs ! i, fl))" if "i < Suc n" for i
    using Suc.prems(5) that by blast
  from m [of 0] have t: "translate_page M src (vs_paging s) = Some f"
      "translate_page M dst (vs_paging s) = Some g"
    using translate_law [OF laws] fs gs by auto
  have "\<exists>mem. clone_pages M (src + 1) (dst + 1) n s1 = Ok (s1\<lparr>vs_mem := mem\<rparr>) \<and>
     (\<forall>i < n. \<forall>j < 4096. mem (gs' ! i) j = vs_mem s1 (fs' ! i) j) \<and>
     (\<forall>g. g \<notin> set gs' \<longrightarrow> mem g = vs_mem s1 g)"
  proof (rule Suc.IH)
    show "\<forall>i < n. (\<exists>fl. \<alpha> (vs_paging s1) (src + 1 + i) = Some (fs' ! i, fl)) \<and>
        (\<exists>fl. \<alpha> (vs_paging s1) (dst + 1 + i) = Some (gs' ! i, fl))"
      using m [of "Suc i" for i] by (simp add: s1_def fs gs)
  qed (use Suc.prems(1-4) fs gs in auto)
  then obtain mem where mem: "clone_pages M (src + 1) (dst + 1) n s1 = Ok (s1\<lparr>vs_mem := mem\<rparr>)"
     "\<forall>i < n. \<forall>j < 4096. mem (gs' ! i) j = vs_mem s1 (fs' ! i) j"
     "\<forall>g. g \<notin> set gs' \<longrightarrow> mem g = vs_mem s1 g" by blast
  have s1: "vs_mem s1 h = vs_mem s h" if "h \<noteq> g" for h using that by (simp add: s1_def copy_to_frame_def)
  have copied: "mem (gs ! i) j = vs_mem s (fs ! i) j" if "i < Suc n" "j < 4096" for i j
  proof (cases i)
    case 0
    have "g \<notin> set gs'" using Suc.prems(3) gs by simp
    with 0 that mem(3) show ?thesis by (simp add: fs gs s1_def copy_to_frame_def)
  next
    case (Suc k)
    with that have "fs' ! k \<in> set fs" using Suc.prems(1) fs by simp
    with Suc.prems(4) gs have "fs' ! k \<noteq> g" by auto
    with Suc that mem(2) s1 show ?thesis by (simp add: fs gs)
  qed
  show ?case
  proof (rule exI [of _ mem], intro conjI)
    show "clone_pages M src dst (Suc n) s = Ok (s\<lparr>vs_mem := mem\<rparr>)"
      using t mem(1) by (simp add: s1_def)
    show "\<forall>i < Suc n. \<forall>j < 4096. mem (gs ! i) j = vs_mem s (fs ! i) j" using copied by blast
    show "\<forall>h. h \<notin> set gs \<longrightarrow> mem h = vs_mem s h" using mem(3) s1 gs by auto
  qed
qed

text \<open>
  The loop of \<open>fork\<close> ends with the child's range mapped to frames that no page had, some number of
  slots below where it began.
\<close>

lemma map_child_stack_Ok:
  "\<lbrakk>mapper_laws M \<alpha> fa_free fa_wf; vm_ok \<alpha> s; map_child_stack trace M m0 n s = Ok (m, s')\<rbrakk> \<Longrightarrow>
    (\<exists>gs. length gs = n \<and> distinct gs \<and>
      (\<forall>i < n. \<alpha> (vs_paging s') (containing_address m + i) = Some (gs ! i, range_flags True) \<and>
         \<alpha> (vs_paging s) (containing_address m + i) = None) \<and>
      (\<forall>p f fl. \<alpha> (vs_paging s) p = Some (f, fl) \<longrightarrow> f \<notin> set gs)) \<and>
    private_pages (\<alpha> (vs_paging s')) {containing_address m..<containing_address m + n} \<and>
    vm_ok \<alpha> s' \<and> \<alpha> (vs_paging s) \<subseteq>\<^sub>m \<alpha> (vs_paging s') \<and>
    s' = s\<lparr>vs_paging := vs_paging s', vs_alloc := vs_alloc s'\<rparr> \<and>
    (\<exists>k. unat m0 = unat m + k * 2 ^ 32)"
proof (induction trace M m0 n s rule: map_child_stack.induct)
  case (1 trace M m0 n s)
  note laws = 1(2) and ok = 1(3) and run = 1(4) [unfolded map_child_stack.simps [of trace M m0 n s]]
  obtain r w a where mp: "map_pages trace M allocate_frame m0 n True (vs_paging s) (vs_alloc s) = (r, w, a)"
    by (metis prod_cases3)
  define s1 where "s1 = s\<lparr>vs_paging := w, vs_alloc := a\<rparr>"
  note fok = boot_frames.map_pages_frames_ok [OF laws ok mp]
  show ?case
  proof (cases r)
    case (Ok lohi)
    then have m: "m = m0" "s' = s1" using run mp by (auto simp: s1_def)
    have awf: "fa_wf (vs_alloc s)" using ok by (simp add: frames_ok_def)
    obtain lo hi where lohi: "r = Ok (lo, hi)" using Ok by (cases lohi) simp
    note mpo = boot_frames.map_pages_Ok [OF laws awf mp [unfolded lohi]]
    obtain gs where "length gs = n" "distinct gs"
        "set gs \<subseteq> fa_free (vs_alloc s)" "\<forall>i < n. \<alpha> (vs_paging s) (containing_address m0 + i) = None \<and>
          \<alpha> w (containing_address m0 + i) = Some (gs ! i, range_flags True)"
      using mpo(3) unfolding mpo(1) by blast
    moreover have "\<forall>p f fl. \<alpha> (vs_paging s) p = Some (f, fl) \<longrightarrow> f \<notin> set gs"
      using ok \<open>set gs \<subseteq> fa_free (vs_alloc s)\<close> unfolding frames_ok_def by blast
    moreover have "private_pages (\<alpha> w) {containing_address m0..<containing_address m0 + n}"
      using boot_frames.map_pages_private [OF laws ok mp [unfolded lohi]] unfolding mpo(1) .
    ultimately show ?thesis
      using fok(1,2) unfolding m by (auto simp: s1_def intro!: exI [of _ gs] exI [of _ 0])
  next
    case (Err e)
    then have nl: "\<not> m0 < STACK_MAX_SIZE"
      and rec: "map_child_stack trace M (m0 - STACK_MAX_SIZE) n s1 = Ok (m, s')"
      using run mp by (auto simp: s1_def split: if_splits)
    have ok1: "vm_ok \<alpha> s1" using fok(1) by (simp add: s1_def)
    have m0: "unat m0 = unat (m0 - STACK_MAX_SIZE) + 2 ^ 32"
      using nl by (simp add: unat_sub not_less word_le_nat_alt STACK_MAX_SIZE_def)
    note IH = 1(1) [OF mp [symmetric] Err refl nl laws ok1 [unfolded s1_def] rec [unfolded s1_def]]
    then obtain gs k where gs: "length gs = n" "distinct gs"
        "\<forall>i < n. \<alpha> (vs_paging s') (containing_address m + i) = Some (gs ! i, range_flags True) \<and>
           \<alpha> w (containing_address m + i) = None"
        "\<forall>p f fl. \<alpha> w p = Some (f, fl) \<longrightarrow> f \<notin> set gs"
      and k: "unat (m0 - STACK_MAX_SIZE) = unat m + k * 2 ^ 32"
      by auto
    have ih: "vm_ok \<alpha> s' \<and> private_pages (\<alpha> (vs_paging s')) {containing_address m..<containing_address m + n}"
        "\<alpha> w \<subseteq>\<^sub>m \<alpha> (vs_paging s')"
        "s' = s\<lparr>vs_paging := vs_paging s', vs_alloc := vs_alloc s'\<rparr>"
      using IH by simp_all
    have up: "\<alpha> w p = \<alpha> (vs_paging s) p" if "p \<in> dom (\<alpha> (vs_paging s))" for p
      using fok(2) that by (simp add: map_le_def)
    have new: "\<forall>i < n. \<alpha> (vs_paging s') (containing_address m + i) = Some (gs ! i, range_flags True) \<and>
        \<alpha> (vs_paging s) (containing_address m + i) = None"
      using gs(3) up by (metis domIff)
    have old: "\<forall>p f fl. \<alpha> (vs_paging s) p = Some (f, fl) \<longrightarrow> f \<notin> set gs"
      using gs(4) up by (metis domI)
    have "unat m0 = unat m + Suc k * 2 ^ 32" using m0 k by simp
    then show ?thesis
      using gs(1,2) new old ih(1,3) map_le_trans [OF fok(2) ih(2)] by blast
  qed (use run mp in auto)
qed

text \<open>
  A forked stack has the size of its parent's and the same contents, in frames of its own, at the
  same place of another slot; the parent's pages, and all other translations, stay.
\<close>

lemma stack_fork_Ok:
  assumes laws: "mapper_laws M \<alpha> fa_free fa_wf" and M: "M = pg_mapper P (cr3_addr (vs_cr3 s))"
    and ok: "vm_ok \<alpha> s" "stack_mapped \<alpha> (vs_paging s) st"
    and run: "stack_fork trace P M off st s = Ok (st', s')"
  shows "st_usage st' = st_usage st" "s' = s\<lparr>vs_paging := vs_paging s', vs_alloc := vs_alloc s', vs_mem := vs_mem s'\<rparr>"
    "private_pages (\<alpha> (vs_paging s')) {st_start st'..<st_end st'}" "st_end st' = st_start st' + st_usage st"
    "\<exists>k. st_start st = st_start st' + off + k * 2 ^ 20" "vm_ok \<alpha> s'"
    "\<alpha> (vs_paging s) \<subseteq>\<^sub>m \<alpha> (vs_paging s')"
    "\<forall>i < st_usage st. \<exists>f fl g. \<alpha> (vs_paging s) (st_start st + i) = Some (f, fl) \<and>
       \<alpha> (vs_paging s) (st_start st' + i) = None \<and>
       \<alpha> (vs_paging s') (st_start st' + i) = Some (g, range_flags True) \<and>
       vs_mem s' f = vs_mem s f \<and> (\<forall>j < 4096. vs_mem s' g j = vs_mem s f j)"
proof -
  let ?n = "st_usage st" and ?w = "vs_paging s"
  have bd: "st_start st < 2 ^ 52" using ok(2) by (simp add: stack_mapped_def)
  obtain m s1 where mc: "map_child_stack trace M (start_address (st_start st - off)) ?n s = Ok (m, s1)"
    and cl: "clone_range P (stack_min_addr st) m ?n s1 = Ok s'" and off: "off \<le> st_start st"
    and st': "st' = \<lparr>st_start = containing_address m, st_end = containing_address m + ?n, st_usage = ?n\<rparr>"
    using run by (auto simp: stack_fork_def Let_def split: if_splits)
  note c = map_child_stack_Ok [OF laws ok(1) mc]
  then obtain gs k where gs: "length gs = ?n" "distinct gs"
      "\<forall>i < ?n. \<alpha> (vs_paging s1) (containing_address m + i) = Some (gs ! i, range_flags True) \<and>
         \<alpha> ?w (containing_address m + i) = None"
      "\<forall>p f fl. \<alpha> ?w p = Some (f, fl) \<longrightarrow> f \<notin> set gs"
    and k: "unat (start_address (st_start st - off)) = unat m + k * 2 ^ 32"
    and priv: "private_pages (\<alpha> (vs_paging s1)) {containing_address m..<containing_address m + ?n}"
    and up: "\<alpha> ?w \<subseteq>\<^sub>m \<alpha> (vs_paging s1)" and ok1: "vm_ok \<alpha> s1"
    and s1: "s1 = s\<lparr>vs_paging := vs_paging s1, vs_alloc := vs_alloc s1\<rparr>"
    by blast
  define fs where "fs = map (\<lambda>i. fst (the (\<alpha> ?w (st_start st + i)))) [0..<?n]"
  have fs: "\<exists>fl. \<alpha> ?w (st_start st + i) = Some (fs ! i, fl)" if "i < ?n" for i
    using stack_mapped_page [OF ok(2) that] that by (auto simp: fs_def)
  have fs1: "\<exists>fl. \<alpha> (vs_paging s1) (st_start st + i) = Some (fs ! i, fl)" if "i < ?n" for i
    using fs [OF that] up by (metis domI map_le_def)
  have dj: "set fs \<inter> set gs = {}"
    using gs(4) fs by (fastforce simp: in_set_conv_nth fs_def)
  have same: "vs_cr3 s1 = vs_cr3 s" "vs_mem s1 = vs_mem s" by (subst s1, simp)+
  have "containing_address (stack_min_addr st) = st_start st" using bd by (simp add: stack_min_addr_def)
  then have cp: "clone_pages M (st_start st) (containing_address m) ?n s1 = Ok s'"
    using cl M by (simp add: clone_range_def same)
  obtain mem where mem: "s' = s1\<lparr>vs_mem := mem\<rparr>"
      "\<forall>i < ?n. \<forall>j < 4096. mem (gs ! i) j = vs_mem s (fs ! i) j" "\<forall>g. g \<notin> set gs \<longrightarrow> mem g = vs_mem s g"
    using clone_pages_copies [OF laws _ gs(1,2) dj, of s1 "st_start st" "containing_address m"]
      fs1 gs(3) cp by (auto simp: fs_def same)
  have eq: "(st_start st - off) * 4096 = unat m + k * 2 ^ 20 * 4096"
    using k bd by (simp add: unat_start_address)
  have "st_start st - off = (st_start st - off) * 4096 div 4096" by simp
  also have "\<dots> = (unat m + k * 2 ^ 20 * 4096) div 4096" by (simp only: eq)
  also have "\<dots> = k * 2 ^ 20 + unat m div 4096" by (rule div_mult_self1) simp
  finally have "st_start st - off = containing_address m + k * 2 ^ 20"
    by (simp only: containing_address_def add.commute)
  then show "\<exists>k. st_start st = st_start st' + off + k * 2 ^ 20"
    using off by (intro exI [of _ k]) (simp add: st')
  show "private_pages (\<alpha> (vs_paging s')) {st_start st'..<st_end st'}" using priv by (simp add: mem(1) st')
  show "s' = s\<lparr>vs_paging := vs_paging s', vs_alloc := vs_alloc s', vs_mem := vs_mem s'\<rparr>"
    unfolding mem(1) by (subst s1) simp
  show "st_usage st' = ?n" "st_end st' = st_start st' + ?n" by (simp_all add: st')
  show "vm_ok \<alpha> s'" "\<alpha> ?w \<subseteq>\<^sub>m \<alpha> (vs_paging s')" using ok1 up by (simp_all add: mem(1))
  show "\<forall>i < ?n. \<exists>f fl g. \<alpha> ?w (st_start st + i) = Some (f, fl) \<and>
       \<alpha> ?w (st_start st' + i) = None \<and> \<alpha> (vs_paging s') (st_start st' + i) = Some (g, range_flags True) \<and>
       vs_mem s' f = vs_mem s f \<and> (\<forall>j < 4096. vs_mem s' g j = vs_mem s f j)"
  proof (intro allI impI)
    fix i assume i: "i < ?n"
    then obtain fl where f: "\<alpha> ?w (st_start st + i) = Some (fs ! i, fl)" using fs by blast
    with gs(4) have "mem (fs ! i) = vs_mem s (fs ! i)" using mem(3) by blast
    with f show "\<exists>f fl g. \<alpha> ?w (st_start st + i) = Some (f, fl) \<and>
       \<alpha> ?w (st_start st' + i) = None \<and> \<alpha> (vs_paging s') (st_start st' + i) = Some (g, range_flags True) \<and>
       vs_mem s' f = vs_mem s f \<and> (\<forall>j < 4096. vs_mem s' g j = vs_mem s f j)"
      using gs(3) mem(2) i by (auto simp: mem(1) st' intro!: exI [of _ "gs ! i"])
  qed
qed

text \<open>A stack that is cleaned up has given back its frames and is no longer mapped.\<close>

lemma stack_clean_up_Ok:
  assumes laws: "mapper_laws M \<alpha> fa_free fa_wf" and ok: "vm_ok \<alpha> s" "stack_mapped \<alpha> (vs_paging s) st"
    and priv: "private_pages (\<alpha> (vs_paging s)) {st_start st..<st_end st}" and pos: "0 < st_usage st"
  shows "\<exists>s'. stack_clean_up M st s = (Ok (), st\<lparr>st_usage := 0\<rparr>, s') \<and> vm_ok \<alpha> s' \<and>
    \<alpha> (vs_paging s') = (\<alpha> (vs_paging s)) |` (- {st_start st..<st_end st})"
proof -
  let ?n = "st_end st - st_start st"
  have st: "st_start st \<le> st_end st" "{st_start st..<st_end st} \<subseteq> dom (\<alpha> (vs_paging s))"
    and c: "containing_address (start_address (st_start st)) = st_start st"
    using ok(2) by (simp_all add: stack_mapped_def)
  obtain w a where "unmap_pages M deallocate_frame (start_address (st_start st)) ?n True
      (vs_paging s) (vs_alloc s) = (Ok (), w, a)"
    "\<alpha> w = (\<alpha> (vs_paging s)) |` (- {st_start st..<st_end st})" "frames_ok fa_free fa_wf \<alpha> w a"
    using boot_frames.unmap_pages_private [OF laws ok(1), of "start_address (st_start st)" ?n] st priv
    unfolding c by auto
  with pos show ?thesis by (simp add: stack_clean_up_def)
qed

end
