(* ===== verification/Vm_Heap.thy ===== *)
theory Vm_Heap
  imports Vm_Stack
begin

text \<open>
  \<open>pkg/kernel/src/proc/vm/heap.rs\<close>: the heap of a user process, grown and shrunk by \<open>brk\<close>. The
  end of the heap is shared by a process and its forks. \<open>heap_ok\<close> is the invariant of a heap: the
  pages below its end, and no other pages of the heap's region, are mapped.
\<close>

section \<open>Heap\<close>

definition HEAP_START :: u64 where "HEAP_START = 0x200000000000"
definition HEAP_PAGES :: u64 where "HEAP_PAGES = 0x100000"
definition HEAP_SIZE :: u64 where "HEAP_SIZE = HEAP_PAGES * 4096"
definition HEAP_END :: u64 where "HEAP_END = HEAP_START + HEAP_SIZE - 8"

record Heap =
  hp_base :: u64
  hp_end :: nat

definition heap_empty :: "'w vm_state \<Rightarrow> Heap \<times> 'w vm_state" where
  "heap_empty s =
     (\<lparr>hp_base = HEAP_START, hp_end = vs_next s\<rparr>,
      s\<lparr>vs_heap_ends := (vs_heap_ends s)(vs_next s \<mapsto> HEAP_START), vs_next := vs_next s + 1\<rparr>)"

definition heap_fork :: "Heap \<Rightarrow> Heap" where
  "heap_fork h = \<lparr>hp_base = hp_base h, hp_end = hp_end h\<rparr>"

definition heap_load :: "Heap \<Rightarrow> 'w vm_state \<Rightarrow> u64 exec" where
  "heap_load h s = unwrap_option (vs_heap_ends s (hp_end h))"

definition heap_swap :: "Heap \<Rightarrow> u64 \<Rightarrow> 'w vm_state \<Rightarrow> 'w vm_state" where
  "heap_swap h v s = s\<lparr>vs_heap_ends := (vs_heap_ends s)(hp_end h \<mapsto> v)\<rparr>"

text \<open>
  The branches of \<open>brk\<close> that move the end: \<open>None\<close> is the early return of \<open>.ok()?\<close>, after which the
  last \<open>trace!\<close> is not reached.
\<close>

definition heap_move ::
  "bool \<Rightarrow> ProcessId \<Rightarrow> ('w, BootInfoFrameAllocator) mapper \<Rightarrow> u64 \<Rightarrow> u64 \<Rightarrow> Heap \<Rightarrow> 'w vm_state \<Rightarrow>
   (u64 option \<times> 'w vm_state) exec" where
  "heap_move trace cur M upper_bound new_end h s =
     (let new_upper_bound = align_up new_end in
      if new_upper_bound = upper_bound then Ok (Some new_end, heap_swap h new_end s)
      else if upper_bound < new_upper_bound then
        (case map_pages trace M allocate_frame upper_bound (unat (new_upper_bound - upper_bound) div 4096)
                (cur \<noteq> KERNEL_PID) (vs_paging s) (vs_alloc s) of
           (Ok _, w, a) \<Rightarrow> Ok (Some new_end, heap_swap h new_end (s\<lparr>vs_paging := w, vs_alloc := a\<rparr>))
         | (Err _, w, a) \<Rightarrow> Ok (None, s\<lparr>vs_paging := w, vs_alloc := a\<rparr>)
         | (Panic, w, a) \<Rightarrow> Panic
         | (Hang, w, a) \<Rightarrow> Hang)
      else
        (case unmap_pages M deallocate_frame new_upper_bound (unat (upper_bound - new_upper_bound) div 4096)
                True (vs_paging s) (vs_alloc s) of
           (Ok _, w, a) \<Rightarrow> Ok (Some new_end, heap_swap h new_end (s\<lparr>vs_paging := w, vs_alloc := a\<rparr>))
         | (Err _, w, a) \<Rightarrow> Ok (None, s\<lparr>vs_paging := w, vs_alloc := a\<rparr>)
         | (Panic, w, a) \<Rightarrow> Panic
         | (Hang, w, a) \<Rightarrow> Hang))"

text \<open>An address outside the region leaves \<open>ret\<close> empty, and the last \<open>trace!\<close> unwraps it.\<close>

definition heap_brk ::
  "bool \<Rightarrow> ProcessId \<Rightarrow> ('w, BootInfoFrameAllocator) mapper \<Rightarrow> u64 option \<Rightarrow> Heap \<Rightarrow> 'w vm_state \<Rightarrow>
   (u64 option \<times> 'w vm_state) exec" where
  "heap_brk trace cur M addr h s =
     and_then (heap_load h s) (\<lambda>now_end.
     let upper_bound = align_up now_end in
     case addr of
       Some new_end \<Rightarrow>
         if HEAP_START \<le> new_end \<and> new_end \<le> HEAP_END then heap_move trace cur M upper_bound new_end h s
         else if trace then Panic else Ok (None, s)
     | None \<Rightarrow> Ok (Some now_end, s))"

definition heap_memory_usage :: "Heap \<Rightarrow> 'w vm_state \<Rightarrow> u64 exec" where
  "heap_memory_usage h s = and_then (heap_load h s) (\<lambda>e. Ok (e - hp_base h))"

definition heap_clean_up ::
  "('w, BootInfoFrameAllocator) mapper \<Rightarrow> Heap \<Rightarrow> 'w vm_state \<Rightarrow> (UnmapError, unit) outcome \<times> 'w vm_state" where
  "heap_clean_up M h s =
     (case vs_heap_ends s (hp_end h) of
        None \<Rightarrow> (Panic, s)
      | Some origin_end \<Rightarrow>
          if origin_end - hp_base h = 0 then (Ok (), s)
          else
            let s1 = heap_swap h (hp_base h) s in
            if containing_address origin_end < containing_address (hp_base h) then (Panic, s1)
            else
              let pages = containing_address origin_end - containing_address (hp_base h) in
              if origin_end = hp_base h then (Ok (), s1)
              else case unmap_pages M deallocate_frame (hp_base h) pages True (vs_paging s1) (vs_alloc s1) of
                (r, w, a) \<Rightarrow> (r, s1\<lparr>vs_paging := w, vs_alloc := a\<rparr>))"

section \<open>What brk does\<close>

text \<open>\<open>page_end e\<close> is the first page that is not below the end \<open>e\<close>.\<close>

definition page_end :: "u64 \<Rightarrow> page" where
  "page_end e = (unat e + 4095) div 4096"

definition heap_region :: "page set" where
  "heap_region = {0x200000000..<0x200100000}"

definition heap_ok :: "('w \<Rightarrow> page \<rightharpoonup> frame \<times> PageTableFlags) \<Rightarrow> Heap \<Rightarrow> 'w vm_state \<Rightarrow> bool" where
  "heap_ok \<alpha> h s \<longleftrightarrow> hp_base h = HEAP_START \<and>
     (\<exists>e. vs_heap_ends s (hp_end h) = Some e \<and> HEAP_START \<le> e \<and> e \<le> HEAP_END \<and>
        dom (\<alpha> (vs_paging s)) \<inter> heap_region = {0x200000000..<page_end e}) \<and>
     private_pages (\<alpha> (vs_paging s)) (dom (\<alpha> (vs_paging s)) \<inter> heap_region)"

lemma containing_HEAP_START [simp]: "containing_address HEAP_START = 0x200000000"
  by (simp add: containing_address_def HEAP_START_def)

lemma heap_bounds:
  assumes "HEAP_START \<le> e" "e \<le> HEAP_END"
  shows "0x200000000 \<le> page_end e" "page_end e \<le> 0x200100000" "unat (align_up e) = page_end e * 4096"
    "containing_address (align_up e) = page_end e"
proof -
  have u: "unat e \<le> 0x2000FFFFFFF8" "0x200000000000 \<le> unat e"
    using assms by (auto simp: HEAP_START_def HEAP_END_def HEAP_SIZE_def HEAP_PAGES_def word_le_nat_alt)
  have "0x200000000 * 4096 \<le> unat e + 4095" using u(2) by simp
  then show "0x200000000 \<le> page_end e" unfolding page_end_def by (simp only: less_eq_div_iff_mult_less_eq zero_less_numeral)
  have "unat e + 4095 < Suc 0x200100000 * 4096" using u(1) by simp
  then have "page_end e < Suc 0x200100000" unfolding page_end_def by (rule less_mult_imp_div_less)
  then show "page_end e \<le> 0x200100000" by simp
  show "unat (align_up e) = page_end e * 4096" using u by (simp add: page_end_def unat_align_up)
  show "containing_address (align_up e) = page_end e" using u by (simp add: page_end_def containing_align_up)
qed

lemma align_up_less_iff:
  assumes "HEAP_START \<le> e" "e \<le> HEAP_END" "HEAP_START \<le> e'" "e' \<le> HEAP_END"
  shows "align_up e < align_up e' \<longleftrightarrow> page_end e < page_end e'" "align_up e = align_up e' \<longleftrightarrow> page_end e = page_end e'"
    "page_end e \<le> page_end e' \<Longrightarrow> unat (align_up e' - align_up e) div 4096 = page_end e' - page_end e"
proof -
  note b = heap_bounds [OF assms(1,2)] heap_bounds [OF assms(3,4)]
  show "align_up e < align_up e' \<longleftrightarrow> page_end e < page_end e'" by (simp add: word_less_nat_alt b)
  show "align_up e = align_up e' \<longleftrightarrow> page_end e = page_end e'" by (simp add: word_unat_eq_iff b)
  assume "page_end e \<le> page_end e'"
  then have "unat (align_up e' - align_up e) = (page_end e' - page_end e) * 4096"
    by (simp add: unat_sub word_le_nat_alt b diff_mult_distrib)
  then show "unat (align_up e' - align_up e) div 4096 = page_end e' - page_end e" by simp
qed

lemma heap_load_swap [simp]: "heap_load h (heap_swap h v s) = Ok v"
  by (simp add: heap_load_def heap_swap_def)

text \<open>
  A request inside the region always returns. It moves the end, keeping the invariant of the heap
  and every translation outside the region; or it was a growth that could not be mapped, and then
  the end stays.
\<close>

lemma heap_move_grow:
  assumes laws: "mapper_laws M \<alpha> fa_free fa_wf" and ok: "vm_ok \<alpha> s" "heap_ok \<alpha> h s"
    and e: "vs_heap_ends s (hp_end h) = Some e" and r: "HEAP_START \<le> e'" "e' \<le> HEAP_END"
    and lt: "page_end e < page_end e'"
  shows "\<exists>r s'. heap_move trace cur M (align_up e) e' h s = Ok (r, s') \<and> vm_ok \<alpha> s' \<and>
    (\<forall>p. p \<notin> heap_region \<longrightarrow> \<alpha> (vs_paging s') p = \<alpha> (vs_paging s) p) \<and>
    (r = Some e' \<and> heap_ok \<alpha> h s' \<and> heap_load h s' = Ok e' \<or> r = None \<and> heap_load h s' = Ok e)"
proof -
  let ?n = "page_end e' - page_end e" and ?w = "vs_paging s"
  have eb: "HEAP_START \<le> e" "e \<le> HEAP_END" and base: "hp_base h = HEAP_START"
    and dom: "dom (\<alpha> ?w) \<inter> heap_region = {0x200000000..<page_end e}"
    and inj: "private_pages (\<alpha> ?w) {0x200000000..<page_end e}"
    using ok(2) e unfolding heap_ok_def by auto
  note b = heap_bounds [OF eb] heap_bounds [OF r] and al = align_up_less_iff [OF eb r]
  obtain q w a where mp: "map_pages trace M allocate_frame (align_up e) ?n (cur \<noteq> KERNEL_PID)
      ?w (vs_alloc s) = (q, w, a)" by (metis prod_cases3)
  let ?s = "s\<lparr>vs_paging := w, vs_alloc := a\<rparr>"
  note fok = boot_frames.map_pages_frames_ok [OF laws ok(1) mp, unfolded b(4)]
  have out: "\<alpha> w p = \<alpha> ?w p" if "p \<notin> heap_region" for p
    using fok(5) [of p] that b lt unfolding heap_region_def by auto
  have qs: "q \<noteq> Panic" "q \<noteq> Hang" using fok(3,4) lt by auto
  have mv: "heap_move trace cur M (align_up e) e' h s =
      (case q of Ok _ \<Rightarrow> Ok (Some e', heap_swap h e' ?s) | Err _ \<Rightarrow> Ok (None, ?s) | Panic \<Rightarrow> Panic | Hang \<Rightarrow> Hang)"
    using mp al lt by (auto simp: heap_move_def Let_def split: outcome.splits)
  show ?thesis
  proof (cases q)
    case (Ok lohi)
    obtain lo hi where lohi: "q = Ok (lo, hi)" using Ok by (cases lohi) simp
    have awf: "fa_wf (vs_alloc s)" using ok(1) by (simp add: frames_ok_def)
    obtain fs where fs: "length fs = ?n" "distinct fs" "set fs \<subseteq> fa_free (vs_alloc s)"
        "\<forall>i < ?n. \<alpha> w (page_end e + i) = Some (fs ! i, range_flags (cur \<noteq> KERNEL_PID))"
      using boot_frames.map_pages_Ok [OF laws awf mp [unfolded lohi], unfolded b(4)] by auto
    have new: "\<alpha> w p = Some (fs ! (p - page_end e), range_flags (cur \<noteq> KERNEL_PID))"
      if "p \<in> {page_end e..<page_end e'}" for p
      using fs(4) [rule_format, of "p - page_end e"] that by auto
    have same: "\<alpha> w p = \<alpha> ?w p" if "p \<notin> {page_end e..<page_end e'}" for p
      using fok(5) [of p] that lt by simp
    have "p \<in> dom (\<alpha> w) \<inter> heap_region \<longleftrightarrow> p \<in> {0x200000000..<page_end e'}" for p
    proof (cases "p \<in> {page_end e..<page_end e'}")
      case True
      then show ?thesis using new [OF True] b by (auto simp: heap_region_def)
    next
      case False
      have "p \<in> dom (\<alpha> w) \<inter> heap_region \<longleftrightarrow> p \<in> dom (\<alpha> ?w) \<inter> heap_region"
        using same [OF False] by (simp add: domIff)
      then show ?thesis using dom False lt by auto
    qed
    then have dom': "dom (\<alpha> w) \<inter> heap_region = {0x200000000..<page_end e'}" by blast
    have "private_pages (\<alpha> w) ({0x200000000..<page_end e} \<union> {page_end e..<page_end e'})"
    proof (rule private_pages_extend [OF inj])
      show "inj_on (\<lambda>p. map_option fst (\<alpha> w p)) {page_end e..<page_end e'}"
        using new fs(1,2) by (auto simp: inj_on_def nth_eq_iff_index_eq)
      have "fs ! (p - page_end e) \<in> fa_free (vs_alloc s)" if "p \<in> {page_end e..<page_end e'}" for p
        using fs(1) that by (intro subsetD [OF fs(3)] nth_mem) auto
      then show "\<forall>p \<in> {page_end e..<page_end e'}. \<exists>f \<in> fa_free (vs_alloc s). \<exists>fl. \<alpha> w p = Some (f, fl)"
        using new by auto
      show "\<forall>p f fl. \<alpha> ?w p = Some (f, fl) \<longrightarrow> f \<notin> fa_free (vs_alloc s)"
        using ok(1) by (simp add: frames_ok_def)
    qed (use same dom in auto)
    moreover have "{0x200000000..<page_end e} \<union> {page_end e..<page_end e'} = {0x200000000..<page_end e'}"
      using b lt by (intro ivl_disj_un_two) simp_all
    ultimately have "heap_ok \<alpha> h (heap_swap h e' ?s)"
      using dom' r base by (simp add: heap_ok_def heap_swap_def)
    then show ?thesis
      using mv Ok out fok(1) by (simp add: heap_swap_def heap_load_def)
  next
    case (Err er)
    then show ?thesis using mv fok(1) out e by (simp add: heap_load_def)
  qed (use qs in auto)
qed

lemma heap_move_shrink:
  assumes laws: "mapper_laws M \<alpha> fa_free fa_wf" and ok: "vm_ok \<alpha> s" "heap_ok \<alpha> h s"
    and e: "vs_heap_ends s (hp_end h) = Some e" and r: "HEAP_START \<le> e'" "e' \<le> HEAP_END"
    and le: "page_end e' \<le> page_end e"
  shows "\<exists>s'. heap_move trace cur M (align_up e) e' h s = Ok (Some e', s') \<and>
    (\<forall>p. p \<notin> heap_region \<longrightarrow> \<alpha> (vs_paging s') p = \<alpha> (vs_paging s) p) \<and>
    vm_ok \<alpha> s' \<and> heap_ok \<alpha> h s' \<and> heap_load h s' = Ok e'"
proof (cases "page_end e' = page_end e")
  case True
  have eb: "HEAP_START \<le> e" "e \<le> HEAP_END" using ok(2) e unfolding heap_ok_def by auto
  have "heap_move trace cur M (align_up e) e' h s = Ok (Some e', heap_swap h e' s)"
    using True align_up_less_iff(2) [OF r eb] by (simp add: heap_move_def)
  then show ?thesis
    using ok e r by (auto simp: heap_swap_def heap_ok_def heap_load_def True)
next
  case False
  let ?n = "page_end e - page_end e'" and ?w = "vs_paging s"
  have lt: "page_end e' < page_end e" using False le by simp
  have eb: "HEAP_START \<le> e" "e \<le> HEAP_END" and base: "hp_base h = HEAP_START"
    and dom: "dom (\<alpha> ?w) \<inter> heap_region = {0x200000000..<page_end e}"
    and inj: "private_pages (\<alpha> ?w) {0x200000000..<page_end e}"
    using ok(2) e unfolding heap_ok_def by auto
  note b = heap_bounds [OF eb] heap_bounds [OF r] and al = align_up_less_iff [OF r eb]
  have A: "{page_end e'..<page_end e' + ?n} \<subseteq> dom (\<alpha> ?w)" "{page_end e'..<page_end e' + ?n} \<subseteq> {0x200000000..<page_end e}"
    using dom b le by auto
  then have "private_pages (\<alpha> ?w) {page_end e'..<page_end e' + ?n}"
    using inj unfolding private_pages_def by blast
  then obtain w a where un: "unmap_pages M deallocate_frame (align_up e') ?n True ?w (vs_alloc s) = (Ok (), w, a)"
    and w: "\<alpha> w = (\<alpha> ?w) |` (- {page_end e'..<page_end e' + ?n})" and fok: "frames_ok fa_free fa_wf \<alpha> w a"
    using boot_frames.unmap_pages_private [OF laws ok(1), of "align_up e'" ?n] A(1) unfolding b(8) by blast
  let ?s = "s\<lparr>vs_paging := w, vs_alloc := a\<rparr>"
  have mv: "heap_move trace cur M (align_up e) e' h s = Ok (Some e', heap_swap h e' ?s)"
    using un al lt by (auto simp: heap_move_def Let_def)
  have "heap_ok \<alpha> h (heap_swap h e' ?s)"
  proof -
    have d: "dom (\<alpha> w) \<inter> heap_region = {0x200000000..<page_end e'}"
    proof -
      have "dom (\<alpha> w) \<inter> heap_region = (dom (\<alpha> ?w) \<inter> heap_region) - {page_end e'..<page_end e}"
        using w le by auto
      then show ?thesis using dom b le by auto
    qed
    have "private_pages (\<alpha> w) {0x200000000..<page_end e'}"
      unfolding private_pages_def
    proof (intro ballI allI impI)
      fix p q assume p: "p \<in> {0x200000000..<page_end e'}" and eq: "map_option fst (\<alpha> w p) = map_option fst (\<alpha> w q)"
      have "p \<in> dom (\<alpha> w)" using p d by blast
      then have "\<alpha> w p = \<alpha> ?w p" "\<alpha> w q = \<alpha> ?w q"
        using eq w by (auto simp: restrict_map_def split: if_splits)
      with eq p le inj show "p = q" unfolding private_pages_def by auto
    qed
    then show ?thesis using d r base by (simp add: heap_ok_def heap_swap_def)
  qed
  moreover have "\<alpha> w p = \<alpha> ?w p" if "p \<notin> heap_region" for p
    using that w b le unfolding heap_region_def by (auto simp: restrict_map_def)
  ultimately show ?thesis using mv fok by (simp add: heap_swap_def heap_load_def)
qed

text \<open>\<open>brk\<close> with an address inside the region.\<close>

lemma heap_brk_in_range:
  assumes "mapper_laws M \<alpha> fa_free fa_wf" "vm_ok \<alpha> s" "heap_ok \<alpha> h s"
    and "HEAP_START \<le> e'" "e' \<le> HEAP_END"
  shows "\<exists>r s'. heap_brk trace cur M (Some e') h s = Ok (r, s') \<and> vm_ok \<alpha> s' \<and>
    (\<forall>p. p \<notin> heap_region \<longrightarrow> \<alpha> (vs_paging s') p = \<alpha> (vs_paging s) p) \<and>
    (r = Some e' \<and> heap_ok \<alpha> h s' \<and> heap_load h s' = Ok e' \<or>
     r = None \<and> heap_load h s' = heap_load h s \<and>
       (\<exists>e. heap_load h s = Ok e \<and> page_end e < page_end e'))"
proof -
  obtain e where e: "vs_heap_ends s (hp_end h) = Some e" using assms(3) unfolding heap_ok_def by blast
  then have brk: "heap_brk trace cur M (Some e') h s = heap_move trace cur M (align_up e) e' h s"
    and ld: "heap_load h s = Ok e"
    using assms(4,5) by (simp_all add: heap_brk_def heap_load_def)
  show ?thesis
  proof (cases "page_end e < page_end e'")
    case True
    with heap_move_grow [OF assms(1-3) e assms(4,5) True, of trace cur] show ?thesis
      unfolding brk ld by fastforce
  next
    case False
    with heap_move_shrink [OF assms(1-3) e assms(4,5), of trace cur] show ?thesis
      unfolding brk ld by (auto simp: not_less)
  qed
qed

text \<open>
  \<open>clean_up\<close> counts the pages up to the page of the end: an end inside a page leaves that page
  mapped, although the heap is reset to its base.
\<close>

lemma heap_clean_up_rest:
  assumes laws: "mapper_laws M \<alpha> fa_free fa_wf" and ok: "vm_ok \<alpha> s" "heap_ok \<alpha> h s"
    and e: "heap_load h s = Ok e" "e \<noteq> HEAP_START"
  shows "\<exists>s'. heap_clean_up M h s = (Ok (), s') \<and> vm_ok \<alpha> s' \<and> heap_load h s' = Ok HEAP_START \<and>
    dom (\<alpha> (vs_paging s')) \<inter> heap_region = {containing_address e..<page_end e} \<and>
    (\<forall>p. p \<notin> heap_region \<longrightarrow> \<alpha> (vs_paging s') p = \<alpha> (vs_paging s) p)"
proof -
  let ?w = "vs_paging s" and ?n = "containing_address e - 0x200000000"
  let ?A = "{0x200000000..<0x200000000 + ?n}"
  have ee: "vs_heap_ends s (hp_end h) = Some e"
    using e(1) by (cases "vs_heap_ends s (hp_end h)") (auto simp: heap_load_def)
  have eb: "HEAP_START \<le> e" "e \<le> HEAP_END" and base: "hp_base h = HEAP_START"
    and dom: "dom (\<alpha> ?w) \<inter> heap_region = {0x200000000..<page_end e}"
    and priv: "private_pages (\<alpha> ?w) {0x200000000..<page_end e}"
    using ok(2) ee unfolding heap_ok_def by auto
  note b = heap_bounds [OF eb]
  have "containing_address HEAP_START \<le> containing_address e"
    using eb(1) unfolding containing_address_def word_le_nat_alt by (rule div_le_mono)
  then have lo: "0x200000000 \<le> containing_address e" by simp
  have hi: "containing_address e \<le> page_end e"
    unfolding containing_address_def page_end_def by (intro div_le_mono) simp
  have A: "?A \<subseteq> dom (\<alpha> ?w)" "?A \<subseteq> {0x200000000..<page_end e}" using dom lo hi by auto
  then have "private_pages (\<alpha> ?w) ?A" using priv unfolding private_pages_def by blast
  then obtain w a where un: "unmap_pages M deallocate_frame HEAP_START ?n True ?w (vs_alloc s) = (Ok (), w, a)"
    and w: "\<alpha> w = (\<alpha> ?w) |` (- ?A)" and fok: "frames_ok fa_free fa_wf \<alpha> w a"
    using boot_frames.unmap_pages_private [OF laws ok(1), of HEAP_START ?n] A(1) by auto
  have "dom (\<alpha> w) \<inter> heap_region = (dom (\<alpha> ?w) \<inter> heap_region) - ?A" using w by auto
  also have "\<dots> = {containing_address e..<page_end e}" using dom lo by auto
  finally have d: "dom (\<alpha> w) \<inter> heap_region = {containing_address e..<page_end e}" .
  have o: "\<alpha> w p = \<alpha> ?w p" if "p \<notin> heap_region" for p
    using that w b hi lo unfolding heap_region_def by (auto simp: restrict_map_def)
  have "heap_clean_up M h s = (Ok (), (heap_swap h HEAP_START s)\<lparr>vs_paging := w, vs_alloc := a\<rparr>)"
    using un ee e(2) lo by (simp add: heap_clean_up_def base heap_swap_def Let_def)
  then show ?thesis using fok d o by (simp add: heap_swap_def heap_load_def)
qed

end
