(* ===== verification/Vm_Process.thy ===== *)
theory Vm_Process
  imports Vm_Heap
begin

text \<open>
  \<open>pkg/kernel/src/proc/vm/mod.rs\<close>: the address space of a process, made of its page table, its
  stack, its heap and the pages of its code, and what dropping it gives back. A range of code pages
  is inclusive, as \<open>elf::load_elf\<close> returns it.
\<close>

section \<open>ProcessVm\<close>

record ProcessVm =
  pv_page_table :: PageTableContext
  pv_stack :: Stack
  pv_heap :: Heap
  pv_code :: "(page \<times> page) list"
  pv_code_usage :: u64

definition vm_new :: "PageTableContext \<Rightarrow> 'w vm_state \<Rightarrow> ProcessVm \<times> 'w vm_state" where
  "vm_new page_table s =
     (let (h, s1) = heap_empty s in
      (\<lparr>pv_page_table = page_table, pv_stack = stack_empty, pv_heap = h, pv_code = [], pv_code_usage = 0\<rparr>, s1))"

definition range_count :: "page \<times> page \<Rightarrow> nat" where
  "range_count r = Suc (snd r) - fst r"

definition code_bytes :: "(page \<times> page) list \<Rightarrow> u64" where
  "code_bytes rs = word_of_nat (sum_list (map range_count rs)) * 4096"

definition init_kernel_vm :: "(page \<times> page) list \<Rightarrow> ProcessVm \<Rightarrow> ProcessVm" where
  "init_kernel_vm pages v = v\<lparr>pv_code := pages, pv_code_usage := code_bytes pages, pv_stack := kstack\<rparr>"

definition vm_brk ::
  "bool \<Rightarrow> ProcessId \<Rightarrow> 'w paging \<Rightarrow> u64 option \<Rightarrow> ProcessVm \<Rightarrow> 'w vm_state \<Rightarrow>
   (u64 option \<times> 'w vm_state) exec" where
  "vm_brk trace cur P addr v s =
     and_then (ptc_mapper P (pv_page_table v) s) (\<lambda>M. heap_brk trace cur M addr (pv_heap v) s)"

definition load_elf_code ::
  "('w, BootInfoFrameAllocator) mapper \<Rightarrow> ElfFile \<Rightarrow> ProcessVm \<Rightarrow> 'w vm_state \<Rightarrow>
   (ProcessVm \<times> 'w vm_state) exec" where
  "load_elf_code M elf v s =
     (case load_elf M allocate_frame elf True (vs_paging s) (vs_alloc s) (vs_mem s) of
        (Ok code, w, a, mem) \<Rightarrow>
          Ok (v\<lparr>pv_code := code, pv_code_usage := code_bytes code\<rparr>,
              s\<lparr>vs_paging := w, vs_alloc := a, vs_mem := mem\<rparr>)
      | (Hang, _) \<Rightarrow> Hang
      | (_, _) \<Rightarrow> Panic)"

definition vm_load_elf ::
  "bool \<Rightarrow> 'w paging \<Rightarrow> ElfFile \<Rightarrow> ProcessId \<Rightarrow> ProcessVm \<Rightarrow> 'w vm_state \<Rightarrow>
   (u64 \<times> ProcessVm \<times> 'w vm_state) exec" where
  "vm_load_elf trace P elf pid v s =
     and_then (ptc_mapper P (pv_page_table v) s) (\<lambda>M.
     and_then (load_elf_code M elf v s) (\<lambda>(v1, s1).
     and_then (stack_init trace M pid (pv_stack v1) s1) (\<lambda>(top_addr, st, s2).
       Ok (top_addr, v1\<lparr>pv_stack := st\<rparr>, s2))))"

definition vm_fork ::
  "bool \<Rightarrow> 'w paging \<Rightarrow> nat \<Rightarrow> ProcessVm \<Rightarrow> 'w vm_state \<Rightarrow> (ProcessVm \<times> 'w vm_state) exec" where
  "vm_fork trace P stack_offset_count v s =
     (let (child_page_table, s1) = ptc_fork (pv_page_table v) s in
      and_then (ptc_mapper P child_page_table s1) (\<lambda>M.
      and_then (stack_fork trace P M stack_offset_count (pv_stack v) s1) (\<lambda>(st, s2).
        Ok (\<lparr>pv_page_table = child_page_table, pv_stack = st, pv_heap = heap_fork (pv_heap v),
             pv_code = [], pv_code_usage = 0\<rparr>, s2))))"

definition vm_handle_page_fault ::
  "bool \<Rightarrow> ProcessId \<Rightarrow> 'w paging \<Rightarrow> u64 \<Rightarrow> ProcessVm \<Rightarrow> 'w vm_state \<Rightarrow>
   (bool \<times> ProcessVm \<times> 'w vm_state) exec" where
  "vm_handle_page_fault trace cur P addr v s =
     and_then (ptc_mapper P (pv_page_table v) s) (\<lambda>M.
     and_then (stack_handle_page_fault trace cur M addr (pv_stack v) s) (\<lambda>(handled, st, s1).
       Ok (handled, v\<lparr>pv_stack := st\<rparr>, s1)))"

definition vm_memory_usage :: "ProcessVm \<Rightarrow> 'w vm_state \<Rightarrow> u64 exec" where
  "vm_memory_usage v s =
     and_then (heap_memory_usage (pv_heap v) s) (\<lambda>h.
       Ok (word_of_nat (stack_memory_usage (pv_stack v)) + h + pv_code_usage v))"

section \<open>Clean up\<close>

fun unmap_code ::
  "('w, BootInfoFrameAllocator) mapper \<Rightarrow> (page \<times> page) list \<Rightarrow> 'w vm_state \<Rightarrow>
   (UnmapError, unit) outcome \<times> 'w vm_state" where
  "unmap_code M [] s = (Ok (), s)"
| "unmap_code M ((lo, hi) # rs) s =
     (case unmap_range M deallocate_frame lo hi True (vs_paging s) (vs_alloc s) of
        (Ok _, w, a) \<Rightarrow> unmap_code M rs (s\<lparr>vs_paging := w, vs_alloc := a\<rparr>)
      | (r, w, a) \<Rightarrow> (r, s\<lparr>vs_paging := w, vs_alloc := a\<rparr>))"

definition free_tables ::
  "('w, BootInfoFrameAllocator) mapper \<Rightarrow> frame \<Rightarrow> 'w vm_state \<Rightarrow> 'w vm_state" where
  "free_tables M root s =
     (case clean_up_tables M (vs_paging s) (vs_alloc s) of
        (w, a) \<Rightarrow> s\<lparr>vs_paging := w, vs_alloc := deallocate_frame root a\<rparr>)"

text \<open>The heap, the code and the tables are freed by the last user of the page table.\<close>

definition vm_clean_up ::
  "'w paging \<Rightarrow> ProcessVm \<Rightarrow> 'w vm_state \<Rightarrow> (UnmapError, unit) outcome \<times> ProcessVm \<times> 'w vm_state" where
  "vm_clean_up P v s =
     (case vs_tables s (ptc_reg (pv_page_table v)) of
        None \<Rightarrow> (Panic, v, s)
      | Some (reg, using) \<Rightarrow>
          let M = pg_mapper P (cr3_addr reg) in
          (case stack_clean_up M (pv_stack v) s of
             (Ok _, st, s1) \<Rightarrow>
               let v1 = v\<lparr>pv_stack := st\<rparr> in
               if using = 1 then
                 (case heap_clean_up M (pv_heap v) s1 of
                    (Ok _, s2) \<Rightarrow>
                      (case unmap_code M (pv_code v) s2 of
                         (Ok _, s3) \<Rightarrow> (Ok (), v1, free_tables M (cr3_addr reg) s3)
                       | (r, s3) \<Rightarrow> (r, v1, s3))
                  | (r, s2) \<Rightarrow> (r, v1, s2))
               else (Ok (), v1, s1)
           | (r, st, s1) \<Rightarrow> (r, v\<lparr>pv_stack := st\<rparr>, s1)))"

text \<open>
  \<open>Drop\<close> logs an error of \<open>clean_up\<close>; then the fields are dropped, the page table among them.
\<close>

definition vm_drop :: "'w paging \<Rightarrow> ProcessVm \<Rightarrow> 'w vm_state \<Rightarrow> 'w vm_state exec" where
  "vm_drop P v s =
     (case vm_clean_up P v s of
        (Panic, _, _) \<Rightarrow> Panic
      | (Hang, _, _) \<Rightarrow> Hang
      | (_, v1, s1) \<Rightarrow> Ok (ptc_drop (pv_page_table v) s1))"

section \<open>Sharing between a process and its forks\<close>

text \<open>
  A fork shares the page table and the heap, has a stack of its own, and no code. Dropping it
  unmaps its stack and nothing else: the pages of the parent, the shared heap end and the parent's
  claim to the page table are as before the fork.
\<close>

lemma vm_fork_Ok:
  assumes laws: "mapper_laws M \<alpha> fa_free fa_wf" and M: "M = pg_mapper P (cr3_addr c)"
    and pt: "vs_tables s (ptc_reg (pv_page_table v)) = Some (c, n)" "vs_cr3 s = c"
    and ok: "vm_ok \<alpha> s" "stack_mapped \<alpha> (vs_paging s) (pv_stack v)"
    and run: "vm_fork trace P off v s = Ok (cv, s1)"
  shows "pv_page_table cv = pv_page_table v" "pv_heap cv = pv_heap v" "pv_code cv = []"
    "vs_tables s1 = (vs_tables s)(ptc_reg (pv_page_table v) \<mapsto> (c, n + 1))"
    "vs_heap_ends s1 = vs_heap_ends s" "vs_cr3 s1 = vs_cr3 s" "vm_ok \<alpha> s1"
    "stack_fork trace P M off (pv_stack v) (s\<lparr>vs_tables := vs_tables s1\<rparr>) = Ok (pv_stack cv, s1)"
proof -
  let ?t = "pv_page_table v"
  define s0 where "s0 = s\<lparr>vs_tables := (vs_tables s)(ptc_reg ?t \<mapsto> (c, n + 1))\<rparr>"
  have f: "ptc_fork ?t s = (?t, s0)" using pt(1) by (simp add: ptc_fork_def s0_def)
  have m: "ptc_mapper P ?t s0 = Ok M" using M by (simp add: ptc_mapper_def ptc_value_def s0_def)
  obtain st where st: "stack_fork trace P M off (pv_stack v) s0 = Ok (st, s1)"
    and cv: "cv = \<lparr>pv_page_table = ?t, pv_stack = st, pv_heap = heap_fork (pv_heap v), pv_code = [], pv_code_usage = 0\<rparr>"
    using run f m by (auto simp: vm_fork_def)
  have M0: "M = pg_mapper P (cr3_addr (vs_cr3 s0))" using M pt(2) by (simp add: s0_def)
  have ok0: "vm_ok \<alpha> s0" "stack_mapped \<alpha> (vs_paging s0) (pv_stack v)" using ok by (simp_all add: s0_def)
  note sf = stack_fork_Ok [OF laws M0 ok0 st]
  have same: "vs_tables s1 = vs_tables s0" "vs_heap_ends s1 = vs_heap_ends s0" "vs_cr3 s1 = vs_cr3 s0"
    by (subst sf(2), simp)+
  show "pv_page_table cv = ?t" "pv_heap cv = pv_heap v" "pv_code cv = []"
    by (simp_all add: cv heap_fork_def)
  show "vs_tables s1 = (vs_tables s)(ptc_reg ?t \<mapsto> (c, n + 1))" "vs_heap_ends s1 = vs_heap_ends s"
    "vs_cr3 s1 = vs_cr3 s" by (simp_all add: same s0_def)
  show "vm_ok \<alpha> s1" by (rule sf)
  show "stack_fork trace P M off (pv_stack v) (s\<lparr>vs_tables := vs_tables s1\<rparr>) = Ok (pv_stack cv, s1)"
    using st by (simp add: cv same) (simp add: s0_def)
qed

lemma vm_drop_shared:
  assumes laws: "mapper_laws M \<alpha> fa_free fa_wf" and M: "M = pg_mapper P (cr3_addr c)"
    and pt: "vs_tables s (ptc_reg (pv_page_table v)) = Some (c, n)" "1 < n"
    and ok: "vm_ok \<alpha> s" "stack_mapped \<alpha> (vs_paging s) (pv_stack v)" "0 < st_usage (pv_stack v)"
    and priv: "private_pages (\<alpha> (vs_paging s)) {st_start (pv_stack v)..<st_end (pv_stack v)}"
  shows "\<exists>s'. vm_drop P v s = Ok s' \<and> vm_ok \<alpha> s' \<and> vs_heap_ends s' = vs_heap_ends s \<and>
    vs_tables s' = (vs_tables s)(ptc_reg (pv_page_table v) \<mapsto> (c, n - 1)) \<and>
    \<alpha> (vs_paging s') = (\<alpha> (vs_paging s)) |` (- {st_start (pv_stack v)..<st_end (pv_stack v)})"
proof -
  obtain s1 where s1: "stack_clean_up M (pv_stack v) s = (Ok (), (pv_stack v)\<lparr>st_usage := 0\<rparr>, s1)"
      "vm_ok \<alpha> s1" "\<alpha> (vs_paging s1) = (\<alpha> (vs_paging s)) |` (- {st_start (pv_stack v)..<st_end (pv_stack v)})"
    using stack_clean_up_Ok [OF laws ok(1,2) priv ok(3)] by blast
  have same: "vs_tables s1 = vs_tables s" "vs_heap_ends s1 = vs_heap_ends s"
    using s1(1) by (auto simp: stack_clean_up_def split: if_splits outcome.splits prod.splits)
  have "vm_clean_up P v s = (Ok (), v\<lparr>pv_stack := (pv_stack v)\<lparr>st_usage := 0\<rparr>\<rparr>, s1)"
    using pt M s1(1) by (simp add: vm_clean_up_def Let_def)
  then show ?thesis using pt s1(2,3) same by (simp add: vm_drop_def ptc_drop_def)
qed

section \<open>Dropping an address space always ends\<close>

text \<open>The crate's mapper behaves as documented at every root table.\<close>

definition paging_laws :: "'w paging \<Rightarrow> bool" where
  "paging_laws P \<longleftrightarrow> (\<forall>root. \<exists>\<alpha>. mapper_laws (pg_mapper P root) \<alpha> fa_free fa_wf)"

abbreviation returns :: "('e, 'a) outcome \<Rightarrow> bool" where
  "returns r \<equiv> r \<noteq> Panic \<and> r \<noteq> Hang"

lemma unmap_loop_returns:
  assumes "mapper_laws M \<alpha> free awf"
  shows "returns (fst (unmap_loop M dealloc b ps w a))"
proof (induction ps arbitrary: w a)
  case (Cons p ps)
  obtain r w1 where "unmap M p w = (r, w1)" by (cases "unmap M p w")
  with Cons unmap_law(5,6) [OF assms this] show ?case by (cases r) auto
qed simp

lemma unmap_pages_returns:
  assumes "mapper_laws M \<alpha> free awf"
  shows "returns (fst (unmap_pages M dealloc addr n b w a))"
  using unmap_loop_returns [OF assms] by (auto simp: unmap_pages_def unmap_range_def Let_def)

lemma stack_clean_up_returns:
  assumes "mapper_laws M \<alpha> free awf" "stack_clean_up M st s = (r, st', s')"
  shows "returns r" "vs_tables s' = vs_tables s" "vs_heap_ends s' = vs_heap_ends s" "vs_cr3 s' = vs_cr3 s" "vs_next s' = vs_next s"
  using assms(2) unmap_pages_returns [OF assms(1), of deallocate_frame "start_address (st_start st)" "st_end st - st_start st" True "vs_paging s" "vs_alloc s"]
  by (auto simp: stack_clean_up_def split: if_splits outcome.splits prod.splits)

lemma heap_clean_up_returns:
  assumes "mapper_laws M \<alpha> free awf" "heap_clean_up M h s = (r, s')"
    and "hp_base h = HEAP_START" "vs_heap_ends s (hp_end h) = Some e" "HEAP_START \<le> e"
  shows "returns r" "vs_tables s' = vs_tables s" "vs_cr3 s' = vs_cr3 s" "vs_next s' = vs_next s"
    "vs_heap_ends s' = (vs_heap_ends s)(hp_end h \<mapsto> HEAP_START)"
proof -
  have "containing_address HEAP_START \<le> containing_address e"
    using assms(5) unfolding containing_address_def word_le_nat_alt by (rule div_le_mono)
  with assms(2-4) unmap_pages_returns [OF assms(1), of deallocate_frame HEAP_START
      "containing_address e - containing_address HEAP_START" True "vs_paging s" "vs_alloc s"]
  show "returns r" "vs_tables s' = vs_tables s" "vs_cr3 s' = vs_cr3 s" "vs_next s' = vs_next s"
    "vs_heap_ends s' = (vs_heap_ends s)(hp_end h \<mapsto> HEAP_START)"
    by (auto simp: heap_clean_up_def heap_swap_def Let_def split: if_splits prod.splits)
qed

lemma unmap_code_returns:
  assumes "mapper_laws M \<alpha> free awf"
  shows "unmap_code M rs s = (r, s') \<Longrightarrow> returns r \<and> vs_tables s' = vs_tables s \<and>
    vs_heap_ends s' = vs_heap_ends s \<and> vs_cr3 s' = vs_cr3 s \<and> vs_next s' = vs_next s"
proof (induction rs arbitrary: s)
  case (Cons lh rs)
  obtain lo hi where lh: "lh = (lo, hi)" by (cases lh)
  obtain r1 w a where u: "unmap_range M deallocate_frame lo hi True (vs_paging s) (vs_alloc s) = (r1, w, a)"
    by (metis prod_cases3)
  have "returns r1" using unmap_loop_returns [OF assms] u unfolding unmap_range_def by (metis fst_conv)
  with Cons.prems u lh Cons.IH [of "s\<lparr>vs_paging := w, vs_alloc := a\<rparr>"] show ?case by (cases r1) auto
qed auto

text \<open>
  The page table loses one user; the shared end of the heap is kept, or is the base again.
\<close>

lemma vm_drop_returns:
  assumes P: "paging_laws P" and pt: "vs_tables s (ptc_reg (pv_page_table v)) = Some (c, n)"
    and h: "hp_base (pv_heap v) = HEAP_START" "vs_heap_ends s (hp_end (pv_heap v)) = Some e" "HEAP_START \<le> e"
  shows "\<exists>s'. vm_drop P v s = Ok s' \<and> vs_cr3 s' = vs_cr3 s \<and> vs_next s' = vs_next s \<and>
    vs_tables s' = (vs_tables s)(ptc_reg (pv_page_table v) := if n \<le> 1 then None else Some (c, n - 1)) \<and>
    (vs_heap_ends s' = vs_heap_ends s \<or> vs_heap_ends s' = (vs_heap_ends s)(hp_end (pv_heap v) \<mapsto> HEAP_START))"
proof -
  let ?M = "pg_mapper P (cr3_addr c)"
  obtain \<alpha> where laws: "mapper_laws ?M \<alpha> fa_free fa_wf" using P unfolding paging_laws_def by blast
  obtain r1 st s1 where sc: "stack_clean_up ?M (pv_stack v) s = (r1, st, s1)" by (metis prod_cases3)
  note a1 = stack_clean_up_returns [OF laws sc]
  obtain r2 s2 where hc: "heap_clean_up ?M (pv_heap v) s1 = (r2, s2)" by (cases "heap_clean_up ?M (pv_heap v) s1")
  have h1: "vs_heap_ends s1 (hp_end (pv_heap v)) = Some e" using h(2) a1(3) by simp
  note a2 = heap_clean_up_returns [OF laws hc h(1) h1 h(3)]
  obtain r3 s3 where uc: "unmap_code ?M (pv_code v) s2 = (r3, s3)" by (cases "unmap_code ?M (pv_code v) s2")
  note a3 = unmap_code_returns [OF laws uc]
  obtain r v1 s' where cu: "vm_clean_up P v s = (r, v1, s')" by (metis prod_cases3)
  have "returns r \<and> vs_tables s' = vs_tables s \<and> vs_cr3 s' = vs_cr3 s \<and> vs_next s' = vs_next s \<and>
    (vs_heap_ends s' = vs_heap_ends s \<or> vs_heap_ends s' = (vs_heap_ends s)(hp_end (pv_heap v) \<mapsto> HEAP_START))"
    using cu a1 a2 a3 pt sc hc uc
    by (cases r1; cases r2; cases r3)
      (auto simp: vm_clean_up_def Let_def free_tables_def split: if_splits prod.splits)
  then show ?thesis using cu pt by (cases r) (auto simp: vm_drop_def ptc_drop_def)
qed

end
