(* ===== verification/Memory_Properties.thy ===== *)
theory Memory_Properties
  imports Vm_Process
begin

text \<open>
  What the memory of the kernel promises: the frame allocator, mapping and unmapping of ranges, the
  loading of a program, the stacks, the heaps and the address spaces of the processes. The witnesses
  run on a flat model of the page tables that has the behaviour the page-table crate documents.
\<close>


section \<open>A model of the page tables\<close>

text \<open>
  The simplest paging structures with the behaviour that \<open>mapper_laws\<close> documents: a translation for
  each root table. The witnesses of the properties run on it.
\<close>

type_synonym flat = "frame \<Rightarrow> page \<rightharpoonup> frame \<times> PageTableFlags"

definition flat_mapper :: "frame \<Rightarrow> (flat, 'a) mapper" where
  "flat_mapper root =
     \<lparr>map_to = (\<lambda>p f fl w a. case w root p of
          None \<Rightarrow> (Ok (), w(root := (w root)(p \<mapsto> (f, fl))), a)
        | Some (g, _) \<Rightarrow> (Err (PageAlreadyMapped g), w, a)),
      unmap = (\<lambda>p w. case w root p of
          None \<Rightarrow> (Err PageNotMapped, w)
        | Some (f, _) \<Rightarrow> (Ok f, w(root := (w root)(p := None)))),
      translate_page = (\<lambda>p w. map_option fst (w root p)),
      clean_up_tables = Pair\<rparr>"

definition flat_paging :: "flat paging" where
  "flat_paging = \<lparr>pg_mapper = flat_mapper, pg_copy_l4 = (\<lambda>old new w. w(new := w old))\<rparr>"

lemma flat_mapper_laws: "mapper_laws (flat_mapper root) (\<lambda>w. w root) free awf"
  by (auto simp: mapper_laws_def flat_mapper_def split: option.splits)

lemma flat_paging_laws: "paging_laws flat_paging"
  unfolding paging_laws_def flat_paging_def using flat_mapper_laws by auto

section \<open>Frames\<close>

text \<open>The frames of the usable regions of a memory map, and a history of allocations and returns: \<open>H\<close> is held.\<close>

definition usable_frames :: "MemoryDescriptor list \<Rightarrow> frame set" where
  "usable_frames ms = (\<Union>r \<in> {r \<in> set ms. md_ty r = CONVENTIONAL}. region_frames r)"

inductive frame_history :: "MemoryDescriptor list \<Rightarrow> BootInfoFrameAllocator \<Rightarrow> frame set \<Rightarrow> bool" for ms where
  start: "frame_history ms (frame_alloc_init ms sz) {}"
| give: "frame_history ms a H \<Longrightarrow> allocate_frame a = (Some f, a') \<Longrightarrow> frame_history ms a' (insert f H)"
| fail: "frame_history ms a H \<Longrightarrow> allocate_frame a = (None, a') \<Longrightarrow> frame_history ms a' H"
| take_back: "frame_history ms a H \<Longrightarrow> f \<in> H \<Longrightarrow> frame_history ms (deallocate_frame f a) (H - {f})"

lemma frame_alloc_init_free:
  "memory_map_wf ms \<Longrightarrow> fa_free (frame_alloc_init ms sz) = usable_frames ms"
proof (induction ms)
  case Nil
  then show ?case by (simp add: fa_free_def frame_alloc_init_def create_frame_iter_def usable_frames_def)
next
  case (Cons r ms)
  have "set (map (\<lambda>v. unat (phys_start r) div 4096 + v) [0..<unat (page_count r)]) = region_frames r"
    by (auto simp: region_frames_def image_iff)
  moreover have "set (create_frame_iter ms) = usable_frames ms"
    using Cons.IH memory_map_wf_Cons(1) [OF Cons.prems] by (simp add: fa_free_def frame_alloc_init_def)
  ultimately show ?case
    by (auto simp: fa_free_def frame_alloc_init_def create_frame_iter_Cons [OF Cons.prems] usable_frames_def)
qed

lemma frame_history_free:
  assumes "frame_history ms a H" "memory_map_wf ms"
  shows "fa_wf a \<and> fa_free a \<inter> H = {} \<and> fa_free a \<union> H = usable_frames ms"
  using assms
proof (induction rule: frame_history.induct)
  case (start sz)
  then show ?case by (simp add: frame_alloc_init_wf frame_alloc_init_free)
next
  case (give a H f a')
  then show ?case using boot_frames.alloc_Some [of a f a'] by auto
next
  case (fail a H a')
  then show ?case using boot_frames.alloc_None [of a a'] by auto
next
  case (take_back a H f)
  then have "f \<notin> fa_free a" by auto
  then show ?case using take_back boot_frames.dealloc_free [of a f] by auto
qed

text \<open>
  C4. Whatever sequence of allocations and returns came before, the frame allocator gives a usable
  frame that nobody holds, and it fails only when every usable frame of the memory map is held.
\<close>

theorem frame_given_is_free:
  assumes "memory_map_wf ms" "frame_history ms a H"
  shows "case allocate_frame a of (Some f, _) \<Rightarrow> f \<in> usable_frames ms \<and> f \<notin> H | (None, _) \<Rightarrow> H = usable_frames ms"
proof -
  note h = frame_history_free [OF assms(2,1)]
  obtain r a' where "allocate_frame a = (r, a')" by (cases "allocate_frame a")
  then show ?thesis
    using h boot_frames.alloc_Some [of a _ a'] boot_frames.alloc_None [of a a'] by (cases r) auto
qed

definition two_regions :: "MemoryDescriptor list" where
  "two_regions = [\<lparr>md_ty = CONVENTIONAL, phys_start = 0x1000, page_count = 2\<rparr>,
                  \<lparr>md_ty = OtherMemory 3, phys_start = 0x3000, page_count = 1\<rparr>]"

theorem frame_given_is_free_witness:
  "case allocate_frame (deallocate_frame 1 (snd (allocate_frame (frame_alloc_init two_regions 2)))) of
     (Some f, _) \<Rightarrow> f \<in> usable_frames two_regions \<and> f \<notin> {1} - {1} | (None, _) \<Rightarrow> {1} - {1} = usable_frames two_regions"
proof (rule frame_given_is_free)
  show "memory_map_wf two_regions"
    by (auto simp: memory_map_wf_def two_regions_def region_frames_def less_Suc_eq)
  have "allocate_frame (frame_alloc_init two_regions 2) =
      (Some 1, snd (allocate_frame (frame_alloc_init two_regions 2)))"
    by (simp add: frame_alloc_init_def two_regions_def create_frame_iter_def allocate_frame_def upt_rec [of 0] Let_def)
  from frame_history.give [OF frame_history.start this]
  have "frame_history two_regions (snd (allocate_frame (frame_alloc_init two_regions 2))) {1}" .
  then show "frame_history two_regions
      (deallocate_frame 1 (snd (allocate_frame (frame_alloc_init two_regions 2)))) ({1} - {1})"
    by (rule frame_history.take_back) simp
qed

section \<open>Pages\<close>

text \<open>
  C14. Mapping a range of pages that are not mapped and unmapping it again returns, restores every
  translation, and makes the frames that the pages had free again.
\<close>

theorem map_unmap_pages:
  assumes "mapper_laws M \<alpha> fa_free fa_wf" "frames_ok fa_free fa_wf \<alpha> w a"
    and "map_pages trace M allocate_frame addr n user w a = (Ok r, w1, a1)"
  shows "\<exists>w2 a2. unmap_pages M deallocate_frame addr n True w1 a1 = (Ok (), w2, a2) \<and> \<alpha> w2 = \<alpha> w \<and>
    frames_ok fa_free fa_wf \<alpha> w2 a2 \<and>
    (\<forall>i < n. \<exists>f. \<alpha> w1 (containing_address addr + i) = Some (f, range_flags user) \<and> f \<in> fa_free a \<inter> fa_free a2)"
proof -
  let ?lo = "containing_address addr"
  obtain lo hi where r: "r = (lo, hi)" by (cases r)
  note m = assms(3) [unfolded r]
  have wf: "fa_wf a" using assms(2) by (simp add: frames_ok_def)
  note mo = boot_frames.map_pages_Ok [OF assms(1) wf m]
  obtain fs where fs: "length fs = n" "distinct fs" "set fs \<subseteq> fa_free a"
      "\<forall>i < n. \<alpha> w (?lo + i) = None \<and> \<alpha> w1 (?lo + i) = Some (fs ! i, range_flags user)"
    using mo by auto
  note ok1 = boot_frames.map_pages_frames_ok [OF assms(1,2) m]
  obtain w2 a2 where u: "unmap_pages M deallocate_frame addr n True w1 a1 = (Ok (), w2, a2)"
      "\<alpha> w2 = (\<alpha> w1) |` (- {?lo..<?lo + n})" "fa_free a2 = fa_free a1 \<union> set fs"
    using boot_frames.unmap_pages_Ok [OF assms(1) ok1(1) fs(1,2), of addr] fs(4) by auto
  have "frames_ok fa_free fa_wf \<alpha> w2 a2"
    using boot_frames.unmap_pages_private [OF assms(1) ok1(1), of addr n] u(1)
      boot_frames.map_pages_private [OF assms(1,2) m] mo(1) fs(4) by (fastforce simp: subset_iff dom_def nat_le_iff_add)
  moreover have "\<alpha> w2 = \<alpha> w"
  proof
    fix p show "\<alpha> w2 p = \<alpha> w p"
      using ok1(5) [of p] fs(4) [rule_format, of "p - ?lo"] by (auto simp: u(2) restrict_map_def)
  qed
  ultimately show ?thesis using u fs by (auto simp: subset_iff)
qed

theorem map_unmap_pages_witness:
  fixes a :: BootInfoFrameAllocator
  defines "a \<equiv> \<lparr>fa_size = 9, fa_used = 0, fa_frames = [4, 5], fa_recycled = []\<rparr>"
  shows "\<exists>w2 a2. unmap_pages (flat_mapper 0) deallocate_frame 0x7000 2 True
      ((\<lambda>_. Map.empty)(0 := [7 \<mapsto> (4, range_flags True), 8 \<mapsto> (5, range_flags True)]))
      \<lparr>fa_size = 9, fa_used = 2, fa_frames = [], fa_recycled = []\<rparr> = (Ok (), w2, a2) \<and> w2 0 = Map.empty"
proof -
  have m: "map_pages True (flat_mapper 0) allocate_frame 0x7000 2 True (\<lambda>_. Map.empty) a =
      (Ok (7, 9), (\<lambda>_. Map.empty)(0 := [7 \<mapsto> (4, range_flags True), 8 \<mapsto> (5, range_flags True)]),
       \<lparr>fa_size = 9, fa_used = 2, fa_frames = [], fa_recycled = []\<rparr>)"
    by (simp add: a_def map_pages_def map_range_def containing_address_def Let_def flat_mapper_def allocate_frame_def
        upt_rec [of 7] upt_rec [of 8])
  have "frames_ok fa_free fa_wf (\<lambda>w. w 0) (\<lambda>_. Map.empty) a" by (simp add: frames_ok_def fa_wf_def a_def)
  from map_unmap_pages [OF flat_mapper_laws this m] show ?thesis by auto
qed

section \<open>Programs\<close>

text \<open>
  C2. After a program is loaded, every byte of each of its page-aligned \<open>Load\<close> segments is where the
  page table says, with the flags of the segment: the bytes of the file, and zeros up to the
  memory size. Loading a segment does not disturb the ones before it.
\<close>

theorem program_loaded:
  assumes "mapper_laws M \<alpha> fa_free fa_wf" "frames_ok fa_free fa_wf \<alpha> w a"
    and "load_elf M allocate_frame elf user w a mem = (Ok rs, w', a', mem')"
    and "s \<in> set (elf_program_iter elf)" "ph_type s = Some SegLoad"
    and "\<forall>s \<in> set (elf_program_iter elf). ph_type s = Some SegLoad \<longrightarrow> aligned_segment s"
  shows "in_memory (\<alpha> w') mem' elf user s"
  using boot_frames.load_segments_image [OF assms(1) assms(3) [unfolded load_elf_def] assms(2,6)] assms(4,5) by simp

definition two_byte_program :: ElfFile where
  "two_byte_program = \<lparr>elf_input = (\<lambda>_. 7), elf_program_iter =
     [\<lparr>ph_type = Some SegLoad, ph_mem_size = 3, ph_file_size = 2, ph_offset = 0, ph_virtual_addr = 0x1000,
       ph_is_execute = True, ph_is_write = False\<rparr>], elf_entry_point = 0x1000\<rparr>"

theorem program_loaded_witness:
  "\<exists>w' a' mem'. load_elf (flat_mapper 0) allocate_frame two_byte_program True (\<lambda>_. Map.empty)
      \<lparr>fa_size = 9, fa_used = 0, fa_frames = [4], fa_recycled = []\<rparr> (\<lambda>_ _. 9) = (Ok [(1, 1)], w', a', mem') \<and>
    in_memory (w' 0) mem' two_byte_program True (hd (elf_program_iter two_byte_program))"
proof -
  let ?s = "hd (elf_program_iter two_byte_program)"
    and ?a = "\<lparr>fa_size = 9, fa_used = 0, fa_frames = [4], fa_recycled = []\<rparr>"
  obtain w' a' mem' where run: "load_elf (flat_mapper 0) allocate_frame two_byte_program True (\<lambda>_. Map.empty) ?a (\<lambda>_ _. 9) =
      (Ok [(1, 1)], w', a', mem')"
    by (simp add: load_elf_def two_byte_program_def load_segment_def Let_def containing_address_def align_up_def
        canonical_def flat_mapper_def allocate_frame_def upt_rec [of 1])
  have "frames_ok fa_free fa_wf (\<lambda>w. w 0) (\<lambda>_. Map.empty) ?a" by (simp add: frames_ok_def fa_wf_def)
  from program_loaded [OF flat_mapper_laws this run, of ?s] run show ?thesis
    by (auto simp: two_byte_program_def aligned_segment_def)
qed

section \<open>Stacks\<close>



text \<open>
  C16. A page fault that the stack handles was on the slot of that stack. Afterwards the page of the
  fault is mapped, the stack reaches down to it, and no translation outside the slot has changed.
\<close>

theorem stack_fault_handled:
  assumes laws: "mapper_laws M \<alpha> fa_free fa_wf" and ok: "vm_ok \<alpha> s" "stack_mapped \<alpha> (vs_paging s) st" "0 < st_usage st"
    and run: "stack_handle_page_fault trace cur M addr st s = Ok (True, st', s')"
  shows "containing_address addr \<in> dom (\<alpha> (vs_paging s')) \<and> st_start st' = containing_address addr \<and>
    st_end st' = st_end st \<and> stack_mapped \<alpha> (vs_paging s') st' \<and> vm_ok \<alpha> s' \<and>
    (\<forall>p. p div 2 ^ 20 \<noteq> st_start st div 2 ^ 20 \<longrightarrow> \<alpha> (vs_paging s') p = \<alpha> (vs_paging s) p)"
proof -
  have on: "is_on_stack st addr" and "\<exists>u. grow_stack trace cur M addr st s = (Ok u, st', s')"
    using run by (auto simp: stack_handle_page_fault_def split: if_split_asm outcome.split_asm prod.split_asm)
  then obtain u where gr: "grow_stack trace cur M addr st s = (Ok u, st', s')" by blast
  note g = grow_stack_Ok [OF laws ok(1,2) gr]
  have lt: "st_start st < 2 ^ 52" using ok(2) by (simp add: stack_mapped_def)
  have le: "containing_address addr \<le> st_start st"
    using gr by (auto simp: grow_stack_def Let_def split: if_split_asm)
  have slot: "containing_address addr div 2 ^ 20 = st_start st div 2 ^ 20"
    using on is_on_stack_iff [OF lt] by (simp add: containing_address_def div_mult2_eq [symmetric])
  have "st_start st < st_end st" using ok(2,3) by (simp add: stack_mapped_def)
  then have "containing_address addr \<in> {st_start st'..<st_end st'}" using g(4,5) le by simp
  then have "containing_address addr \<in> dom (\<alpha> (vs_paging s'))" using g(1) unfolding stack_mapped_def by blast
  moreover have "\<alpha> (vs_paging s') p = \<alpha> (vs_paging s) p" if "p div 2 ^ 20 \<noteq> st_start st div 2 ^ 20" for p
  proof (rule g(6))
    show "p \<notin> {st_start st'..<st_start st}"
    proof
      assume "p \<in> {st_start st'..<st_start st}"
      then have "containing_address addr \<le> p" "p \<le> st_start st" using g(4) by auto
      then have "containing_address addr div 2 ^ 20 \<le> p div 2 ^ 20" "p div 2 ^ 20 \<le> st_start st div 2 ^ 20"
        by (simp_all add: div_le_mono)
      with that slot show False by simp
    qed
  qed
  ultimately show ?thesis using g by blast
qed

definition one_page_stack :: Stack where
  "one_page_stack = \<lparr>st_start = 5, st_end = 6, st_usage = 1\<rparr>"

definition one_page_vm :: "flat vm_state" where
  "one_page_vm = \<lparr>vs_paging = (\<lambda>_. [5 \<mapsto> (3, 7)]), vs_alloc = \<lparr>fa_size = 9, fa_used = 0, fa_frames = [8, 4], fa_recycled = []\<rparr>,
     vs_mem = (\<lambda>f i. of_nat f), vs_cr3 = \<lparr>cr3_addr = 0, cr3_flags = 0\<rparr>,
     vs_tables = [0 \<mapsto> (\<lparr>cr3_addr = 0, cr3_flags = 0\<rparr>, 1)], vs_heap_ends = [1 \<mapsto> HEAP_START], vs_next = 2\<rparr>"

lemma one_page_ok: "vm_ok (\<lambda>w. w 0) one_page_vm" "stack_mapped (\<lambda>w. w 0) (vs_paging one_page_vm) one_page_stack"
  by (auto simp: one_page_vm_def one_page_stack_def frames_ok_def fa_free_def fa_wf_def stack_mapped_def)

theorem stack_fault_handled_witness:
  "\<exists>st' s'. stack_handle_page_fault True (ProcessId 2) (flat_mapper 0) 0x4010 one_page_stack one_page_vm = Ok (True, st', s') \<and>
     containing_address 0x4010 \<in> dom (vs_paging s' 0)"
proof -
  obtain st' s' where run: "stack_handle_page_fault True (ProcessId 2) (flat_mapper 0) 0x4010 one_page_stack one_page_vm = Ok (True, st', s')"
    by (simp add: stack_handle_page_fault_def is_on_stack_def one_page_stack_def one_page_vm_def STACK_START_MASK_def STACK_MAX_SIZE_def
        STACK_MAX_PAGES_def start_address_def grow_stack_def containing_address_def Let_def map_pages_def map_range_def flat_mapper_def
        allocate_frame_def KERNEL_PID_def)
  from stack_fault_handled [OF flat_mapper_laws one_page_ok _ run] show ?thesis
    using run by (auto simp: one_page_stack_def)
qed




section \<open>Address spaces\<close>

text \<open>
  C13. Forking an address space and dropping the fork gives back what there was: every translation is
  still there, the pages of the fork's stack are gone, and the count of the page table and the ends
  of the heaps are as before the fork.
\<close>

theorem fork_then_drop:
  assumes laws: "mapper_laws M \<alpha> fa_free fa_wf" and M: "M = pg_mapper P (cr3_addr c)"
    and pt: "vs_tables s (ptc_reg (pv_page_table v)) = Some (c, n)" "0 < n" "vs_cr3 s = c"
    and ok: "vm_ok \<alpha> s" "stack_mapped \<alpha> (vs_paging s) (pv_stack v)" "0 < st_usage (pv_stack v)"
    and run: "vm_fork trace P off v s = Ok (cv, s1)"
  shows "\<exists>s2. vm_drop P cv s1 = Ok s2 \<and> \<alpha> (vs_paging s) \<subseteq>\<^sub>m \<alpha> (vs_paging s2) \<and>
    dom (\<alpha> (vs_paging s2)) \<inter> {st_start (pv_stack cv)..<st_end (pv_stack cv)} = {} \<and>
    vs_tables s2 = vs_tables s \<and> vs_heap_ends s2 = vs_heap_ends s \<and> vm_ok \<alpha> s2"
proof -
  let ?r = "ptc_reg (pv_page_table v)" and ?st = "pv_stack cv"
  note f = vm_fork_Ok [OF laws M pt(1,3) ok(1,2) run]
  let ?s0 = "s\<lparr>vs_tables := vs_tables s1\<rparr>"
  have M0: "M = pg_mapper P (cr3_addr (vs_cr3 ?s0))" using M pt(3) by simp
  have k: "stack_mapped \<alpha> (vs_paging ?s0) (pv_stack v)" "vm_ok \<alpha> ?s0" using ok by simp_all
  note sf = stack_fork_Ok [OF laws M0 k(2,1) f(8)]
  have dom: "{st_start ?st..<st_end ?st} \<subseteq> dom (\<alpha> (vs_paging s1))"
  proof
    fix p assume "p \<in> {st_start ?st..<st_end ?st}"
    then obtain i where "p = st_start ?st + i" "i < st_usage (pv_stack v)" using sf(4) by (auto simp: nat_le_iff_add)
    then show "p \<in> dom (\<alpha> (vs_paging s1))" using sf(8) by blast
  qed
  obtain j where j: "st_start (pv_stack v) = st_start ?st + off + j * 2 ^ 20" using sf(5) by blast
  then have "st_start ?st \<le> st_start (pv_stack v)" by simp
  then have sm: "stack_mapped \<alpha> (vs_paging s1) ?st"
    using dom sf(1,4) ok(2) unfolding stack_mapped_def by auto
  have pt1: "vs_tables s1 (ptc_reg (pv_page_table cv)) = Some (c, n + 1)" "1 < n + 1" using f(1,4) pt(2) by simp_all
  obtain s2 where d: "vm_drop P cv s1 = Ok s2" "vm_ok \<alpha> s2" "vs_heap_ends s2 = vs_heap_ends s1"
      "vs_tables s2 = (vs_tables s1)(ptc_reg (pv_page_table cv) \<mapsto> (c, n + 1 - 1))"
      "\<alpha> (vs_paging s2) = (\<alpha> (vs_paging s1)) |` (- {st_start ?st..<st_end ?st})"
    using vm_drop_shared [OF laws M pt1 f(7) sm _ sf(3)] sf(1) ok(3) by auto
  have none: "\<alpha> (vs_paging s) p = None" if "p \<in> {st_start ?st..<st_end ?st}" for p
  proof -
    from that obtain i where "p = st_start ?st + i" "i < st_usage (pv_stack v)" using sf(4) by (auto simp: nat_le_iff_add)
    then show ?thesis using sf(8) by auto
  qed
  have "\<alpha> (vs_paging s) \<subseteq>\<^sub>m \<alpha> (vs_paging s2)"
    unfolding map_le_def
  proof
    fix p assume p: "p \<in> dom (\<alpha> (vs_paging s))"
    then have "p \<notin> {st_start ?st..<st_end ?st}" using none by (metis domIff)
    then show "\<alpha> (vs_paging s) p = \<alpha> (vs_paging s2) p" using sf(7) p by (simp add: d(5) map_le_def)
  qed
  moreover have "dom (\<alpha> (vs_paging s2)) \<inter> {st_start ?st..<st_end ?st} = {}" by (auto simp: d(5))
  moreover have "vs_tables s2 = vs_tables s" using d(4) f(1,4) pt(1) by (auto simp: fun_upd_idem)
  ultimately show ?thesis using d f(5) by auto
qed

definition one_page_space :: ProcessVm where
  "one_page_space = \<lparr>pv_page_table = \<lparr>ptc_reg = 0\<rparr>, pv_stack = one_page_stack, pv_heap = \<lparr>hp_base = HEAP_START, hp_end = 1\<rparr>,
     pv_code = [], pv_code_usage = 0\<rparr>"

theorem fork_then_drop_witness:
  "\<exists>cv s1 s2. vm_fork True flat_paging 2 one_page_space one_page_vm = Ok (cv, s1) \<and> vm_drop flat_paging cv s1 = Ok s2 \<and>
     vs_paging one_page_vm 0 \<subseteq>\<^sub>m vs_paging s2 0 \<and> vs_tables s2 = vs_tables one_page_vm"
proof -
  obtain cv s1 where run: "vm_fork True flat_paging 2 one_page_space one_page_vm = Ok (cv, s1)"
    by (simp add: vm_fork_def ptc_fork_def ptc_mapper_def ptc_value_def one_page_space_def unwrap_option_def
        stack_fork_def one_page_stack_def one_page_vm_def Let_def start_address_def map_child_stack.simps [of True]
        map_pages_def map_range_def containing_address_def flat_mapper_def flat_paging_def allocate_frame_def clone_range_def stack_min_addr_def)
  have M: "flat_mapper 0 = pg_mapper flat_paging (cr3_addr (\<lparr>cr3_addr = 0, cr3_flags = 0\<rparr> :: Cr3RegValue))"
    by (simp add: flat_paging_def)
  show ?thesis
    using fork_then_drop [OF flat_mapper_laws M _ _ _ one_page_ok(1) _ _ run, of 1] run one_page_ok(2)
    by (auto simp: one_page_space_def one_page_vm_def one_page_stack_def)
qed

section \<open>Heaps\<close>






end
