(* ===== verification/Proc_Resource.thy ===== *)
theory Proc_Resource
  imports Storage_Mount Vm_Process
begin

text \<open>
  \<open>pkg/kernel/src/{drivers/input,utils/resource}.rs\<close>: the keyboard buffer, and the resources behind
  the file descriptors of a process. The crate's \<open>ArrayQueue\<close> is the list of its keys, at most 128.
  A function that waits for keys takes the keys that will arrive; one that runs out of them never
  returns. The console is the list of the bytes printed. A result of type \<open>isize\<close> is the word it is
  passed on as.
\<close>

section \<open>The input buffer (input.rs)\<close>

definition push_key :: "u8 \<Rightarrow> u8 list \<Rightarrow> u8 list" where
  "push_key key buf = (if length buf < 128 then buf @ [key] else buf)"

definition try_pop_key :: "u8 list \<Rightarrow> u8 option \<times> u8 list" where
  "try_pop_key buf = (case buf of [] \<Rightarrow> (None, []) | k # ks \<Rightarrow> (Some k, ks))"

definition pop_key :: "u8 list \<Rightarrow> (u8 \<times> u8 list) exec" where
  "pop_key keys = (case try_pop_key keys of (Some k, ks) \<Rightarrow> Ok (k, ks) | (None, _) \<Rightarrow> Hang)"

definition is_utf8 :: "u8 \<Rightarrow> bool" where
  "is_utf8 ch \<longleftrightarrow> ch AND 0x80 = 0 \<or> ch AND 0xE0 = 0xC0 \<or> ch AND 0xF0 = 0xE0 \<or> ch AND 0xF8 = 0xF0"

definition key_bits :: "u8 \<Rightarrow> nat \<Rightarrow> u32" where
  "key_bits k shift = push_bit shift (ucast (k AND 0x3F))"

definition to_utf8 :: "u8 \<Rightarrow> u8 list \<Rightarrow> (u32 \<times> u8 list) exec" where
  "to_utf8 ch keys =
     (if ch AND 0x80 = 0 then Ok (ucast ch, keys)
      else if ch AND 0xE0 = 0xC0 then
        and_then (pop_key keys) (\<lambda>(k1, keys).
          Ok (push_bit 6 (ucast (ch AND 0x1F)) OR key_bits k1 0, keys))
      else if ch AND 0xF0 = 0xE0 then
        and_then (pop_key keys) (\<lambda>(k1, keys).
        and_then (pop_key keys) (\<lambda>(k2, keys).
          Ok (push_bit 12 (ucast (ch AND 0x0F)) OR key_bits k1 6 OR key_bits k2 0, keys)))
      else if ch AND 0xF8 = 0xF0 then
        and_then (pop_key keys) (\<lambda>(k1, keys).
        and_then (pop_key keys) (\<lambda>(k2, keys).
        and_then (pop_key keys) (\<lambda>(k3, keys).
          Ok (push_bit 18 (ucast (ch AND 0x07)) OR key_bits k1 12 OR key_bits k2 6 OR key_bits k3 0, keys))))
      else Ok (0, keys))"

text \<open>\<open>char::from_u32(c).is_some()\<close>.\<close>

definition is_char :: "u32 \<Rightarrow> bool" where
  "is_char c \<longleftrightarrow> c \<le> 0x10FFFF \<and> \<not> (0xD800 \<le> c \<and> c \<le> 0xDFFF)"

lemma to_utf8_consumes: "to_utf8 ch keys = Ok (c, rest) \<Longrightarrow> length rest \<le> length keys"
  by (auto simp: to_utf8_def pop_key_def try_pop_key_def split: if_splits list.splits)

text \<open>
  \<open>line\<close> is the line so far as its characters, \<open>out\<close> the characters printed, the erasing sequence of
  a backspace among them.
\<close>

function get_line_loop :: "u8 list \<Rightarrow> u32 list \<Rightarrow> u32 list \<Rightarrow> (u32 list \<times> u32 list \<times> u8 list) exec" where
  "get_line_loop [] line out = Hang"
| "get_line_loop (ch # keys) line out =
     (if ch = 13 then Ok (line, out @ [10, 13], keys)
      else if (ch = 0x08 \<or> ch = 0x7F) \<and> line \<noteq> [] then
        get_line_loop keys (butlast line) (out @ [0x08, 0x20, 0x08])
      else if is_utf8 ch then
        (case to_utf8 ch keys of
           Ok (c, rest) \<Rightarrow> if is_char c then get_line_loop rest (line @ [c]) (out @ [c]) else Panic
         | Err e \<Rightarrow> Err e
         | Panic \<Rightarrow> Panic
         | Hang \<Rightarrow> Hang)
      else get_line_loop keys (line @ [ucast ch]) (out @ [ucast ch]))"
  by pat_completeness auto
termination
proof (relation "measure (\<lambda>(keys, line, out). length keys)")
  fix ch keys line out x c rest
  assume "to_utf8 ch keys = Ok x" "(c, rest) = x"
  then have "length rest \<le> length keys" using to_utf8_consumes by (metis prod.collapse)
  then show "((rest, line @ [c], out @ [c]), ch # keys, line, out)
      \<in> measure (\<lambda>(keys, line, out). length keys)" by simp
qed simp_all

definition get_line :: "u8 list \<Rightarrow> (u32 list \<times> u32 list \<times> u8 list) exec" where
  "get_line keys = get_line_loop keys [] []"

section \<open>Resources (resource.rs)\<close>

datatype StdIO = Stdin | Stdout | Stderr

datatype ('t, 'f) Resource = ResFile "('t, 'f) FileHandle" | Console StdIO | Null

record ('t, 'f) ResourceSet =
  handles :: "u8 \<rightharpoonup> ('t, 'f) Resource"

text \<open>\<open>BTreeMap::len\<close> of a map with keys of type \<open>u8\<close>.\<close>

definition handles_len :: "(u8 \<rightharpoonup> 'r) \<Rightarrow> nat" where
  "handles_len h = length (filter (\<lambda>i. h (word_of_nat i) \<noteq> None) [0..<256])"

definition resources_open :: "('t, 'f) Resource \<Rightarrow> ('t, 'f) ResourceSet \<Rightarrow> u8 \<times> ('t, 'f) ResourceSet" where
  "resources_open res s =
     (let fd = word_of_nat (handles_len (handles s)) in
      (fd, s\<lparr>handles := (handles s)(fd \<mapsto> res)\<rparr>))"

definition resources_default :: "('t, 'f) ResourceSet" where
  "resources_default =
     (let s0 = \<lparr>handles = Map.empty\<rparr>;
          s1 = snd (resources_open (Console Stdin) s0);
          s2 = snd (resources_open (Console Stdout) s1) in
      snd (resources_open (Console Stderr) s2))"

definition resources_close :: "u8 \<Rightarrow> ('t, 'f) ResourceSet \<Rightarrow> bool \<times> ('t, 'f) ResourceSet" where
  "resources_close fd s = (handles s fd \<noteq> None, s\<lparr>handles := (handles s)(fd := None)\<rparr>)"

text \<open>The result of a read: its count, the resource, the buffer and the input buffer after it.\<close>

definition resource_read ::
  "'f reader \<Rightarrow> ('t, 'f) Resource \<Rightarrow> u8 list \<Rightarrow> u8 list \<Rightarrow>
   (nat option \<times> ('t, 'f) Resource \<times> u8 list \<times> u8 list) exec" where
  "resource_read rd res buf input =
     (case res of
        ResFile fh \<Rightarrow>
          (case rd (fh_file fh) buf of
             (Ok sz, buf', f) \<Rightarrow> Ok (Some sz, ResFile (fh\<lparr>fh_file := f\<rparr>), buf', input)
           | (Err _, buf', f) \<Rightarrow> Ok (Some 0, ResFile (fh\<lparr>fh_file := f\<rparr>), buf', input)
           | (Panic, _) \<Rightarrow> Panic
           | (Hang, _) \<Rightarrow> Hang)
      | Console Stdin \<Rightarrow>
          (case try_pop_key input of
             (Some ch, input') \<Rightarrow>
               if buf = [] then Panic else Ok (Some 1, res, buf[0 := ch], input')
           | (None, input') \<Rightarrow> Ok (Some 0, res, buf, input'))
      | Console _ \<Rightarrow> Ok (None, res, buf, input)
      | Null \<Rightarrow> Ok (Some 0, res, buf, input))"

text \<open>\<open>warn!\<close> prints a line with the level before it (logger.rs); a line ends with \<open>\n\r\<close> (macros.rs).\<close>

definition warn_line :: "str \<Rightarrow> str" where
  "warn_line s = bytes ''[WARN]: '' @ s @ [10, 13]"

definition resource_write :: "('t, 'f) Resource \<Rightarrow> u8 list \<Rightarrow> str \<Rightarrow> nat option \<times> str" where
  "resource_write res buf output =
     (case res of
        ResFile _ \<Rightarrow> (Some 0, output)
      | Console Stdin \<Rightarrow> (None, output)
      | Console Stdout \<Rightarrow> (Some (length buf), output @ from_utf8_lossy buf)
      | Console Stderr \<Rightarrow> (Some (length buf), output @ warn_line (from_utf8_lossy buf))
      | Null \<Rightarrow> (Some (length buf), output))"

definition resources_read ::
  "'f reader \<Rightarrow> u8 \<Rightarrow> u8 list \<Rightarrow> ('t, 'f) ResourceSet \<Rightarrow> u8 list \<Rightarrow>
   (u64 \<times> u8 list \<times> ('t, 'f) ResourceSet \<times> u8 list) exec" where
  "resources_read rd fd buf s input =
     (case handles s fd of
        None \<Rightarrow> Ok (-1, buf, s, input)
      | Some res \<Rightarrow>
          and_then (resource_read rd res buf input) (\<lambda>(r, res', buf', input').
            Ok (case r of Some n \<Rightarrow> word_of_nat n | None \<Rightarrow> -1, buf',
                s\<lparr>handles := (handles s)(fd \<mapsto> res')\<rparr>, input')))"

definition resources_write :: "u8 \<Rightarrow> u8 list \<Rightarrow> ('t, 'f) ResourceSet \<Rightarrow> str \<Rightarrow> u64 \<times> str" where
  "resources_write fd buf s output =
     (case handles s fd of
        None \<Rightarrow> (-1, output)
      | Some res \<Rightarrow>
          (case resource_write res buf output of
             (Some n, output') \<Rightarrow> (word_of_nat n, output')
           | (None, output') \<Rightarrow> (-1, output')))"

end
