(* ===== verification/Proc_Process.thy ===== *)
theory Proc_Process
  imports Proc_Resource
begin

text \<open>
  \<open>pkg/kernel/src/proc/{context,data,process,processor}.rs\<close>: the saved context, the data and the
  control block of a process, and the state \<open>kernel\<close> they live in. A process is known by its
  identifier: an \<open>Arc<Process>\<close> or a \<open>Weak\<close> is the identifier, and the manager's map holds the
  control block. An \<open>Arc\<close> of the data is a reference into a store of \<open>kernel\<close>, which a fork shares.
  One processor runs the kernel, with interrupts disabled, so its functions run one after another.
\<close>

section \<open>ProcessContext (context.rs)\<close>

record RegistersValue =
  r15 :: u64
  r14 :: u64
  r13 :: u64
  r12 :: u64
  r11 :: u64
  r10 :: u64
  r9 :: u64
  r8 :: u64
  rdi :: u64
  rsi :: u64
  rdx :: u64
  rcx :: u64
  rbx :: u64
  rax :: u64
  rbp :: u64

record InterruptStackFrameValue =
  instruction_pointer :: u64
  code_segment :: u16
  cpu_flags :: u64
  stack_pointer :: u64
  stack_segment :: u16

record ProcessContext =
  regs :: RegistersValue
  stack_frame :: InterruptStackFrameValue

definition context_default :: ProcessContext where
  "context_default =
     \<lparr>regs = \<lparr>r15 = 0, r14 = 0, r13 = 0, r12 = 0, r11 = 0, r10 = 0, r9 = 0, r8 = 0, rdi = 0, rsi = 0,
        rdx = 0, rcx = 0, rbx = 0, rax = 0, rbp = 0\<rparr>,
      stack_frame = \<lparr>instruction_pointer = 0x1000, code_segment = 0, cpu_flags = 0,
        stack_pointer = 0x2000, stack_segment = 0\<rparr>\<rparr>"

definition set_rax :: "u64 \<Rightarrow> ProcessContext \<Rightarrow> ProcessContext" where
  "set_rax v c = c\<lparr>regs := (regs c)\<lparr>rax := v\<rparr>\<rparr>"

text \<open>\<open>IOPL_HIGH | IOPL_LOW | INTERRUPT_FLAG\<close>.\<close>

definition USER_FLAGS :: u64 where
  "USER_FLAGS = 0x2000 OR 0x1000 OR 0x200"

record UserSelectors =
  user_code_selector :: u16
  user_data_selector :: u16

definition init_stack_frame :: "UserSelectors \<Rightarrow> u64 \<Rightarrow> u64 \<Rightarrow> ProcessContext \<Rightarrow> ProcessContext" where
  "init_stack_frame sel entry top_addr c =
     c\<lparr>stack_frame := (stack_frame c)\<lparr>stack_pointer := top_addr, instruction_pointer := entry,
        cpu_flags := USER_FLAGS, code_segment := user_code_selector sel,
        stack_segment := user_data_selector sel\<rparr>\<rparr>"

definition update_stack_frame :: "u64 \<Rightarrow> ProcessContext \<Rightarrow> ProcessContext" where
  "update_stack_frame top_addr c = c\<lparr>stack_frame := (stack_frame c)\<lparr>stack_pointer := top_addr\<rparr>\<rparr>"

definition stack_top :: "ProcessContext \<Rightarrow> u64" where
  "stack_top c = stack_pointer (stack_frame c)"

section \<open>The state\<close>

datatype ProgramStatus = Running | Ready | Blocked | Dead

text \<open>The three \<open>Arc\<close>s of \<open>ProcessData\<close> are references.\<close>

record ProcessData =
  pd_env :: nat
  pd_resources :: nat
  code_segment_pages :: u64
  pd_semaphores :: nat

record Process =
  pr_name :: str
  pr_parent :: "ProcessId option"
  pr_children :: "ProcessId list"
  ticks_passed :: u64
  pr_status :: ProgramStatus
  pr_exit_code :: "u64 option"
  pr_context :: ProcessContext
  proc_data :: "ProcessData option"
  proc_vm :: "ProcessVm option"

record ('t, 'f, 'w) kernel =
  k_vm :: "'w vm_state"
  k_envs :: "nat \<rightharpoonup> (str \<rightharpoonup> str)"
  k_resources :: "nat \<rightharpoonup> ('t, 'f) ResourceSet"
  k_semaphores :: "nat \<rightharpoonup> SemaphoreSet"
  k_next :: nat
  processes :: "ProcessId \<rightharpoonup> Process"
  ready_queue :: "ProcessId list"
  waiting_processes :: "ProcessId \<rightharpoonup> ProcessId set"
  k_processor :: u16
  k_counter :: u16
  k_input :: "u8 list"
  k_output :: str

text \<open>
  What the kernel calls and is not its source: the paging of the crate \<open>x86_64\<close>, the \<open>FileIO\<close> behind
  a file handle, the root file system, the parser of the crate \<open>xmas_elf\<close> and the selectors that the
  crate's table assigns. \<open>ke_trace\<close> is whether \<open>trace!\<close> evaluates its arguments.
\<close>

record ('t, 'f, 'w) kenv =
  ke_trace :: bool
  ke_paging :: "'w paging"
  ke_reader :: "'f reader"
  ke_rootfs :: "('t, 'f) Mount"
  ke_elf :: "u8 list \<Rightarrow> ElfFile option"
  ke_selectors :: UserSelectors

section \<open>Processor (processor.rs)\<close>

definition set_pid :: "ProcessId \<Rightarrow> ('t, 'f, 'w) kernel \<Rightarrow> ('t, 'f, 'w) kernel" where
  "set_pid pid k = k\<lparr>k_processor := pid_u16 pid\<rparr>"

definition is_free :: "('t, 'f, 'w) kernel \<Rightarrow> bool" where
  "is_free k \<longleftrightarrow> k_processor k = 0"

definition processor_get_pid :: "('t, 'f, 'w) kernel \<Rightarrow> ProcessId option" where
  "processor_get_pid k = (if k_processor k = 0 then None else Some (ProcessId (k_processor k)))"

definition get_pid :: "('t, 'f, 'w) kernel \<Rightarrow> ProcessId exec" where
  "get_pid k = unwrap_option (processor_get_pid k)"

section \<open>ProcessData (data.rs)\<close>

definition data_default :: "('t, 'f, 'w) kernel \<Rightarrow> ProcessData \<times> ('t, 'f, 'w) kernel" where
  "data_default k =
     (let n = k_next k in
      (\<lparr>pd_env = n, pd_resources = n + 1, code_segment_pages = 0, pd_semaphores = n + 2\<rparr>,
       k\<lparr>k_envs := (k_envs k)(n \<mapsto> Map.empty), k_resources := (k_resources k)(n + 1 \<mapsto> resources_default),
         k_semaphores := (k_semaphores k)(n + 2 \<mapsto> semset_new), k_next := n + 3\<rparr>))"

definition data_env :: "str \<Rightarrow> ProcessData \<Rightarrow> ('t, 'f, 'w) kernel \<Rightarrow> str option exec" where
  "data_env key d k = and_then (unwrap_option (k_envs k (pd_env d))) (\<lambda>m. Ok (m key))"

definition data_set_env ::
  "str \<Rightarrow> str \<Rightarrow> ProcessData \<Rightarrow> ('t, 'f, 'w) kernel \<Rightarrow> ('t, 'f, 'w) kernel exec" where
  "data_set_env key val d k =
     and_then (unwrap_option (k_envs k (pd_env d))) (\<lambda>m.
       Ok (k\<lparr>k_envs := (k_envs k)(pd_env d \<mapsto> m(key \<mapsto> val))\<rparr>))"

definition data_read ::
  "'f reader \<Rightarrow> u8 \<Rightarrow> u8 list \<Rightarrow> ProcessData \<Rightarrow> ('t, 'f, 'w) kernel \<Rightarrow>
   (u64 \<times> u8 list \<times> ('t, 'f, 'w) kernel) exec" where
  "data_read rd fd buf d k =
     and_then (unwrap_option (k_resources k (pd_resources d))) (\<lambda>rs.
     and_then (resources_read rd fd buf rs (k_input k)) (\<lambda>(n, buf', rs', input).
       Ok (n, buf', k\<lparr>k_resources := (k_resources k)(pd_resources d \<mapsto> rs'), k_input := input\<rparr>)))"

definition data_write ::
  "u8 \<Rightarrow> u8 list \<Rightarrow> ProcessData \<Rightarrow> ('t, 'f, 'w) kernel \<Rightarrow> (u64 \<times> ('t, 'f, 'w) kernel) exec" where
  "data_write fd buf d k =
     and_then (unwrap_option (k_resources k (pd_resources d))) (\<lambda>rs.
       let (n, out) = resources_write fd buf rs (k_output k) in Ok (n, k\<lparr>k_output := out\<rparr>))"

text \<open>An operation on the shared set of semaphores.\<close>

definition with_semaphores ::
  "(SemaphoreSet \<Rightarrow> 'r \<times> SemaphoreSet) \<Rightarrow> ProcessData \<Rightarrow> ('t, 'f, 'w) kernel \<Rightarrow>
   ('r \<times> ('t, 'f, 'w) kernel) exec" where
  "with_semaphores f d k =
     and_then (unwrap_option (k_semaphores k (pd_semaphores d))) (\<lambda>ss.
       let (r, ss') = f ss in Ok (r, k\<lparr>k_semaphores := (k_semaphores k)(pd_semaphores d \<mapsto> ss')\<rparr>))"

definition data_sem_wait ::
  "u32 \<Rightarrow> ProcessId \<Rightarrow> ProcessData \<Rightarrow> ('t, 'f, 'w) kernel \<Rightarrow> (SemaphoreResult \<times> ('t, 'f, 'w) kernel) exec" where
  "data_sem_wait key pid d k = with_semaphores (semset_wait key pid) d k"

definition data_sem_signal ::
  "u32 \<Rightarrow> ProcessData \<Rightarrow> ('t, 'f, 'w) kernel \<Rightarrow> (SemaphoreResult \<times> ('t, 'f, 'w) kernel) exec" where
  "data_sem_signal key d k = with_semaphores (semset_signal key) d k"

definition data_new_sem ::
  "u32 \<Rightarrow> nat \<Rightarrow> ProcessData \<Rightarrow> ('t, 'f, 'w) kernel \<Rightarrow> (bool \<times> ('t, 'f, 'w) kernel) exec" where
  "data_new_sem key val d k = with_semaphores (semset_insert key val) d k"

definition data_remove_sem ::
  "u32 \<Rightarrow> ProcessData \<Rightarrow> ('t, 'f, 'w) kernel \<Rightarrow> (bool \<times> ('t, 'f, 'w) kernel) exec" where
  "data_remove_sem key d k = with_semaphores (semset_remove key) d k"

definition data_open_file ::
  "('t, 'f) Mount \<Rightarrow> str \<Rightarrow> ProcessData \<Rightarrow> ('t, 'f, 'w) kernel \<Rightarrow> (u8 \<times> ('t, 'f, 'w) kernel) exec" where
  "data_open_file rootfs path d k =
     and_then (unwrap (mount_open_file rootfs path)) (\<lambda>handle.
     and_then (unwrap_option (k_resources k (pd_resources d))) (\<lambda>rs.
       let (fd, rs') = resources_open (ResFile handle) rs in
       Ok (fd, k\<lparr>k_resources := (k_resources k)(pd_resources d \<mapsto> rs')\<rparr>)))"

definition data_close_file ::
  "u8 \<Rightarrow> ProcessData \<Rightarrow> ('t, 'f, 'w) kernel \<Rightarrow> (bool \<times> ('t, 'f, 'w) kernel) exec" where
  "data_close_file fd d k =
     and_then (unwrap_option (k_resources k (pd_resources d))) (\<lambda>rs.
       let (closed, rs') = resources_close fd rs in
       Ok (closed, k\<lparr>k_resources := (k_resources k)(pd_resources d \<mapsto> rs')\<rparr>))"

section \<open>Process (process.rs)\<close>

text \<open>\<open>Process::new\<close>; the process is not yet in the manager's map.\<close>

definition process_new ::
  "str \<Rightarrow> ProcessId option \<Rightarrow> ProcessVm option \<Rightarrow> ProcessData option \<Rightarrow> ('t, 'f, 'w) kernel \<Rightarrow>
   ProcessId \<times> Process \<times> ('t, 'f, 'w) kernel" where
  "process_new name parent vm data k =
     (let (pid, counter) = process_id_new (k_counter k);
          k1 = k\<lparr>k_counter := counter\<rparr>;
          (v, k2) = (case vm of Some v \<Rightarrow> (v, k1)
                     | None \<Rightarrow> let (t, s1) = page_table_new (k_vm k1); (v, s2) = vm_new t s1 in
                         (v, k1\<lparr>k_vm := s2\<rparr>));
          (d, k3) = (case data of Some d \<Rightarrow> (d, k2) | None \<Rightarrow> data_default k2) in
      (pid,
       \<lparr>pr_name = to_ascii_lowercase name, pr_parent = parent, pr_children = [], ticks_passed = 0,
        pr_status = Ready, pr_exit_code = None, pr_context = context_default,
        proc_data = Some d, proc_vm = Some v\<rparr>,
       k3))"

definition tick :: "Process \<Rightarrow> Process" where
  "tick p = p\<lparr>ticks_passed := ticks_passed p + 1\<rparr>"

definition pause :: "Process \<Rightarrow> Process" where
  "pause p = p\<lparr>pr_status := Ready\<rparr>"

definition resume :: "Process \<Rightarrow> Process" where
  "resume p = p\<lparr>pr_status := Running\<rparr>"

definition block :: "Process \<Rightarrow> Process" where
  "block p = p\<lparr>pr_status := Blocked\<rparr>"

definition is_ready :: "Process \<Rightarrow> bool" where
  "is_ready p \<longleftrightarrow> pr_status p = Ready"

definition process_save :: "ProcessContext \<Rightarrow> Process \<Rightarrow> Process" where
  "process_save c p = (if pr_status p \<noteq> Dead then pause (p\<lparr>pr_context := c\<rparr>) else p)"

text \<open>\<open>restore\<close> writes the saved context over the interrupted one and loads the page table.\<close>

definition process_restore :: "Process \<Rightarrow> 'w vm_state \<Rightarrow> (ProcessContext \<times> Process \<times> 'w vm_state) exec" where
  "process_restore p s =
     (let p1 = resume p in
      and_then (unwrap_option (proc_vm p1)) (\<lambda>v.
      and_then (ptc_load (pv_page_table v) s) (\<lambda>s1. Ok (pr_context p1, p1, s1))))"

text \<open>\<open>kill\<close> takes the address space, which drops it, and the data.\<close>

definition process_kill :: "'w paging \<Rightarrow> u64 \<Rightarrow> Process \<Rightarrow> 'w vm_state \<Rightarrow> (Process \<times> 'w vm_state) exec" where
  "process_kill P ret p s =
     (let p1 = p\<lparr>pr_exit_code := Some ret, pr_status := Dead, proc_data := None, proc_vm := None\<rparr> in
      case proc_vm p of
        None \<Rightarrow> Ok (p1, s)
      | Some v \<Rightarrow> and_then (vm_drop P v s) (\<lambda>s1. Ok (p1, s1)))"

definition process_handle_page_fault ::
  "bool \<Rightarrow> ProcessId \<Rightarrow> 'w paging \<Rightarrow> u64 \<Rightarrow> Process \<Rightarrow> 'w vm_state \<Rightarrow> (bool \<times> Process \<times> 'w vm_state) exec" where
  "process_handle_page_fault trace cur P addr p s =
     and_then (unwrap_option (proc_vm p)) (\<lambda>v.
     and_then (vm_handle_page_fault trace cur P addr v s) (\<lambda>(handled, v1, s1).
       Ok (handled, p\<lparr>proc_vm := Some v1\<rparr>, s1)))"

definition clone_page_table ::
  "'w paging \<Rightarrow> Process \<Rightarrow> 'w vm_state \<Rightarrow> (PageTableContext \<times> 'w vm_state) exec" where
  "clone_page_table P p s = and_then (unwrap_option (proc_vm p)) (\<lambda>v. clone_l4 P (pv_page_table v) s)"

definition alloc_init_stack ::
  "bool \<Rightarrow> 'w paging \<Rightarrow> ProcessId \<Rightarrow> Process \<Rightarrow> 'w vm_state \<Rightarrow> (u64 \<times> Process \<times> 'w vm_state) exec" where
  "alloc_init_stack trace P pid p s =
     and_then (unwrap_option (proc_vm p)) (\<lambda>v.
     and_then (ptc_mapper P (pv_page_table v) s) (\<lambda>M.
     and_then (stack_init trace M pid (pv_stack v) s) (\<lambda>(_, st, s1).
       Ok (stack_bottom pid + STACK_DEF_SIZE - 8, p\<lparr>proc_vm := Some (v\<lparr>pv_stack := st\<rparr>)\<rparr>, s1))))"

definition process_load_elf ::
  "bool \<Rightarrow> 'w paging \<Rightarrow> ElfFile \<Rightarrow> ProcessId \<Rightarrow> Process \<Rightarrow> 'w vm_state \<Rightarrow> (u64 \<times> Process \<times> 'w vm_state) exec" where
  "process_load_elf trace P elf pid p s =
     and_then (unwrap_option (proc_vm p)) (\<lambda>v.
     and_then (vm_load_elf trace P elf pid v s) (\<lambda>(top_addr, v1, s1).
       Ok (top_addr, p\<lparr>proc_vm := Some v1\<rparr>, s1)))"

definition process_brk ::
  "bool \<Rightarrow> ProcessId \<Rightarrow> 'w paging \<Rightarrow> u64 option \<Rightarrow> Process \<Rightarrow> 'w vm_state \<Rightarrow> (u64 option \<times> 'w vm_state) exec" where
  "process_brk trace cur P addr p s =
     and_then (unwrap_option (proc_vm p)) (\<lambda>v. vm_brk trace cur P addr v s)"

text \<open>
  \<open>ProcessInner::fork\<close>: the child's stack pointer keeps its low 32 bits and takes the high ones of
  the child's stack.
\<close>

definition child_stack_top :: "ProcessContext \<Rightarrow> ProcessVm \<Rightarrow> u64" where
  "child_stack_top c v =
     (stack_top c AND 0xFFFFFFFF) OR (stack_min_addr (pv_stack v) AND NOT 0xFFFFFFFF)"

definition inner_fork ::
  "bool \<Rightarrow> 'w paging \<Rightarrow> ProcessId \<Rightarrow> Process \<Rightarrow> 'w vm_state \<Rightarrow> (Process \<times> 'w vm_state) exec" where
  "inner_fork trace P parent p s =
     (let child_stack_offset = (length (pr_children p) + 1) * STACK_MAX_PAGES in
      and_then (unwrap_option (proc_vm p)) (\<lambda>v.
      and_then (vm_fork trace P child_stack_offset v s) (\<lambda>(cv, s1).
      and_then (unwrap_option (proc_data p)) (\<lambda>d.
        Ok (\<lparr>pr_name = pr_name p, pr_parent = Some parent, pr_children = [], ticks_passed = 0,
             pr_status = Ready, pr_exit_code = None,
             pr_context = set_rax 0 (update_stack_frame (child_stack_top (pr_context p) cv) (pr_context p)),
             proc_data = Some d, proc_vm = Some cv\<rparr>, s1)))))"

text \<open>\<open>Process::fork\<close>: the child's identifier, the parent and the child after it.\<close>

definition process_fork ::
  "bool \<Rightarrow> 'w paging \<Rightarrow> ProcessId \<Rightarrow> Process \<Rightarrow> ('t, 'f, 'w) kernel \<Rightarrow>
   (ProcessId \<times> Process \<times> Process \<times> ('t, 'f, 'w) kernel) exec" where
  "process_fork trace P pid p k =
     (let (child_pid, counter) = process_id_new (k_counter k) in
      and_then (inner_fork trace P pid p (k_vm k)) (\<lambda>(child, s1).
        let p1 = p\<lparr>pr_children := pr_children p @ [child_pid],
                   pr_context := set_rax (ucast (pid_u16 child_pid)) (pr_context p)\<rparr> in
        Ok (child_pid, p1, pause child, k\<lparr>k_counter := counter, k_vm := s1\<rparr>)))"

end
