(* ===== verification/Proc_Manager.thy ===== *)
theory Proc_Manager
  imports Proc_Process
begin

text \<open>
  \<open>pkg/kernel/src/proc/manager.rs\<close>: the process manager, on the state \<open>kernel\<close>. \<open>next_ready\<close> is the
  loop of \<open>switch_next\<close> that turns the ready queue until it finds a process that is ready; it does not
  return when there is none.
\<close>

definition put_proc :: "ProcessId \<Rightarrow> Process \<Rightarrow> ('t, 'f, 'w) kernel \<Rightarrow> ('t, 'f, 'w) kernel" where
  "put_proc pid p k = k\<lparr>processes := (processes k)(pid \<mapsto> p)\<rparr>"

section \<open>The queues\<close>

definition manager_init :: "ProcessId \<Rightarrow> Process \<Rightarrow> ('t, 'f, 'w) kernel \<Rightarrow> ('t, 'f, 'w) kernel" where
  "manager_init pid p k =
     set_pid pid (k\<lparr>processes := [pid \<mapsto> resume p], ready_queue := [], waiting_processes := Map.empty\<rparr>)"

definition push_ready :: "ProcessId \<Rightarrow> ('t, 'f, 'w) kernel \<Rightarrow> ('t, 'f, 'w) kernel" where
  "push_ready pid k = k\<lparr>ready_queue := ready_queue k @ [pid]\<rparr>"

definition add_waiting :: "ProcessId \<Rightarrow> ('t, 'f, 'w) kernel \<Rightarrow> ('t, 'f, 'w) kernel exec" where
  "add_waiting pid k =
     and_then (get_pid k) (\<lambda>cur.
       let waiting = (case waiting_processes k pid of None \<Rightarrow> {} | Some s \<Rightarrow> s) in
       Ok (k\<lparr>waiting_processes := (waiting_processes k)(pid \<mapsto> insert cur waiting)\<rparr>))"

definition get_proc :: "('t, 'f, 'w) kernel \<Rightarrow> ProcessId \<Rightarrow> Process exec" where
  "get_proc k pid = unwrap_option (processes k pid)"

definition block_proc :: "ProcessId \<Rightarrow> ('t, 'f, 'w) kernel \<Rightarrow> ('t, 'f, 'w) kernel exec" where
  "block_proc pid k = and_then (get_proc k pid) (\<lambda>p. Ok (put_proc pid (block p) k))"

definition current :: "('t, 'f, 'w) kernel \<Rightarrow> (ProcessId \<times> Process) exec" where
  "current k = and_then (get_pid k) (\<lambda>pid. and_then (get_proc k pid) (\<lambda>p. Ok (pid, p)))"

definition wake_up :: "ProcessId \<Rightarrow> ('t, 'f, 'w) kernel \<Rightarrow> ('t, 'f, 'w) kernel exec" where
  "wake_up pid k = and_then (get_proc k pid) (\<lambda>p. Ok (push_ready pid (put_proc pid (pause p) k)))"

fun wake_list :: "u64 \<Rightarrow> ProcessId list \<Rightarrow> ('t, 'f, 'w) kernel \<Rightarrow> ('t, 'f, 'w) kernel exec" where
  "wake_list ret [] k = Ok k"
| "wake_list ret (pid # pids) k =
     and_then (get_proc k pid) (\<lambda>p.
     and_then (wake_up pid (put_proc pid (p\<lparr>pr_context := set_rax ret (pr_context p)\<rparr>) k)) (\<lambda>k1.
       wake_list ret pids k1))"

text \<open>A \<open>BTreeSet\<close> is iterated in ascending order.\<close>

definition wake_waiting :: "u64 \<Rightarrow> ('t, 'f, 'w) kernel \<Rightarrow> ('t, 'f, 'w) kernel exec" where
  "wake_waiting ret k =
     and_then (get_pid k) (\<lambda>now_pid.
       case waiting_processes k now_pid of
         None \<Rightarrow> Ok k
       | Some wait_set \<Rightarrow>
           wake_list ret (sorted_list_of_set wait_set)
             (k\<lparr>waiting_processes := (waiting_processes k)(now_pid := None)\<rparr>))"

definition get_exit_code :: "('t, 'f, 'w) kernel \<Rightarrow> ProcessId \<Rightarrow> u64 option exec" where
  "get_exit_code k pid = and_then (get_proc k pid) (\<lambda>p. Ok (pr_exit_code p))"

definition is_proc_alive :: "('t, 'f, 'w) kernel \<Rightarrow> ProcessId \<Rightarrow> bool" where
  "is_proc_alive k pid = (case processes k pid of None \<Rightarrow> False | Some p \<Rightarrow> pr_status p \<noteq> Dead)"

section \<open>Processes\<close>

definition manager_spawn ::
  "('t, 'f, 'w) kenv \<Rightarrow> ElfFile \<Rightarrow> str \<Rightarrow> ProcessId option \<Rightarrow> ProcessData option \<Rightarrow> ('t, 'f, 'w) kernel \<Rightarrow>
   (ProcessId \<times> ('t, 'f, 'w) kernel) exec" where
  "manager_spawn K elf name parent data k =
     and_then (get_proc k KERNEL_PID) (\<lambda>kproc.
     and_then (clone_page_table (ke_paging K) kproc (k_vm k)) (\<lambda>(t, s1).
       let (v, s2) = vm_new t s1;
           (pid, p, k1) = process_new name parent (Some v) data (k\<lparr>k_vm := s2\<rparr>) in
     and_then (process_load_elf (ke_trace K) (ke_paging K) elf pid p (k_vm k1)) (\<lambda>(top_addr, p1, s3).
       let entry = elf_entry_point elf;
           p2 = p1\<lparr>pr_context := init_stack_frame (ke_selectors K) entry top_addr (pr_context p1)\<rparr> in
       Ok (pid, push_ready pid (put_proc pid (pause p2) (k1\<lparr>k_vm := s3\<rparr>))))))"

definition save_current :: "ProcessContext \<Rightarrow> ('t, 'f, 'w) kernel \<Rightarrow> (ProcessId \<times> ('t, 'f, 'w) kernel) exec" where
  "save_current c k =
     and_then (current k) (\<lambda>(pid, p). Ok (pid, put_proc pid (process_save c (tick p)) k))"

partial_function (option) next_ready ::
  "('t, 'f, 'w) kernel \<Rightarrow> (ProcessId \<times> Process \<times> ('t, 'f, 'w) kernel) exec option" where
  "next_ready k =
     (case ready_queue k of
        [] \<Rightarrow> Some Panic
      | nextpid # rest \<Rightarrow>
          (let k1 = k\<lparr>ready_queue := rest\<rparr> in
           case processes k1 nextpid of
             None \<Rightarrow> Some Panic
           | Some nextproc \<Rightarrow>
               if is_ready nextproc then Some (Ok (nextpid, nextproc, k1))
               else next_ready (push_ready nextpid k1)))"

text \<open>The result is the context to run next and the process it belongs to.\<close>

definition switch_next :: "('t, 'f, 'w) kernel \<Rightarrow> (ProcessContext \<times> ProcessId \<times> ('t, 'f, 'w) kernel) exec" where
  "switch_next k =
     and_then (or_hang (next_ready k)) (\<lambda>(nextpid, nextproc, k1).
     and_then (process_restore nextproc (k_vm k1)) (\<lambda>(c, p, s).
       Ok (c, nextpid, set_pid nextpid (put_proc nextpid p (k1\<lparr>k_vm := s\<rparr>)))))"

definition kill :: "('t, 'f, 'w) kenv \<Rightarrow> ProcessId \<Rightarrow> u64 \<Rightarrow> ('t, 'f, 'w) kernel \<Rightarrow> ('t, 'f, 'w) kernel exec" where
  "kill K pid ret k =
     (case processes k pid of
        None \<Rightarrow> Ok k
      | Some p \<Rightarrow>
          if pr_status p = Dead then Ok k
          else and_then (process_kill (ke_paging K) ret p (k_vm k)) (\<lambda>(p1, s).
            Ok (put_proc pid p1 (k\<lparr>k_vm := s\<rparr>))))"

definition kill_current :: "('t, 'f, 'w) kenv \<Rightarrow> u64 \<Rightarrow> ('t, 'f, 'w) kernel \<Rightarrow> ('t, 'f, 'w) kernel exec" where
  "kill_current K ret k = and_then (get_pid k) (\<lambda>pid. kill K pid ret k)"

definition kill_self :: "('t, 'f, 'w) kenv \<Rightarrow> u64 \<Rightarrow> ('t, 'f, 'w) kernel \<Rightarrow> ('t, 'f, 'w) kernel exec" where
  "kill_self K ret k = and_then (get_pid k) (\<lambda>pid. kill K pid ret k)"

text \<open>Bit 0 of the error code of a page fault.\<close>

definition PROTECTION_VIOLATION :: u64 where
  "PROTECTION_VIOLATION = 1"

definition manager_handle_page_fault ::
  "('t, 'f, 'w) kenv \<Rightarrow> u64 \<Rightarrow> u64 \<Rightarrow> ('t, 'f, 'w) kernel \<Rightarrow> (bool \<times> ('t, 'f, 'w) kernel) exec" where
  "manager_handle_page_fault K addr err_code k =
     and_then (current k) (\<lambda>(pid, p).
       if err_code AND PROTECTION_VIOLATION = 0 then
         and_then (process_handle_page_fault (ke_trace K) pid (ke_paging K) addr p (k_vm k)) (\<lambda>(_, p1, s).
           Ok (True, put_proc pid p1 (k\<lparr>k_vm := s\<rparr>)))
       else Ok (False, k))"

definition manager_fork :: "('t, 'f, 'w) kenv \<Rightarrow> ('t, 'f, 'w) kernel \<Rightarrow> (ProcessId \<times> ('t, 'f, 'w) kernel) exec" where
  "manager_fork K k =
     and_then (current k) (\<lambda>(pid, p).
     and_then (process_fork (ke_trace K) (ke_paging K) pid p k) (\<lambda>(child_pid, p1, child, k1).
       Ok (child_pid, put_proc child_pid child (put_proc pid p1 k1))))"

section \<open>Operations on the current process\<close>

definition current_data :: "('t, 'f, 'w) kernel \<Rightarrow> ProcessData exec" where
  "current_data k = and_then (current k) (\<lambda>(_, p). unwrap_option (proc_data p))"

definition manager_read ::
  "('t, 'f, 'w) kenv \<Rightarrow> u8 \<Rightarrow> u8 list \<Rightarrow> ('t, 'f, 'w) kernel \<Rightarrow> (u64 \<times> u8 list \<times> ('t, 'f, 'w) kernel) exec" where
  "manager_read K fd buf k = and_then (current_data k) (\<lambda>d. data_read (ke_reader K) fd buf d k)"

definition manager_write :: "u8 \<Rightarrow> u8 list \<Rightarrow> ('t, 'f, 'w) kernel \<Rightarrow> (u64 \<times> ('t, 'f, 'w) kernel) exec" where
  "manager_write fd buf k = and_then (current_data k) (\<lambda>d. data_write fd buf d k)"

definition manager_open_file ::
  "('t, 'f, 'w) kenv \<Rightarrow> str \<Rightarrow> ('t, 'f, 'w) kernel \<Rightarrow> (u8 \<times> ('t, 'f, 'w) kernel) exec" where
  "manager_open_file K path k = and_then (current_data k) (\<lambda>d. data_open_file (ke_rootfs K) path d k)"

definition manager_close_file :: "u8 \<Rightarrow> ('t, 'f, 'w) kernel \<Rightarrow> (bool \<times> ('t, 'f, 'w) kernel) exec" where
  "manager_close_file fd k = and_then (current_data k) (\<lambda>d. data_close_file fd d k)"

definition manager_brk ::
  "('t, 'f, 'w) kenv \<Rightarrow> u64 option \<Rightarrow> ('t, 'f, 'w) kernel \<Rightarrow> (u64 option \<times> ('t, 'f, 'w) kernel) exec" where
  "manager_brk K addr k =
     and_then (get_pid k) (\<lambda>pid.
       case processes k pid of
         None \<Rightarrow> Ok (None, k)
       | Some p \<Rightarrow>
           and_then (process_brk (ke_trace K) pid (ke_paging K) addr p (k_vm k)) (\<lambda>(r, s).
             Ok (r, k\<lparr>k_vm := s\<rparr>)))"

end
