(* ===== verification/Proc_Ops.thy ===== *)
theory Proc_Ops
  imports Proc_Manager
begin

text \<open>
  \<open>pkg/kernel/src/proc/mod.rs\<close>: the operations on processes that the interrupt handlers call. One
  that may switch takes the interrupted context and gives the context to return to.
\<close>

section \<open>Switching\<close>

definition proc_init ::
  "(page \<times> page) list \<Rightarrow> ('t, 'f, 'w) kernel \<Rightarrow> ('t, 'f, 'w) kernel" where
  "proc_init kernel_pages k =
     (let (t, s1) = page_table_new (k_vm k);
          (v, s2) = vm_new t s1;
          (pid, kproc, k1) = process_new (bytes ''kernel'') None (Some (init_kernel_vm kernel_pages v)) None
            (k\<lparr>k_vm := s2\<rparr>) in
      manager_init pid (resume kproc) k1)"

definition switch ::
  "ProcessContext \<Rightarrow> ('t, 'f, 'w) kernel \<Rightarrow> (ProcessContext \<times> ('t, 'f, 'w) kernel) exec" where
  "switch c k =
     and_then (save_current c k) (\<lambda>(pid, k1).
     and_then (switch_next (push_ready pid k1)) (\<lambda>(c', _, k2). Ok (c', k2)))"

definition proc_env :: "str \<Rightarrow> ('t, 'f, 'w) kernel \<Rightarrow> str option exec" where
  "proc_env key k = and_then (current_data k) (\<lambda>d. data_env key d k)"

text \<open>The state that \<open>process_exit\<close> halts in, until the next interrupt.\<close>

definition process_exit :: "('t, 'f, 'w) kenv \<Rightarrow> u64 \<Rightarrow> ('t, 'f, 'w) kernel \<Rightarrow> ('t, 'f, 'w) kernel exec" where
  "process_exit K ret k = kill_current K ret k"

definition fork ::
  "('t, 'f, 'w) kenv \<Rightarrow> ProcessContext \<Rightarrow> ('t, 'f, 'w) kernel \<Rightarrow> (ProcessContext \<times> ('t, 'f, 'w) kernel) exec" where
  "fork K c k =
     and_then (save_current c k) (\<lambda>(pid, k1).
     and_then (manager_fork K k1) (\<lambda>(child, k2).
     and_then (switch_next (push_ready pid (push_ready child k2))) (\<lambda>(c', _, k3). Ok (c', k3))))"

definition exit ::
  "('t, 'f, 'w) kenv \<Rightarrow> u64 \<Rightarrow> ('t, 'f, 'w) kernel \<Rightarrow> (ProcessContext \<times> ('t, 'f, 'w) kernel) exec" where
  "exit K ret k =
     and_then (wake_waiting ret k) (\<lambda>k1.
     and_then (kill_self K ret k1) (\<lambda>k2.
     and_then (switch_next k2) (\<lambda>(c', _, k3). Ok (c', k3))))"

definition wait_pid ::
  "ProcessId \<Rightarrow> ProcessContext \<Rightarrow> ('t, 'f, 'w) kernel \<Rightarrow> (ProcessContext \<times> ('t, 'f, 'w) kernel) exec" where
  "wait_pid pid c k =
     (if is_proc_alive k pid then
        and_then (get_pid k) (\<lambda>now_pid.
        and_then (save_current c k) (\<lambda>(_, k1).
        and_then (block_proc now_pid k1) (\<lambda>k2.
        and_then (add_waiting pid k2) (\<lambda>k3.
        and_then (switch_next k3) (\<lambda>(c', _, k4). Ok (c', k4))))))
      else
        and_then (get_exit_code k pid) (\<lambda>code.
        and_then (unwrap_option code) (\<lambda>exit_code. Ok (set_rax exit_code c, k))))"

section \<open>Semaphores\<close>

text \<open>\<open>WakeUp\<close> of a wait and \<open>Block\<close> of a signal are \<open>unreachable!\<close>.\<close>

definition sem_wait ::
  "u32 \<Rightarrow> ProcessContext \<Rightarrow> ('t, 'f, 'w) kernel \<Rightarrow> (ProcessContext \<times> ('t, 'f, 'w) kernel) exec" where
  "sem_wait key c k =
     and_then (get_pid k) (\<lambda>pid.
     and_then (current_data k) (\<lambda>d.
     and_then (data_sem_wait key pid d k) (\<lambda>(r, k1).
       case r of
         SemOk \<Rightarrow> Ok (set_rax 0 c, k1)
       | NotExist \<Rightarrow> Ok (set_rax 1 c, k1)
       | Block _ \<Rightarrow>
           and_then (save_current c k1) (\<lambda>(_, k2).
           and_then (block_proc pid k2) (\<lambda>k3.
           and_then (switch_next k3) (\<lambda>(c', _, k4). Ok (c', k4))))
       | WakeUp _ \<Rightarrow> Panic)))"

definition sem_signal ::
  "u32 \<Rightarrow> ProcessContext \<Rightarrow> ('t, 'f, 'w) kernel \<Rightarrow> (ProcessContext \<times> ('t, 'f, 'w) kernel) exec" where
  "sem_signal key c k =
     and_then (current_data k) (\<lambda>d.
     and_then (data_sem_signal key d k) (\<lambda>(r, k1).
       case r of
         SemOk \<Rightarrow> Ok (set_rax 0 c, k1)
       | NotExist \<Rightarrow> Ok (set_rax 1 c, k1)
       | WakeUp pid \<Rightarrow> and_then (wake_up pid k1) (\<lambda>k2. Ok (c, k2))
       | Block _ \<Rightarrow> Panic))"

definition new_sem :: "u32 \<Rightarrow> nat \<Rightarrow> ('t, 'f, 'w) kernel \<Rightarrow> (u64 \<times> ('t, 'f, 'w) kernel) exec" where
  "new_sem key val k =
     and_then (current_data k) (\<lambda>d.
     and_then (data_new_sem key val d k) (\<lambda>(r, k1). Ok (if r then 0 else 1, k1)))"

definition remove_sem :: "u32 \<Rightarrow> ('t, 'f, 'w) kernel \<Rightarrow> (u64 \<times> ('t, 'f, 'w) kernel) exec" where
  "remove_sem key k =
     and_then (current_data k) (\<lambda>d.
     and_then (data_remove_sem key d k) (\<lambda>(r, k1). Ok (if r then 0 else 1, k1)))"

section \<open>Spawning, files and memory\<close>

definition elf_spawn ::
  "('t, 'f, 'w) kenv \<Rightarrow> str \<Rightarrow> ElfFile \<Rightarrow> ('t, 'f, 'w) kernel \<Rightarrow> (ProcessId option \<times> ('t, 'f, 'w) kernel) exec" where
  "elf_spawn K name elf k =
     and_then (current k) (\<lambda>(parent, _).
     and_then (manager_spawn K elf name (Some parent) None k) (\<lambda>(pid, k1). Ok (Some pid, k1)))"

text \<open>
  \<open>path.rsplit('/')\<close> gives the pieces from the last; \<open>read_all\<close> of the handle reads the whole file.
\<close>

definition spawn ::
  "('t, 'f, 'w) kenv \<Rightarrow> str \<Rightarrow> ('t, 'f, 'w) kernel \<Rightarrow> (ProcessId option \<times> ('t, 'f, 'w) kernel) exec" where
  "spawn K path k =
     (let name = last (str_split 0x2F path) in
      and_then (unwrap (mount_open_file (ke_rootfs K) path)) (\<lambda>handle.
        case read_all (ke_reader K) (fh_file handle) [] of
          None \<Rightarrow> Hang
        | Some (res, buf, _) \<Rightarrow>
            and_then (unwrap res) (\<lambda>_.
            and_then (unwrap_option (ke_elf K buf)) (\<lambda>elf. elf_spawn K name elf k))))"

definition brk :: "('t, 'f, 'w) kenv \<Rightarrow> u64 option \<Rightarrow> ('t, 'f, 'w) kernel \<Rightarrow> (u64 \<times> ('t, 'f, 'w) kernel) exec" where
  "brk K addr k =
     and_then (manager_brk K addr k) (\<lambda>(r, k1).
       Ok (case r of Some new_end \<Rightarrow> new_end | None \<Rightarrow> -1, k1))"

end
