(* ===== verification/Proc_Invariant.thy ===== *)
theory Proc_Invariant
  imports Proc_Ops
begin

text \<open>
  What the kernel keeps between two interrupts, and the round robin of the scheduler: \<open>switch_next\<close>
  finds a ready process, and \<open>switch\<close> keeps the invariant and queues the interrupted process last.
\<close>

section \<open>Turning the ready queue\<close>

lemma next_ready_Nil: "ready_queue k = [] \<Longrightarrow> next_ready k = Some Panic"
  by (subst next_ready.simps) simp

lemma next_ready_head:
  "ready_queue k = pid # rest \<Longrightarrow> processes k pid = Some p \<Longrightarrow> is_ready p \<Longrightarrow>
   next_ready k = Some (Ok (pid, p, k\<lparr>ready_queue := rest\<rparr>))"
  by (subst next_ready.simps) (simp add: Let_def)

lemma next_ready_skip:
  "ready_queue k = pid # rest \<Longrightarrow> processes k pid = Some p \<Longrightarrow> \<not> is_ready p \<Longrightarrow>
   next_ready k = next_ready (k\<lparr>ready_queue := rest @ [pid]\<rparr>)"
  by (subst next_ready.simps) (simp add: Let_def push_ready_def)

text \<open>The first process that is ready is taken; the ones before it move to the end, in order.\<close>

lemma next_ready_first:
  "\<lbrakk>ready_queue k = xs @ pid # ys; \<forall>x \<in> set xs. \<exists>q. processes k x = Some q \<and> \<not> is_ready q;
    processes k pid = Some p; is_ready p\<rbrakk> \<Longrightarrow>
   next_ready k = Some (Ok (pid, p, k\<lparr>ready_queue := ys @ xs\<rparr>))"
proof (induction xs arbitrary: k ys)
  case Nil
  then show ?case by (simp add: next_ready_head)
next
  case (Cons x xs)
  then obtain q where q: "processes k x = Some q" "\<not> is_ready q" by auto
  have "next_ready k = next_ready (k\<lparr>ready_queue := xs @ pid # (ys @ [x])\<rparr>)"
    using Cons.prems(1) q by (simp add: next_ready_skip)
  also have "\<dots> = Some (Ok (pid, p, k\<lparr>ready_queue := (ys @ [x]) @ xs\<rparr>))"
    using Cons.IH [of "k\<lparr>ready_queue := xs @ pid # (ys @ [x])\<rparr>" "ys @ [x]"] Cons.prems by simp
  finally show ?case by simp
qed

text \<open>With no process ready the loop turns the queue for ever.\<close>

lemma next_ready_none:
  assumes "ready_queue k \<noteq> []" "\<forall>x \<in> set (ready_queue k). \<exists>q. processes k x = Some q \<and> \<not> is_ready q"
  shows "next_ready k = None"
proof (rule ccontr)
  assume "next_ready k \<noteq> None"
  then obtain r where "next_ready k = Some r" by blast
  then have "ready_queue k = [] \<or> (\<exists>x \<in> set (ready_queue k). processes k x = None \<or> (\<exists>q. processes k x = Some q \<and> is_ready q))"
  proof (rule next_ready.raw_induct [rotated])
    fix nr k r
    assume IH: "\<And>k r. nr k = Some r \<Longrightarrow> ready_queue k = [] \<or>
        (\<exists>x \<in> set (ready_queue k). processes k x = None \<or> (\<exists>q. processes k x = Some q \<and> is_ready q))"
      and step: "(case ready_queue k of [] \<Rightarrow> Some Panic
        | nextpid # rest \<Rightarrow> let k1 = k\<lparr>ready_queue := rest\<rparr> in
            case processes k1 nextpid of None \<Rightarrow> Some Panic
            | Some nextproc \<Rightarrow> if is_ready nextproc then Some (Ok (nextpid, nextproc, k1))
                else nr (push_ready nextpid k1)) = Some r"
    show "ready_queue k = [] \<or>
        (\<exists>x \<in> set (ready_queue k). processes k x = None \<or> (\<exists>q. processes k x = Some q \<and> is_ready q))"
    proof (cases "ready_queue k")
      case (Cons pid rest)
      show ?thesis
      proof (cases "processes k pid")
        case None
        with Cons show ?thesis by simp
      next
        case (Some q)
        show ?thesis
        proof (cases "is_ready q")
          case True
          with Some Cons show ?thesis by simp
        next
          case False
          then have "nr (push_ready pid (k\<lparr>ready_queue := rest\<rparr>)) = Some r" using step Cons Some by simp
          from IH [OF this] Some Cons False show ?thesis by (auto simp: push_ready_def)
        qed
      qed
    qed simp
  qed
  with assms show False by fastforce
qed

section \<open>The invariant of the kernel\<close>

text \<open>
  Between two interrupts exactly one process runs, the processor's. The ready queue holds every
  process that is ready, once. A process that waits, for a semaphore or for the end of another
  process, is blocked, and waits at one place only. Every process that is not dead has its address
  space and its data, and a page table is counted as often as it is used. The kernel's own process
  never blocks and never ends.
\<close>

definition has_status :: "('t, 'f, 'w) kernel \<Rightarrow> ProgramStatus \<Rightarrow> ProcessId \<Rightarrow> bool" where
  "has_status k st pid \<longleftrightarrow> (\<exists>p. processes k pid = Some p \<and> pr_status p = st)"

datatype place = OnSemaphore nat SemaphoreId | OnProcess ProcessId

fun waits_on :: "('t, 'f, 'w) kernel \<Rightarrow> ProcessId \<Rightarrow> place \<Rightarrow> bool" where
  "waits_on k pid (OnSemaphore r sid) \<longleftrightarrow>
     (\<exists>ss sem. k_semaphores k r = Some ss \<and> sems ss sid = Some sem \<and> pid \<in> set (wait_queue sem))"
| "waits_on k pid (OnProcess target) \<longleftrightarrow> (\<exists>S. waiting_processes k target = Some S \<and> pid \<in> S)"

definition vm_refs :: "'w vm_state \<Rightarrow> ProcessVm \<Rightarrow> bool" where
  "vm_refs s v \<longleftrightarrow> ptc_reg (pv_page_table v) \<in> dom (vs_tables s) \<and> hp_base (pv_heap v) = HEAP_START \<and>
     (\<exists>e. vs_heap_ends s (hp_end (pv_heap v)) = Some e \<and> HEAP_START \<le> e)"

definition data_refs :: "('t, 'f, 'w) kernel \<Rightarrow> ProcessData \<Rightarrow> bool" where
  "data_refs k d \<longleftrightarrow> pd_env d \<in> dom (k_envs k) \<and> pd_resources d \<in> dom (k_resources k) \<and>
     pd_semaphores d \<in> dom (k_semaphores k)"

definition refs_ok :: "('t, 'f, 'w) kernel \<Rightarrow> Process \<Rightarrow> bool" where
  "refs_ok k p \<longleftrightarrow>
     (if pr_status p = Dead then proc_vm p = None \<and> proc_data p = None
      else (\<exists>v. proc_vm p = Some v \<and> vm_refs (k_vm k) v) \<and> (\<exists>d. proc_data p = Some d \<and> data_refs k d))"

definition table_users :: "('t, 'f, 'w) kernel \<Rightarrow> nat \<Rightarrow> ProcessId set" where
  "table_users k r = {pid. \<exists>p v. processes k pid = Some p \<and> proc_vm p = Some v \<and> ptc_reg (pv_page_table v) = r}"

definition queues_ok :: "('t, 'f, 'w) kernel \<Rightarrow> bool" where
  "queues_ok k \<longleftrightarrow> distinct (ready_queue k) \<and> (\<forall>pid. pid \<in> set (ready_queue k) \<longleftrightarrow> has_status k Ready pid)"

definition waiters_ok :: "('t, 'f, 'w) kernel \<Rightarrow> bool" where
  "waiters_ok k \<longleftrightarrow>
     (\<forall>pid pl. waits_on k pid pl \<longrightarrow> has_status k Blocked pid) \<and>
     (\<forall>pid pl pl'. waits_on k pid pl \<longrightarrow> waits_on k pid pl' \<longrightarrow> pl = pl') \<and>
     (\<forall>r ss sid sem. k_semaphores k r = Some ss \<longrightarrow> sems ss sid = Some sem \<longrightarrow> distinct (wait_queue sem))"

definition memory_ok :: "('t, 'f, 'w) kernel \<Rightarrow> bool" where
  "memory_ok k \<longleftrightarrow>
     (\<forall>pid p. processes k pid = Some p \<longrightarrow> refs_ok k p) \<and>
     (\<forall>r c n. vs_tables (k_vm k) r = Some (c, n) \<longrightarrow> n = card (table_users k r)) \<and>
     dom (vs_tables (k_vm k)) \<subseteq> {..<vs_next (k_vm k)} \<and> processes k (ProcessId 0) = None"

text \<open>\<open>idle_ok\<close> holds inside a handler, after the current process is saved and before the next one runs.\<close>

definition idle_ok :: "('t, 'f, 'w) kernel \<Rightarrow> bool" where
  "idle_ok k \<longleftrightarrow> queues_ok k \<and> waiters_ok k \<and> memory_ok k \<and> has_status k Ready KERNEL_PID \<and>
     (\<forall>pid. \<not> has_status k Running pid)"

definition kernel_ok :: "('t, 'f, 'w) kernel \<Rightarrow> bool" where
  "kernel_ok k \<longleftrightarrow> queues_ok k \<and> waiters_ok k \<and> memory_ok k \<and>
     (has_status k Ready KERNEL_PID \<or> has_status k Running KERNEL_PID) \<and>
     k_processor k \<noteq> 0 \<and> (\<forall>pid. has_status k Running pid \<longleftrightarrow> pid = ProcessId (k_processor k))"

lemma finite_ProcessId [simp]: "finite (S :: ProcessId set)"
proof -
  have "inj_on pid_u16 S" by (meson ProcessId.expand inj_onI)
  moreover have "finite (pid_u16 ` S)" by (rule finite_subset [OF subset_UNIV]) simp
  ultimately show ?thesis by (rule inj_on_finite [OF _ subset_refl])
qed

lemma has_status_put [simp]:
  "has_status (put_proc pid p k) st q \<longleftrightarrow> (if q = pid then pr_status p = st else has_status k st q)"
  by (auto simp: has_status_def put_proc_def)

lemma put_proc_sel [simp]:
  "processes (put_proc pid p k) = (processes k)(pid \<mapsto> p)" "ready_queue (put_proc pid p k) = ready_queue k"
  "waiting_processes (put_proc pid p k) = waiting_processes k" "k_vm (put_proc pid p k) = k_vm k"
  "k_semaphores (put_proc pid p k) = k_semaphores k" "k_processor (put_proc pid p k) = k_processor k"
  "k_envs (put_proc pid p k) = k_envs k" "k_resources (put_proc pid p k) = k_resources k"
  "k_counter (put_proc pid p k) = k_counter k"
  by (simp_all add: put_proc_def)

lemma push_ready_sel [simp]:
  "processes (push_ready pid k) = processes k" "ready_queue (push_ready pid k) = ready_queue k @ [pid]"
  "waiting_processes (push_ready pid k) = waiting_processes k" "k_vm (push_ready pid k) = k_vm k"
  "k_semaphores (push_ready pid k) = k_semaphores k" "k_processor (push_ready pid k) = k_processor k"
  "k_envs (push_ready pid k) = k_envs k" "k_resources (push_ready pid k) = k_resources k"
  "k_counter (push_ready pid k) = k_counter k"
  by (simp_all add: push_ready_def)

lemma set_pid_sel [simp]:
  "processes (set_pid pid k) = processes k" "ready_queue (set_pid pid k) = ready_queue k"
  "waiting_processes (set_pid pid k) = waiting_processes k" "k_vm (set_pid pid k) = k_vm k"
  "k_semaphores (set_pid pid k) = k_semaphores k" "k_processor (set_pid pid k) = pid_u16 pid"
  "k_envs (set_pid pid k) = k_envs k" "k_resources (set_pid pid k) = k_resources k"
  "k_counter (set_pid pid k) = k_counter k"
  by (simp_all add: set_pid_def)

text \<open>The parts of the invariant depend on parts of the state.\<close>

lemma has_status_cong: "processes k' = processes k \<Longrightarrow> has_status k' = has_status k"
  by (auto simp: has_status_def fun_eq_iff)

lemma waits_on_cong:
  "k_semaphores k' = k_semaphores k \<Longrightarrow> waiting_processes k' = waiting_processes k \<Longrightarrow> waits_on k' pid pl = waits_on k pid pl"
  by (cases pl) auto

lemma memory_ok_cong:
  assumes "processes k' = processes k" "vs_tables (k_vm k') = vs_tables (k_vm k)" "k_envs k' = k_envs k"
    "vs_heap_ends (k_vm k') = vs_heap_ends (k_vm k)" "vs_next (k_vm k') = vs_next (k_vm k)"
    "dom (k_resources k') = dom (k_resources k)" "dom (k_semaphores k') = dom (k_semaphores k)"
  shows "memory_ok k' = memory_ok k"
  using assms by (simp add: memory_ok_def refs_ok_def data_refs_def vm_refs_def table_users_def)

text \<open>The same page table and heap.\<close>

definition same_space :: "ProcessVm option \<Rightarrow> ProcessVm option \<Rightarrow> bool" where
  "same_space v' v = (case (v', v) of
     (Some v', Some v) \<Rightarrow> pv_page_table v' = pv_page_table v \<and> pv_heap v' = pv_heap v
   | (None, None) \<Rightarrow> True | _ \<Rightarrow> False)"

lemma same_space_refl [simp]: "same_space v v"
  by (simp add: same_space_def split: option.splits)

lemma memory_ok_put:
  assumes "memory_ok k" "processes k pid = Some p" "same_space (proc_vm p') (proc_vm p)" "proc_data p' = proc_data p"
    and "pr_status p' = Dead \<longleftrightarrow> pr_status p = Dead"
  shows "memory_ok (put_proc pid p' k)"
proof -
  have "table_users (put_proc pid p' k) = table_users k"
    using assms(2,3) by (auto simp: table_users_def fun_eq_iff same_space_def split: option.splits)
  moreover have "refs_ok (put_proc pid p' k) q = refs_ok k q" for q
    by (simp add: refs_ok_def data_refs_def)
  moreover have "refs_ok k p'"
  proof -
    have "refs_ok k p" using assms(1,2) by (simp add: memory_ok_def)
    then show ?thesis
      using assms(3-5) by (auto simp: refs_ok_def vm_refs_def same_space_def split: option.splits if_splits)
  qed
  ultimately show ?thesis using assms(1,2) by (auto simp: memory_ok_def)
qed

lemma queues_ok_requeue:
  assumes "queues_ok k" "\<not> has_status k Ready pid" "pr_status p = Ready"
  shows "queues_ok (push_ready pid (put_proc pid p k))"
proof -
  have "pid \<notin> set (ready_queue k)" using assms(1,2) by (simp add: queues_ok_def)
  moreover have "has_status (push_ready pid (put_proc pid p k)) = has_status (put_proc pid p k)"
    by (rule has_status_cong) simp
  ultimately show ?thesis using assms(1,3) by (auto simp: queues_ok_def)
qed

lemma waiters_ok_put:
  assumes "waiters_ok k" "\<not> has_status k Blocked pid"
  shows "waiters_ok (put_proc pid p k)"
proof -
  have "waits_on (put_proc pid p k) q pl = waits_on k q pl" for q pl by (rule waits_on_cong) simp_all
  then show ?thesis using assms by (auto simp: waiters_ok_def)
qed

lemma waiters_ok_cong:
  assumes "processes k' = processes k" "k_semaphores k' = k_semaphores k" "waiting_processes k' = waiting_processes k"
  shows "waiters_ok k' = waiters_ok k"
  using assms waits_on_cong [OF assms(2,3)] has_status_cong [OF assms(1)] by (simp add: waiters_ok_def)

section \<open>Switching\<close>

lemma kernel_ok_current:
  assumes "kernel_ok k"
  obtains p where "get_pid k = Ok (ProcessId (k_processor k))" "processes k (ProcessId (k_processor k)) = Some p"
    "pr_status p = Running" "current k = Ok (ProcessId (k_processor k), p)"
proof -
  have "has_status k Running (ProcessId (k_processor k))" "k_processor k \<noteq> 0"
    using assms by (auto simp: kernel_ok_def)
  then show thesis
    using that by (auto simp: has_status_def get_pid_def processor_get_pid_def current_def get_proc_def unwrap_option_def)
qed

text \<open>
  \<open>switch_next\<close> takes the process at the head of the queue, which is ready, and returns its context.
\<close>

lemma switch_next_ok:
  assumes "idle_ok k"
  shows "\<exists>pid p c k'. switch_next k = Ok (pr_context p, pid, k') \<and> kernel_ok k' \<and>
    ready_queue k = pid # ready_queue k' \<and> processes k pid = Some p \<and> pr_status p = Ready \<and>
    k_processor k' = pid_u16 pid \<and>
    k' = set_pid pid (put_proc pid (resume p) (k\<lparr>ready_queue := ready_queue k', k_vm := (k_vm k)\<lparr>vs_cr3 := c\<rparr>\<rparr>))"
proof -
  have "KERNEL_PID \<in> set (ready_queue k)" using assms by (auto simp: idle_ok_def queues_ok_def)
  then obtain pid rest where q: "ready_queue k = pid # rest" by (cases "ready_queue k") auto
  then have "has_status k Ready pid" using assms by (auto simp: idle_ok_def queues_ok_def)
  then obtain p where p: "processes k pid = Some p" "pr_status p = Ready" by (auto simp: has_status_def)
  then have "refs_ok k p" using assms by (auto simp: idle_ok_def memory_ok_def)
  then obtain v where v: "proc_vm p = Some v" "vm_refs (k_vm k) v" using p(2) by (auto simp: refs_ok_def)
  then obtain c n where c: "vs_tables (k_vm k) (ptc_reg (pv_page_table v)) = Some (c, n)"
    by (auto simp: vm_refs_def)
  let ?s = "(k_vm k)\<lparr>vs_cr3 := c\<rparr>"
  let ?k1 = "k\<lparr>ready_queue := rest, k_vm := ?s\<rparr>"
  let ?k = "set_pid pid (put_proc pid (resume p) ?k1)"
  have "next_ready k = Some (Ok (pid, p, k\<lparr>ready_queue := rest\<rparr>))"
    using q p by (simp add: next_ready_head is_ready_def)
  then have sw: "switch_next k = Ok (pr_context p, pid, ?k)"
    using v c by (simp add: switch_next_def process_restore_def resume_def ptc_load_def ptc_value_def unwrap_option_def)
  show ?thesis
  proof (rule exI [of _ pid], rule exI [of _ p], rule exI [of _ c], rule exI [of _ ?k], intro conjI)
    show "ready_queue k = pid # ready_queue ?k" using q by simp
    show "switch_next k = Ok (pr_context p, pid, ?k)" by (rule sw)
    show "kernel_ok ?k" unfolding kernel_ok_def
    proof (intro conjI)
      have st: "has_status ?k = has_status (put_proc pid (resume p) k)"
        by (rule has_status_cong) simp
      show "queues_ok ?k"
        using assms q unfolding queues_ok_def idle_ok_def st by (auto simp: resume_def)
      have "waiters_ok (put_proc pid (resume p) k)"
        using assms p by (intro waiters_ok_put) (auto simp: idle_ok_def has_status_def)
      then show "waiters_ok ?k" using waiters_ok_cong [of ?k "put_proc pid (resume p) k"] by simp
      have "memory_ok (put_proc pid (resume p) k)"
        using assms p by (intro memory_ok_put) (auto simp: idle_ok_def resume_def)
      then show "memory_ok ?k" using memory_ok_cong [of ?k "put_proc pid (resume p) k"] by simp
      show "has_status ?k Ready KERNEL_PID \<or> has_status ?k Running KERNEL_PID"
        using assms unfolding st by (auto simp: idle_ok_def resume_def)
      have "pid \<noteq> ProcessId 0" using assms p by (auto simp: idle_ok_def memory_ok_def)
      then show "k_processor ?k \<noteq> 0" by (cases pid) simp
      show "\<forall>q. has_status ?k Running q \<longleftrightarrow> q = ProcessId (k_processor ?k)"
        using assms unfolding st by (auto simp: idle_ok_def resume_def)
    qed
  qed (use p in simp_all)
qed

text \<open>Saving the current process and queueing it leaves no process running.\<close>

lemma save_current_ok:
  assumes "kernel_ok k" "current k = Ok (cur, p)"
  shows "save_current c k = Ok (cur, put_proc cur (tick p\<lparr>pr_context := c, pr_status := Ready\<rparr>) k)"
proof -
  have "pr_status p = Running" using assms by (auto elim!: kernel_ok_current)
  then show ?thesis using assms(2) by (simp add: save_current_def process_save_def pause_def tick_def)
qed

lemma idle_after_save:
  assumes "kernel_ok k" "current k = Ok (cur, p)" "pr_status p' = Ready" "proc_vm p' = proc_vm p" "proc_data p' = proc_data p"
  shows "idle_ok (push_ready cur (put_proc cur p' k))"
proof -
  obtain q where cur: "cur = ProcessId (k_processor k)" "processes k cur = Some p" "pr_status p = Running"
    using assms(1,2) by (auto elim!: kernel_ok_current)
  let ?k = "put_proc cur p' k"
  have st: "has_status (push_ready cur ?k) = has_status ?k" by (rule has_status_cong) simp
  have "memory_ok ?k" using assms cur by (intro memory_ok_put) (auto simp: kernel_ok_def)
  then have "memory_ok (push_ready cur ?k)" using memory_ok_cong [of "push_ready cur ?k" ?k] by simp
  moreover have "waiters_ok ?k"
    using assms cur by (intro waiters_ok_put) (auto simp: kernel_ok_def has_status_def)
  then have "waiters_ok (push_ready cur ?k)" using waiters_ok_cong [of "push_ready cur ?k" ?k] by simp
  moreover have "queues_ok (push_ready cur ?k)"
    using assms cur by (intro queues_ok_requeue) (auto simp: kernel_ok_def has_status_def)
  moreover have "has_status ?k Ready KERNEL_PID \<and> (\<forall>q. \<not> has_status ?k Running q)"
    using assms(1,3) cur(1) by (auto simp: kernel_ok_def)
  ultimately show ?thesis unfolding idle_ok_def st by blast
qed

text \<open>A clock interrupt returns, to the process at the head of the queue; the interrupted one goes to its end.\<close>

lemma switch_ok:
  assumes "kernel_ok k"
  obtains c' k' where "switch c k = Ok (c', k')" "kernel_ok k'"
    "ready_queue k @ [ProcessId (k_processor k)] = ProcessId (k_processor k') # ready_queue k'"
proof -
  obtain p where p: "current k = Ok (ProcessId (k_processor k), p)"
    using assms by (rule kernel_ok_current)
  let ?cur = "ProcessId (k_processor k)"
  let ?p = "tick p\<lparr>pr_context := c, pr_status := Ready\<rparr>"
  have "idle_ok (push_ready ?cur (put_proc ?cur ?p k))"
    by (rule idle_after_save [OF assms p]) (simp_all add: tick_def)
  from switch_next_ok [OF this]
  obtain pid and q :: Process and k' where "ready_queue (push_ready ?cur (put_proc ?cur ?p k)) = pid # ready_queue k'"
      "switch_next (push_ready ?cur (put_proc ?cur ?p k)) = Ok (pr_context q, pid, k')" "kernel_ok k'"
      "k_processor k' = pid_u16 pid"
    by blast
  then show thesis
    using that [of "pr_context q" k'] save_current_ok [OF assms p, of c] by (simp add: switch_def)
qed


section \<open>Blocking\<close>

text \<open>The current process, not the kernel's, blocks at a place where it is the only new waiter.\<close>

lemma idle_after_block:
  assumes ok: "kernel_ok k" and cur: "current k = Ok (cur, p)" "cur \<noteq> KERNEL_PID"
    and p': "pr_status p' = Blocked" "proc_vm p' = proc_vm p" "proc_data p' = proc_data p"
    and k': "processes k' = (processes k)(cur \<mapsto> p')" "ready_queue k' = ready_queue k" "k_vm k' = k_vm k"
      "k_envs k' = k_envs k" "dom (k_resources k') = dom (k_resources k)" "dom (k_semaphores k') = dom (k_semaphores k)"
    and w: "\<And>q pl'. waits_on k' q pl' \<longleftrightarrow> waits_on k q pl' \<or> q = cur \<and> pl' = pl"
    and d: "\<forall>r ss sid sem. k_semaphores k' r = Some ss \<longrightarrow> sems ss sid = Some sem \<longrightarrow> distinct (wait_queue sem)"
  shows "idle_ok k'"
proof -
  have c: "cur = ProcessId (k_processor k)" "processes k cur = Some p" "pr_status p = Running"
    using ok cur(1) by (auto elim!: kernel_ok_current)
  have st: "has_status k' = has_status (put_proc cur p' k)" by (rule has_status_cong) (simp add: k')
  have "memory_ok (put_proc cur p' k)" using ok c p' by (intro memory_ok_put) (auto simp: kernel_ok_def)
  then have "memory_ok k'" using memory_ok_cong [of k' "put_proc cur p' k"] by (simp add: k')
  moreover have "queues_ok k'"
    using ok c p'(1) unfolding queues_ok_def st by (auto simp: kernel_ok_def queues_ok_def has_status_def k')
  moreover have "waiters_ok k'"
  proof -
    have nb: "\<not> waits_on k cur pl'" for pl'
      using ok c by (auto simp: kernel_ok_def waiters_ok_def has_status_def)
    have wk: "waiters_ok k" using ok by (simp add: kernel_ok_def)
    show ?thesis
      unfolding waiters_ok_def st
    proof (intro conjI allI impI)
      fix q pl' assume "waits_on k' q pl'"
      then show "has_status (put_proc cur p' k) Blocked q"
        using wk p'(1) by (auto simp: w waiters_ok_def)
    next
      fix q pl1 pl2 assume "waits_on k' q pl1" "waits_on k' q pl2"
      then show "pl1 = pl2" using nb wk by (auto simp: w waiters_ok_def)
    next
      fix r ss sid sem assume "k_semaphores k' r = Some ss" "sems ss sid = Some sem"
      with d show "distinct (wait_queue sem)" by blast
    qed
  qed
  moreover have "has_status k' Ready KERNEL_PID \<and> (\<forall>q. \<not> has_status k' Running q)"
    using ok cur(2) c p'(1) unfolding st by (auto simp: kernel_ok_def)
  ultimately show ?thesis unfolding idle_ok_def by blast
qed

text \<open>Waking a blocked process: it leaves its place and joins the queue.\<close>

lemma kernel_ok_wake:
  assumes ok: "kernel_ok k" and p: "processes k pid = Some p" "pr_status p = Blocked"
    and p': "pr_status p' = Ready" "proc_vm p' = proc_vm p" "proc_data p' = proc_data p"
    and k': "processes k' = (processes k)(pid \<mapsto> p')" "ready_queue k' = ready_queue k @ [pid]" "k_vm k' = k_vm k"
      "k_envs k' = k_envs k" "dom (k_resources k') = dom (k_resources k)" "dom (k_semaphores k') = dom (k_semaphores k)"
      "k_processor k' = k_processor k"
    and w: "\<And>q pl. waits_on k' q pl \<Longrightarrow> waits_on k q pl \<and> q \<noteq> pid"
    and d: "\<forall>r ss sid sem. k_semaphores k' r = Some ss \<longrightarrow> sems ss sid = Some sem \<longrightarrow> distinct (wait_queue sem)"
  shows "kernel_ok k'"
proof -
  let ?k = "put_proc pid p' k"
  have st: "has_status k' = has_status ?k" by (rule has_status_cong) (simp add: k')
  have "memory_ok ?k" using ok p p' by (intro memory_ok_put) (auto simp: kernel_ok_def)
  then have "memory_ok k'" using memory_ok_cong [of k' ?k] by (simp add: k')
  moreover have "queues_ok (push_ready pid ?k)"
    using ok p p' by (intro queues_ok_requeue) (auto simp: kernel_ok_def has_status_def)
  then have "queues_ok k'"
    using has_status_cong [of "push_ready pid ?k" ?k] unfolding queues_ok_def st by (simp add: k')
  moreover have "waiters_ok k'"
    using ok w d unfolding waiters_ok_def st kernel_ok_def by (simp add: waiters_ok_def) blast
  moreover have "has_status k' Ready KERNEL_PID \<or> has_status k' Running KERNEL_PID"
    using ok p p' unfolding st by (auto simp: kernel_ok_def has_status_def)
  moreover have "has_status k' Running q \<longleftrightarrow> q = ProcessId (k_processor k')" for q
  proof -
    obtain q where "processes k (ProcessId (k_processor k)) = Some q" "pr_status q = Running"
      using ok by (rule kernel_ok_current)
    with p have "pid \<noteq> ProcessId (k_processor k)" by auto
    then show ?thesis using ok p'(1) unfolding st k'(7) by (auto simp: kernel_ok_def)
  qed
  ultimately show ?thesis using ok unfolding kernel_ok_def by (simp add: k'(7))
qed

end
