(* ===== verification/Proc_Handlers.thy ===== *)
theory Proc_Handlers
  imports Proc_Invariant
begin

text \<open>
  The operations of \<open>pkg/kernel/src/proc/mod.rs\<close> that block, wake, end or fork a process keep the
  invariant of the kernel: a wait blocks the caller at one place, a signal wakes the one that waits
  longest, an exit wakes all who wait for the process, and a fork shares the page table of its parent.
\<close>

section \<open>Waiting, signalling and ending\<close>

lemma kernel_ok_cong:
  assumes ok: "kernel_ok k"
    and k': "processes k' = processes k" "ready_queue k' = ready_queue k" "k_processor k' = k_processor k"
      "vs_tables (k_vm k') = vs_tables (k_vm k)" "vs_heap_ends (k_vm k') = vs_heap_ends (k_vm k)"
      "vs_next (k_vm k') = vs_next (k_vm k)" "k_envs k' = k_envs k"
      "dom (k_resources k') = dom (k_resources k)" "dom (k_semaphores k') = dom (k_semaphores k)"
    and w: "\<And>q pl. waits_on k' q pl \<Longrightarrow> waits_on k q pl"
    and d: "\<forall>r ss sid sem. k_semaphores k' r = Some ss \<longrightarrow> sems ss sid = Some sem \<longrightarrow> distinct (wait_queue sem)"
  shows "kernel_ok k'"
proof -
  have st: "has_status k' = has_status k" by (rule has_status_cong [OF k'(1)])
  have "memory_ok k'" using ok memory_ok_cong [of k' k] k' by (simp add: kernel_ok_def)
  moreover have "waiters_ok k'" using ok w d by (simp add: kernel_ok_def waiters_ok_def st) blast
  moreover have "queues_ok k'" using ok k' by (simp add: kernel_ok_def queues_ok_def st)
  ultimately show ?thesis using ok unfolding kernel_ok_def st k' by blast
qed

lemma kernel_ok_waiter:
  "kernel_ok k \<Longrightarrow> waits_on k pid pl \<Longrightarrow> \<exists>q. processes k pid = Some q \<and> pr_status q = Blocked"
  unfolding kernel_ok_def waiters_ok_def has_status_def by blast

lemma kernel_ok_one_place: "kernel_ok k \<Longrightarrow> waits_on k pid pl \<Longrightarrow> waits_on k pid pl' \<Longrightarrow> pl = pl'"
  unfolding kernel_ok_def waiters_ok_def by blast

section \<open>Waiting for a process\<close>

lemma get_pid_processor: "current k = Ok (cur, p) \<Longrightarrow> get_pid k = Ok cur \<and> processes k cur = Some p"
  by (auto simp: current_def get_proc_def unwrap_option_def split: option.splits)

lemma get_pid_cong: "k_processor k' = k_processor k \<Longrightarrow> get_pid k' = get_pid k"
  by (simp add: get_pid_def processor_get_pid_def)

text \<open>
  The process that waits for a live one blocks; the state before the switch is \<open>k3\<close>.
\<close>

lemma wait_pid_blocks:
  fixes c :: ProcessContext
  assumes ok: "kernel_ok k" and cur: "current k = Ok (cur, p)" "cur \<noteq> KERNEL_PID"
    and alive: "is_proc_alive k target"
  defines "S \<equiv> (case waiting_processes k target of None \<Rightarrow> {} | Some S \<Rightarrow> S)"
  defines "k3 \<equiv> (put_proc cur (tick p\<lparr>pr_context := c, pr_status := Blocked\<rparr>) k)
      \<lparr>waiting_processes := (waiting_processes k)(target \<mapsto> insert cur S)\<rparr>"
  shows "idle_ok k3" "wait_pid target c k = and_then (switch_next k3) (\<lambda>(c', _, k4). Ok (c', k4))"
proof -
  note cp = get_pid_processor [OF cur(1)]
  have w: "waits_on k3 q pl' \<longleftrightarrow> waits_on k q pl' \<or> q = cur \<and> pl' = OnProcess target" for q pl'
    by (cases pl') (auto simp: k3_def S_def split: option.splits)
  show "idle_ok k3"
  proof (rule idle_after_block [OF ok cur, where p' = "tick p\<lparr>pr_context := c, pr_status := Blocked\<rparr>", OF _ _ _ _ _ _ _ _ _ w])
    show "\<forall>r ss sid sem. k_semaphores k3 r = Some ss \<longrightarrow> sems ss sid = Some sem \<longrightarrow> distinct (wait_queue sem)"
      using ok by (auto simp: k3_def kernel_ok_def waiters_ok_def)
  qed (simp_all add: k3_def tick_def)
  have gp: "get_pid (put_proc cur q k) = Ok cur" for q using cp get_pid_cong [of "put_proc cur q k" k] by simp
  show "wait_pid target c k = and_then (switch_next k3) (\<lambda>(c', _, k4). Ok (c', k4))"
    using cp alive save_current_ok [OF ok cur(1), of c] gp
    by (simp add: wait_pid_def block_proc_def get_proc_def unwrap_option_def add_waiting_def k3_def S_def
        put_proc_def block_def tick_def)
qed

section \<open>Semaphores\<close>

lemma kernel_ok_data:
  assumes "kernel_ok k" "current k = Ok (cur, p)"
  obtains d ss where "proc_data p = Some d" "current_data k = Ok d" "k_semaphores k (pd_semaphores d) = Some ss"
proof -
  have p: "processes k cur = Some p" "pr_status p = Running" using assms by (auto elim!: kernel_ok_current)
  then have "refs_ok k p" using assms(1) by (simp add: kernel_ok_def memory_ok_def)
  with p(2) obtain d where "proc_data p = Some d" "data_refs k d" by (auto simp: refs_ok_def)
  with that assms(2) show thesis by (auto simp: current_data_def data_refs_def unwrap_option_def)
qed

abbreviation put_sems :: "nat \<Rightarrow> SemaphoreSet \<Rightarrow> ('t, 'f, 'w) kernel \<Rightarrow> ('t, 'f, 'w) kernel" where
  "put_sems r ss k \<equiv> k\<lparr>k_semaphores := (k_semaphores k)(r \<mapsto> ss)\<rparr>"

lemma sem_wait_blocks:
  fixes c :: ProcessContext
  assumes ok: "kernel_ok k" and cur: "current k = Ok (cur, p)" "cur \<noteq> KERNEL_PID"
    and d: "proc_data p = Some d" "k_semaphores k (pd_semaphores d) = Some ss"
    and sem: "sems ss (SemaphoreId key) = Some sem" "sem_count sem = 0"
  defines "k3 \<equiv> put_proc cur (tick p\<lparr>pr_context := c, pr_status := Blocked\<rparr>)
      (put_sems (pd_semaphores d) (ss\<lparr>sems := (sems ss)(SemaphoreId key \<mapsto> sem\<lparr>wait_queue := wait_queue sem @ [cur]\<rparr>)\<rparr>) k)"
  shows "idle_ok k3" "sem_wait key c k = and_then (switch_next k3) (\<lambda>(c', _, k4). Ok (c', k4))"
proof -
  note cp = get_pid_processor [OF cur(1)]
  let ?r = "pd_semaphores d"
  let ?ss = "ss\<lparr>sems := (sems ss)(SemaphoreId key \<mapsto> sem\<lparr>wait_queue := wait_queue sem @ [cur]\<rparr>)\<rparr>"
  have st: "pr_status p = Running" using ok cur by (auto elim!: kernel_ok_current)
  have nw: "\<not> waits_on k cur pl" for pl
    using ok st cp by (auto simp: kernel_ok_def waiters_ok_def has_status_def)
  have nq: "cur \<notin> set (wait_queue sem)" using nw [of "OnSemaphore ?r (SemaphoreId key)"] d sem by auto
  have w: "waits_on k3 q pl' \<longleftrightarrow> waits_on k q pl' \<or> q = cur \<and> pl' = OnSemaphore ?r (SemaphoreId key)" for q pl'
    using d sem by (cases pl') (auto simp: k3_def)
  show "idle_ok k3"
  proof (rule idle_after_block [OF ok cur, where p' = "tick p\<lparr>pr_context := c, pr_status := Blocked\<rparr>", OF _ _ _ _ _ _ _ _ _ w])
    show "\<forall>r ss' sid sem'. k_semaphores k3 r = Some ss' \<longrightarrow> sems ss' sid = Some sem' \<longrightarrow> distinct (wait_queue sem')"
      using ok d sem nq by (auto simp: k3_def kernel_ok_def waiters_ok_def)
  qed (use d in \<open>auto simp add: k3_def tick_def\<close>)
  let ?k1 = "put_sems ?r ?ss k"
  have c1: "current ?k1 = Ok (cur, p)"
    using cur(1) by (auto simp: current_def get_pid_def processor_get_pid_def get_proc_def split: if_splits)
  have sv: "save_current c ?k1 = Ok (cur, put_proc cur (tick p\<lparr>pr_context := c, pr_status := Ready\<rparr>) ?k1)"
    using c1 st by (simp add: save_current_def process_save_def pause_def tick_def)
  have cd: "current_data k = Ok d" using cur(1) d(1) by (simp add: current_data_def unwrap_option_def)
  show "sem_wait key c k = and_then (switch_next k3) (\<lambda>(c', _, k4). Ok (c', k4))"
    using cp cd d sem sv
    by (simp add: sem_wait_def data_sem_wait_def with_semaphores_def semset_wait_def semaphore_wait_def
        block_proc_def get_proc_def unwrap_option_def k3_def put_proc_def block_def tick_def)
qed

lemma sem_wait_ok:
  assumes ok: "kernel_ok k" and cur: "current k = Ok (cur, p)" "cur \<noteq> KERNEL_PID"
  shows "\<exists>c' k'. sem_wait key c k = Ok (c', k') \<and> kernel_ok k'"
proof -
  obtain d ss where d: "proc_data p = Some d" "current_data k = Ok d" "k_semaphores k (pd_semaphores d) = Some ss"
    using ok cur(1) by (rule kernel_ok_data)
  note cp = get_pid_processor [OF cur(1)]
  note defs = sem_wait_def data_sem_wait_def with_semaphores_def semset_wait_def semaphore_wait_def unwrap_option_def
  show ?thesis
  proof (cases "sems ss (SemaphoreId key)")
    case None
    then have "sem_wait key c k = Ok (set_rax 1 c, put_sems (pd_semaphores d) ss k)" using cp d by (simp add: defs)
    moreover have "put_sems (pd_semaphores d) ss k = k" using d(3) by (simp add: fun_upd_idem)
    ultimately show ?thesis using ok by simp
  next
    case (Some sem)
    show ?thesis
    proof (cases "sem_count sem = 0")
      case True
      note b = sem_wait_blocks [OF ok cur d(1,3) Some True, of c]
      from switch_next_ok [OF b(1)] b(2) show ?thesis by auto
    next
      case False
      let ?k = "put_sems (pd_semaphores d) (ss\<lparr>sems := (sems ss)(SemaphoreId key \<mapsto> sem\<lparr>sem_count := sem_count sem - 1\<rparr>)\<rparr>) k"
      have "sem_wait key c k = Ok (set_rax 0 c, ?k)" using cp d Some False by (simp add: defs)
      moreover have "waits_on ?k q pl \<Longrightarrow> waits_on k q pl" for q pl using d(3) Some by (cases pl) (auto split: if_splits)
      then have "kernel_ok ?k"
        using d(3) Some ok by (intro kernel_ok_cong [OF ok]) (auto simp: kernel_ok_def waiters_ok_def)
      ultimately show ?thesis by blast
    qed
  qed
qed

text \<open>A signal wakes the process that waits longest, which joins the ready queue.\<close>

lemma sem_signal_wakes:
  assumes ok: "kernel_ok k" and cur: "current k = Ok (cur, p)"
    and d: "proc_data p = Some d" "k_semaphores k (pd_semaphores d) = Some ss"
    and sem: "sems ss (SemaphoreId key) = Some sem" "wait_queue sem = pid # rest"
  shows "\<exists>q k'. sem_signal key c k = Ok (c, k') \<and> kernel_ok k' \<and> processes k pid = Some q \<and> pr_status q = Blocked \<and>
    processes k' = (processes k)(pid \<mapsto> pause q) \<and> ready_queue k' = ready_queue k @ [pid]"
proof -
  let ?r = "pd_semaphores d"
  let ?k1 = "put_sems ?r (ss\<lparr>sems := (sems ss)(SemaphoreId key \<mapsto> sem\<lparr>wait_queue := rest\<rparr>)\<rparr>) k"
  have wo: "waits_on k pid (OnSemaphore ?r (SemaphoreId key))" using d sem by auto
  then obtain q where q: "processes k pid = Some q" "pr_status q = Blocked"
    using kernel_ok_waiter [OF ok] by blast
  let ?k = "push_ready pid (put_proc pid (pause q) ?k1)"
  have cd: "current_data k = Ok d" using cur(1) d(1) by (simp add: current_data_def unwrap_option_def)
  have dist: "distinct (pid # rest)" using ok d sem by (metis kernel_ok_def waiters_ok_def)
  have uniq: "waits_on k pid pl \<Longrightarrow> pl = OnSemaphore ?r (SemaphoreId key)" for pl
    using kernel_ok_one_place [OF ok _ wo] .
  have run: "sem_signal key c k = Ok (c, ?k)"
    using cd d sem q
    by (simp add: sem_signal_def data_sem_signal_def with_semaphores_def semset_signal_def semaphore_signal_def
        unwrap_option_def wake_up_def get_proc_def)
  have w: "waits_on ?k q' pl \<Longrightarrow> waits_on k q' pl \<and> q' \<noteq> pid" for q' pl
  proof -
    assume a: "waits_on ?k q' pl"
    then have b: "waits_on k q' pl" using d(2) sem by (cases pl) (auto split: if_splits)
    moreover have "q' \<noteq> pid"
    proof
      assume "q' = pid"
      with b uniq have "pl = OnSemaphore ?r (SemaphoreId key)" by blast
      with a \<open>q' = pid\<close> dist show False by auto
    qed
    ultimately show ?thesis by blast
  qed
  have "kernel_ok ?k"
    by (rule kernel_ok_wake [OF ok q, where p' = "pause q", OF _ _ _ _ _ _ _ _ _ _ w])
      (use d(2) sem ok dist in \<open>auto simp: pause_def kernel_ok_def waiters_ok_def\<close>)
  with run q show ?thesis by auto
qed

lemma sem_signal_ok:
  assumes ok: "kernel_ok k" and cur: "current k = Ok (cur, p)"
  shows "\<exists>c' k'. sem_signal key c k = Ok (c', k') \<and> kernel_ok k'"
proof -
  obtain d ss where d: "proc_data p = Some d" "current_data k = Ok d" "k_semaphores k (pd_semaphores d) = Some ss"
    using ok cur(1) by (rule kernel_ok_data)
  note defs = sem_signal_def data_sem_signal_def with_semaphores_def semset_signal_def semaphore_signal_def unwrap_option_def
  show ?thesis
  proof (cases "sems ss (SemaphoreId key)")
    case None
    then have "sem_signal key c k = Ok (set_rax 1 c, put_sems (pd_semaphores d) ss k)" using d by (simp add: defs)
    moreover have "put_sems (pd_semaphores d) ss k = k" using d(3) by (simp add: fun_upd_idem)
    ultimately show ?thesis using ok by simp
  next
    case (Some sem)
    show ?thesis
    proof (cases "wait_queue sem")
      case Nil
      let ?k = "put_sems (pd_semaphores d) (ss\<lparr>sems := (sems ss)(SemaphoreId key \<mapsto> sem\<lparr>sem_count := sem_count sem + 1\<rparr>)\<rparr>) k"
      have "sem_signal key c k = Ok (set_rax 0 c, ?k)" using d Some Nil by (simp add: defs)
      moreover have "waits_on ?k q pl \<Longrightarrow> waits_on k q pl" for q pl using d(3) Some by (cases pl) (auto split: if_splits)
      then have "kernel_ok ?k"
        using d(3) Some ok by (intro kernel_ok_cong [OF ok]) (auto simp: kernel_ok_def waiters_ok_def)
      ultimately show ?thesis by blast
    next
      case (Cons pid rest)
      from sem_signal_wakes [OF ok cur d(1,3) Some Cons, of c] show ?thesis by blast
    qed
  qed
qed


section \<open>The end of a process\<close>

definition woken :: "u64 \<Rightarrow> Process \<Rightarrow> Process" where
  "woken ret p = p\<lparr>pr_context := set_rax ret (pr_context p), pr_status := Ready\<rparr>"

text \<open>Processes that are blocked and wait nowhere any more are all woken, in order.\<close>

lemma wake_list_ok:
  "\<lbrakk>kernel_ok k; distinct pids; \<forall>pid \<in> set pids. has_status k Blocked pid \<and> (\<forall>pl. \<not> waits_on k pid pl)\<rbrakk> \<Longrightarrow>
   \<exists>k'. wake_list ret pids k = Ok k' \<and> kernel_ok k' \<and> ready_queue k' = ready_queue k @ pids \<and>
     processes k' = (\<lambda>q. if q \<in> set pids then map_option (woken ret) (processes k q) else processes k q) \<and>
     k_vm k' = k_vm k \<and> k_processor k' = k_processor k"
proof (induction pids arbitrary: k)
  case Nil
  then show ?case by simp
next
  case (Cons pid pids)
  obtain p where p: "processes k pid = Some p" "pr_status p = Blocked"
    using Cons.prems(3) by (auto simp: has_status_def)
  define k1 where "k1 = push_ready pid (put_proc pid (woken ret p) k)"
  have same: "waits_on k1 q pl = waits_on k q pl" for q pl by (rule waits_on_cong) (simp_all add: k1_def)
  have "kernel_ok k1"
    by (rule kernel_ok_wake [OF Cons.prems(1) p, where p' = "woken ret p"])
      (use Cons.prems same in \<open>auto simp: k1_def woken_def kernel_ok_def waiters_ok_def\<close>)
  moreover have "has_status k1 st q = has_status (put_proc pid (woken ret p) k) st q" for st q
    using has_status_cong [of k1 "put_proc pid (woken ret p) k"] by (simp add: k1_def)
  then have "\<forall>q \<in> set pids. has_status k1 Blocked q \<and> (\<forall>pl. \<not> waits_on k1 q pl)"
    using Cons.prems(2,3) same by auto
  moreover have "wake_list ret (pid # pids) k = wake_list ret pids k1"
    using p by (simp add: get_proc_def unwrap_option_def wake_up_def k1_def woken_def pause_def put_proc_def)
  moreover have "distinct pids" using Cons.prems(2) by simp
  ultimately obtain k' where k': "wake_list ret (pid # pids) k = Ok k'" "kernel_ok k'"
      "ready_queue k' = ready_queue k1 @ pids"
      "processes k' = (\<lambda>q. if q \<in> set pids then map_option (woken ret) (processes k1 q) else processes k1 q)"
      "k_vm k' = k_vm k1" "k_processor k' = k_processor k1"
    using Cons.IH [of k1] by auto
  have "processes k' = (\<lambda>q. if q \<in> set (pid # pids) then map_option (woken ret) (processes k q) else processes k q)"
    using Cons.prems(2) p by (auto simp: k'(4) k1_def fun_eq_iff)
  with k' show ?case by (auto simp: k1_def)
qed

text \<open>The processes that wait for process \<open>cur\<close>.\<close>

definition waiters_of :: "('t, 'f, 'w) kernel \<Rightarrow> ProcessId \<Rightarrow> ProcessId set" where
  "waiters_of k pid = (case waiting_processes k pid of None \<Rightarrow> {} | Some S \<Rightarrow> S)"

lemma wake_waiting_ok:
  assumes ok: "kernel_ok k" and cur: "current k = Ok (cur, p)"
  shows "\<exists>k'. wake_waiting ret k = Ok k' \<and> kernel_ok k' \<and>
    ready_queue k' = ready_queue k @ sorted_list_of_set (waiters_of k cur) \<and>
    processes k' = (\<lambda>q. if q \<in> waiters_of k cur then map_option (woken ret) (processes k q) else processes k q) \<and>
    k_vm k' = k_vm k \<and> k_processor k' = k_processor k"
proof -
  note cp = get_pid_processor [OF cur]
  show ?thesis
  proof (cases "waiting_processes k cur")
    case None
    with cp ok show ?thesis by (auto simp: wake_waiting_def waiters_of_def)
  next
    case (Some S)
    let ?k = "k\<lparr>waiting_processes := (waiting_processes k)(cur := None)\<rparr>"
    have w: "waits_on ?k q pl \<Longrightarrow> waits_on k q pl \<and> pl \<noteq> OnProcess cur" for q pl
      by (cases pl) (auto split: if_splits)
    have "kernel_ok ?k"
      using ok by (intro kernel_ok_cong [OF ok]) (auto simp: kernel_ok_def waiters_ok_def dest: w)
    moreover have "has_status ?k Blocked q \<and> (\<forall>pl. \<not> waits_on ?k q pl)" if "q \<in> S" for q
    proof -
      have wo: "waits_on k q (OnProcess cur)" using Some that by auto
      then have "has_status k Blocked q" using kernel_ok_waiter [OF ok wo] by (auto simp: has_status_def)
      then have "has_status ?k Blocked q" by (simp add: has_status_def)
      moreover have "\<not> waits_on ?k q pl" for pl using w [of q pl] kernel_ok_one_place [OF ok wo, of pl] by auto
      ultimately show ?thesis by blast
    qed
    ultimately have "\<exists>k'. wake_list ret (sorted_list_of_set S) ?k = Ok k' \<and> kernel_ok k' \<and>
        ready_queue k' = ready_queue ?k @ sorted_list_of_set S \<and>
        processes k' = (\<lambda>q. if q \<in> set (sorted_list_of_set S) then map_option (woken ret) (processes ?k q) else processes ?k q) \<and>
        k_vm k' = k_vm ?k \<and> k_processor k' = k_processor ?k"
      by (intro wake_list_ok) simp_all
    with cp Some show ?thesis by (simp add: wake_waiting_def waiters_of_def cong: if_cong)
  qed
qed

lemma memory_ok_kill:
  assumes ok: "memory_ok k" and p: "processes k pid = Some p" "proc_vm p = Some v"
    and pt: "vs_tables (k_vm k) (ptc_reg (pv_page_table v)) = Some (c, n)"
    and s: "vs_tables s = (vs_tables (k_vm k))(ptc_reg (pv_page_table v) := if n \<le> 1 then None else Some (c, n - 1))"
      "vs_next s = vs_next (k_vm k)"
      "vs_heap_ends s = vs_heap_ends (k_vm k) \<or> vs_heap_ends s = (vs_heap_ends (k_vm k))(h \<mapsto> HEAP_START)"
    and p': "pr_status p' = Dead" "proc_vm p' = None" "proc_data p' = None"
  shows "memory_ok (put_proc pid p' (k\<lparr>k_vm := s\<rparr>))"
proof -
  let ?k = "put_proc pid p' (k\<lparr>k_vm := s\<rparr>)" and ?r = "ptc_reg (pv_page_table v)"
  have users: "table_users ?k r = (if r = ?r then table_users k r - {pid} else table_users k r)" for r
    using p p'(2) by (auto simp: table_users_def)
  have n: "n = card (table_users k ?r)" using ok pt by (simp add: memory_ok_def)
  have pid: "pid \<in> table_users k ?r" using p by (auto simp: table_users_def)
  show ?thesis
    unfolding memory_ok_def
  proof (intro conjI allI impI)
    fix q pq assume q: "processes ?k q = Some pq"
    show "refs_ok ?k pq"
    proof (cases "q = pid")
      case True
      with q p' show ?thesis by (simp add: refs_ok_def)
    next
      case False
      then have q': "processes k q = Some pq" using q by simp
      then have r: "refs_ok k pq" using ok by (simp add: memory_ok_def)
      have "vm_refs s u" if u: "proc_vm pq = Some u" "vm_refs (k_vm k) u" for u
      proof -
        have "ptc_reg (pv_page_table u) \<in> dom (vs_tables s)"
        proof (cases "ptc_reg (pv_page_table u) = ?r")
          case True
          then have "{pid, q} \<subseteq> table_users k ?r" using pid q' u by (auto simp: table_users_def)
          then have "card {pid, q} \<le> n" unfolding n by (intro card_mono) simp_all
          then have "\<not> n \<le> 1" using False by auto
          with True show ?thesis by (simp add: s)
        next
          case False
          with u(2) show ?thesis by (auto simp: s vm_refs_def)
        qed
        moreover have "\<exists>e. vs_heap_ends s (hp_end (pv_heap u)) = Some e \<and> HEAP_START \<le> e"
          using u(2) s(3) by (auto simp: vm_refs_def)
        ultimately show ?thesis using u(2) by (simp add: vm_refs_def)
      qed
      with r show ?thesis by (auto simp: refs_ok_def data_refs_def)
    qed
  next
    fix r c' n' assume t: "vs_tables (k_vm ?k) r = Some (c', n')"
    show "n' = card (table_users ?k r)"
    proof (cases "r = ?r")
      case True
      then have "n' = n - 1" using t by (simp add: s split: if_splits)
      then show ?thesis using True pid n by (simp add: users)
    next
      case False
      then have "vs_tables (k_vm k) r = Some (c', n')" using t by (simp add: s)
      then show ?thesis using ok False by (simp add: memory_ok_def users)
    qed
  next
    show "dom (vs_tables (k_vm ?k)) \<subseteq> {..<vs_next (k_vm ?k)}"
      using ok pt by (auto simp: memory_ok_def s split: if_splits)
    show "processes ?k (ProcessId 0) = None" using ok p by (auto simp: memory_ok_def)
  qed
qed


text \<open>
  \<open>exit\<close> returns: the waiting processes have the exit code in \<open>rax\<close> and are ready, the process is
  dead, and another one runs.
\<close>

lemma idle_after_kill:
  assumes P: "paging_laws (ke_paging K)" and ok: "kernel_ok k" and cur: "current k = Ok (cur, p)" "cur \<noteq> KERNEL_PID"
  shows "\<exists>p' s. kill_self K ret k = Ok (put_proc cur p' (k\<lparr>k_vm := s\<rparr>)) \<and>
    idle_ok (put_proc cur p' (k\<lparr>k_vm := s\<rparr>)) \<and> pr_status p' = Dead \<and> pr_exit_code p' = Some ret"
proof -
  have c: "cur = ProcessId (k_processor k)" "processes k cur = Some p" "pr_status p = Running"
    using ok cur(1) by (auto elim!: kernel_ok_current)
  note cp = get_pid_processor [OF cur(1)]
  have "refs_ok k p" using ok c by (simp add: kernel_ok_def memory_ok_def)
  then obtain v where v: "proc_vm p = Some v" "vm_refs (k_vm k) v" using c(3) by (auto simp: refs_ok_def)
  then obtain cr n e where pt: "vs_tables (k_vm k) (ptc_reg (pv_page_table v)) = Some (cr, n)"
    and h: "hp_base (pv_heap v) = HEAP_START" "vs_heap_ends (k_vm k) (hp_end (pv_heap v)) = Some e" "HEAP_START \<le> e"
    by (auto simp: vm_refs_def)
  obtain s where s: "vm_drop (ke_paging K) v (k_vm k) = Ok s" "vs_next s = vs_next (k_vm k)"
      "vs_tables s = (vs_tables (k_vm k))(ptc_reg (pv_page_table v) := if n \<le> 1 then None else Some (cr, n - 1))"
      "vs_heap_ends s = vs_heap_ends (k_vm k) \<or> vs_heap_ends s = (vs_heap_ends (k_vm k))(hp_end (pv_heap v) \<mapsto> HEAP_START)"
    using vm_drop_returns [OF P pt h] by blast
  let ?p = "p\<lparr>pr_exit_code := Some ret, pr_status := Dead, proc_data := None, proc_vm := None\<rparr>"
  let ?k = "put_proc cur ?p (k\<lparr>k_vm := s\<rparr>)"
  have run: "kill_self K ret k = Ok ?k"
    using cp c v s(1) by (simp add: kill_self_def kill_def process_kill_def)
  have st: "has_status ?k = has_status (put_proc cur ?p k)" by (rule has_status_cong) simp
  have "memory_ok ?k"
    by (rule memory_ok_kill [OF _ c(2) v(1) pt s(3,2,4)]) (use ok in \<open>simp_all add: kernel_ok_def\<close>)
  moreover have "queues_ok ?k"
    using ok c unfolding queues_ok_def st by (auto simp: kernel_ok_def queues_ok_def has_status_def)
  moreover have "waiters_ok (put_proc cur ?p k)"
    using ok c by (intro waiters_ok_put) (auto simp: kernel_ok_def has_status_def)
  then have "waiters_ok ?k" using waiters_ok_cong [of ?k "put_proc cur ?p k"] by simp
  moreover have "has_status ?k Ready KERNEL_PID \<and> (\<forall>q. \<not> has_status ?k Running q)"
    using ok c(1) cur(2) unfolding st by (auto simp: kernel_ok_def)
  ultimately have "idle_ok ?k" unfolding idle_ok_def by blast
  with run show ?thesis by (intro exI [of _ ?p] exI [of _ s]) simp
qed

lemma exit_ok:
  assumes P: "paging_laws (ke_paging K)" and ok: "kernel_ok k" and cur: "current k = Ok (cur, p)" "cur \<noteq> KERNEL_PID"
  shows "\<exists>c' k'. exit K ret k = Ok (c', k') \<and> kernel_ok k' \<and>
    (\<exists>p'. processes k' cur = Some p' \<and> pr_status p' = Dead \<and> pr_exit_code p' = Some ret) \<and>
    (\<forall>q \<in> waiters_of k cur. \<exists>pq st. processes k q = Some pq \<and> (st = Ready \<or> st = Running) \<and>
       processes k' q = Some (pq\<lparr>pr_context := set_rax ret (pr_context pq), pr_status := st\<rparr>))"
proof -
  obtain k1 where k1: "wake_waiting ret k = Ok k1" "kernel_ok k1"
      "processes k1 = (\<lambda>q. if q \<in> waiters_of k cur then map_option (woken ret) (processes k q) else processes k q)"
      "k_processor k1 = k_processor k"
    using wake_waiting_ok [OF ok cur(1)] by blast
  have c: "cur = ProcessId (k_processor k)" "processes k cur = Some p" "pr_status p = Running"
    using ok cur(1) by (auto elim!: kernel_ok_current)
  obtain p1 where cur1: "current k1 = Ok (cur, p1)" using k1(2,4) c by (auto elim!: kernel_ok_current)
  obtain p' s where ks: "kill_self K ret k1 = Ok (put_proc cur p' (k1\<lparr>k_vm := s\<rparr>))"
      "idle_ok (put_proc cur p' (k1\<lparr>k_vm := s\<rparr>))" "pr_status p' = Dead" "pr_exit_code p' = Some ret"
    using idle_after_kill [OF P k1(2) cur1 cur(2)] by blast
  let ?k2 = "put_proc cur p' (k1\<lparr>k_vm := s\<rparr>)"
  obtain pid q cr k' where sw: "switch_next ?k2 = Ok (pr_context q, pid, k')" "kernel_ok k'"
      "processes ?k2 pid = Some q" "pr_status q = Ready"
      "k' = set_pid pid (put_proc pid (resume q) (?k2\<lparr>ready_queue := ready_queue k', k_vm := (k_vm ?k2)\<lparr>vs_cr3 := cr\<rparr>\<rparr>))"
    using switch_next_ok [OF ks(2)] by blast
  have procs: "processes k' = (processes ?k2)(pid \<mapsto> resume q)" by (subst sw(5)) simp
  have "pid \<noteq> cur" using sw(3,4) ks(3) by auto
  then have "processes k' cur = Some p'" by (simp add: procs)
  moreover have "\<exists>pq st. processes k r = Some pq \<and> (st = Ready \<or> st = Running) \<and>
      processes k' r = Some (pq\<lparr>pr_context := set_rax ret (pr_context pq), pr_status := st\<rparr>)" if r: "r \<in> waiters_of k cur" for r
  proof -
    have "waits_on k r (OnProcess cur)" using r by (auto simp: waiters_of_def split: option.splits)
    then obtain pq where pq: "processes k r = Some pq" "pr_status pq = Blocked" using kernel_ok_waiter [OF ok] by blast
    then have "r \<noteq> cur" using c by auto
    then have "processes ?k2 r = Some (woken ret pq)" using pq r by (simp add: k1(3))
    then have "processes k' r = Some (if r = pid then resume (woken ret pq) else woken ret pq)" using sw(3) by (auto simp: procs)
    then show ?thesis
      using pq(1) by (intro exI [of _ pq] exI [of _ "if r = pid then Running else Ready"]) (simp add: woken_def resume_def)
  qed
  ultimately show ?thesis using sw ks k1(1) by (simp add: exit_def)
qed

section \<open>Fork and spawn\<close>

text \<open>Mapping and copying leave the stores of the memory state alone.\<close>

definition same_stores :: "'w vm_state \<Rightarrow> 'w vm_state \<Rightarrow> bool" where
  "same_stores s' s \<longleftrightarrow> vs_tables s' = vs_tables s \<and> vs_heap_ends s' = vs_heap_ends s \<and>
     vs_next s' = vs_next s \<and> vs_cr3 s' = vs_cr3 s"

lemma same_stores_refl [simp]: "same_stores s s"
  by (simp add: same_stores_def)

lemma same_stores_trans: "same_stores s2 s1 \<Longrightarrow> same_stores s1 s \<Longrightarrow> same_stores s2 s"
  by (simp add: same_stores_def)

lemma same_stores_upd [simp]:
  "same_stores (s\<lparr>vs_paging := w\<rparr>) s'  = same_stores s s'" "same_stores (s\<lparr>vs_alloc := a\<rparr>) s' = same_stores s s'"
  "same_stores (s\<lparr>vs_mem := m\<rparr>) s' = same_stores s s'"
  "same_stores s' (s\<lparr>vs_paging := w\<rparr>) = same_stores s' s" "same_stores s' (s\<lparr>vs_alloc := a\<rparr>) = same_stores s' s"
  "same_stores s' (s\<lparr>vs_mem := m\<rparr>) = same_stores s' s"
  by (simp_all add: same_stores_def)

lemma map_child_stack_stores: "map_child_stack trace M m n s = Ok (m', s') \<Longrightarrow> same_stores s' s"
proof (induction trace M m n s rule: map_child_stack.induct)
  case (1 trace M m n s)
  obtain r w a where mp: "map_pages trace M allocate_frame m n True (vs_paging s) (vs_alloc s) = (r, w, a)"
    by (metis prod_cases3)
  show ?case
  proof (cases r)
    case (Err e)
    then show ?thesis
      using 1 mp by (auto simp: map_child_stack.simps [of trace M m n s] split: if_splits)
  qed (use 1(2) mp in \<open>auto simp: map_child_stack.simps [of trace M m n s]\<close>)
qed

lemma clone_pages_stores: "clone_pages M src dst n s = Ok s' \<Longrightarrow> same_stores s' s"
proof (induction M src dst n s rule: clone_pages.induct)
  case (2 M src dst n s)
  then show ?case by (auto split: option.splits)
qed simp

lemma stack_fork_stores: "stack_fork trace P M off st s = Ok (st', s') \<Longrightarrow> same_stores s' s"
  by (auto simp: stack_fork_def clone_range_def Let_def split: if_splits
      dest!: map_child_stack_stores clone_pages_stores intro: same_stores_trans)

lemma vm_fork_stores:
  assumes "vm_fork trace P off v s = Ok (cv, s')"
  shows "pv_page_table cv = pv_page_table v" "pv_heap cv = pv_heap v" "vs_heap_ends s' = vs_heap_ends s"
    "vs_next s' = vs_next s" "vs_cr3 s' = vs_cr3 s"
    "vs_tables s' = (vs_tables s)(ptc_reg (pv_page_table v) :=
       map_option (\<lambda>(c, n). (c, n + 1)) (vs_tables s (ptc_reg (pv_page_table v))))"
  using assms
  by (auto simp: vm_fork_def ptc_fork_def heap_fork_def same_stores_def Let_def dest!: stack_fork_stores)

text \<open>A new process that uses a table of another, with the count raised, or a table of its own.\<close>

lemma memory_ok_add:
  assumes ok: "memory_ok k" and new: "processes k pid = None" "pid \<noteq> ProcessId 0"
    and p: "pr_status p \<noteq> Dead" "proc_vm p = Some v" "proc_data p = Some d" "data_refs k' d" "vm_refs (k_vm k') v"
    and tables: "\<forall>r. r \<noteq> ptc_reg (pv_page_table v) \<longrightarrow> vs_tables (k_vm k') r = vs_tables (k_vm k) r"
      "\<exists>c. vs_tables (k_vm k') (ptc_reg (pv_page_table v)) = Some (c, card (table_users k (ptc_reg (pv_page_table v))) + 1)"
      "dom (vs_tables (k_vm k')) \<subseteq> {..<vs_next (k_vm k')}"
    and heap: "\<forall>h e. vs_heap_ends (k_vm k) h = Some e \<longrightarrow> HEAP_START \<le> e \<longrightarrow>
      (\<exists>e'. vs_heap_ends (k_vm k') h = Some e' \<and> HEAP_START \<le> e')"
    and stores: "dom (k_envs k) \<subseteq> dom (k_envs k')" "dom (k_resources k) \<subseteq> dom (k_resources k')"
      "dom (k_semaphores k) \<subseteq> dom (k_semaphores k')"
    and procs: "processes k' = (processes k)(pid \<mapsto> p)"
  shows "memory_ok k'"
proof -
  let ?r = "ptc_reg (pv_page_table v)"
  have users: "table_users k' r = (if r = ?r then insert pid (table_users k r) else table_users k r)" for r
    using new p by (auto simp: table_users_def procs)
  have fresh: "pid \<notin> table_users k ?r" using new by (simp add: table_users_def)
  show ?thesis
    unfolding memory_ok_def
  proof (intro conjI allI impI)
    fix q pq assume q: "processes k' q = Some pq"
    show "refs_ok k' pq"
    proof (cases "q = pid")
      case True
      with q p show ?thesis by (simp add: refs_ok_def procs)
    next
      case False
      then have "refs_ok k pq" using q ok by (simp add: memory_ok_def procs)
      moreover have "vm_refs (k_vm k') u" if "vm_refs (k_vm k) u" for u
      proof -
        have "ptc_reg (pv_page_table u) \<in> dom (vs_tables (k_vm k'))"
          using that tables(1,2) by (cases "ptc_reg (pv_page_table u) = ?r") (auto simp: vm_refs_def)
        then show ?thesis using that heap by (auto simp: vm_refs_def)
      qed
      moreover have "data_refs k' d'" if "data_refs k d'" for d'
        using that stores unfolding data_refs_def by blast
      ultimately show ?thesis by (auto simp: refs_ok_def)
    qed
  next
    fix r c n assume t: "vs_tables (k_vm k') r = Some (c, n)"
    show "n = card (table_users k' r)"
    proof (cases "r = ?r")
      case True
      then show ?thesis using t tables(2) fresh by (auto simp: users)
    next
      case False
      then show ?thesis using t tables(1) ok by (simp add: users memory_ok_def)
    qed
  qed (use ok new tables(3) procs in \<open>auto simp: memory_ok_def\<close>)
qed

text \<open>
  The state before the switch: the parent, saved, has the child in its list and its identifier in
  \<open>rax\<close>; the child is ready; both are queued, the child first.
\<close>

definition forked :: "ProcessId \<Rightarrow> Process \<Rightarrow> ProcessId \<Rightarrow> Process \<Rightarrow> 'w vm_state \<Rightarrow> ('t, 'f, 'w) kernel \<Rightarrow> ('t, 'f, 'w) kernel" where
  "forked cur p1 pid child s k =
     push_ready cur (push_ready pid (put_proc pid child (put_proc cur p1 (k\<lparr>k_counter := k_counter k + 1, k_vm := s\<rparr>))))"

lemma forked_sel [simp]:
  "processes (forked cur p1 pid child s k) = (processes k)(cur \<mapsto> p1, pid \<mapsto> child)"
  "ready_queue (forked cur p1 pid child s k) = ready_queue k @ [pid, cur]"
  "waiting_processes (forked cur p1 pid child s k) = waiting_processes k" "k_vm (forked cur p1 pid child s k) = s"
  "k_semaphores (forked cur p1 pid child s k) = k_semaphores k" "k_envs (forked cur p1 pid child s k) = k_envs k"
  "k_resources (forked cur p1 pid child s k) = k_resources k"
  by (simp_all add: forked_def)

lemma idle_after_fork:
  assumes ok: "kernel_ok k" and pid: "pid \<noteq> ProcessId 0" "processes k pid = None"
    and cur: "current k = Ok (cur, p)"
    and p1: "pr_status p1 = Ready" "proc_vm p1 = proc_vm p" "proc_data p1 = proc_data p"
    and v: "proc_vm p = Some v" "vm_fork trace P off v (k_vm k) = Ok (cv, s)"
    and child: "pr_status child = Ready" "proc_vm child = Some cv" "proc_data child = proc_data p"
  shows "idle_ok (forked cur p1 pid child s k)"
proof -
  let ?kA = "forked cur p1 pid child s k" and ?kp = "put_proc cur p1 k"
  have cp: "cur = ProcessId (k_processor k)" "processes k cur = Some p" "pr_status p = Running"
    using ok cur by (auto elim!: kernel_ok_current)
  have "refs_ok k p" using ok cp by (simp add: kernel_ok_def memory_ok_def)
  then obtain d where refs: "vm_refs (k_vm k) v" "proc_data p = Some d" "data_refs k d"
    using cp(3) v(1) by (auto simp: refs_ok_def)
  have ne: "cur \<noteq> pid" using cp(2) pid(2) by auto
  have st: "has_status ?kA st q \<longleftrightarrow> (if q = cur \<or> q = pid then st = Ready else has_status k st q)" for st q
    using child(1) p1(1) by (auto simp: has_status_def)
  note vf = vm_fork_stores [OF v(2)]
  show ?thesis
    unfolding idle_ok_def
  proof (intro conjI allI)
    show "queues_ok ?kA"
      using ok cp pid(2) ne child(1) p1(1) by (auto simp: queues_ok_def kernel_ok_def st has_status_def)
    have w: "waits_on ?kA q pl = waits_on k q pl" for q pl by (rule waits_on_cong) simp_all
    have "waits_on k q pl \<Longrightarrow> q \<noteq> cur \<and> q \<noteq> pid" for q pl
      using kernel_ok_waiter [OF ok, of q pl] cp pid(2) by auto
    then show "waiters_ok ?kA" using ok by (auto simp: waiters_ok_def w st kernel_ok_def)
    have mp: "memory_ok ?kp" using ok cp p1 by (intro memory_ok_put [where p = p]) (auto simp: kernel_ok_def)
    obtain cr n where t: "vs_tables (k_vm k) (ptc_reg (pv_page_table v)) = Some (cr, n)"
      using refs(1) by (auto simp: vm_refs_def)
    show "memory_ok ?kA"
    proof (rule memory_ok_add [OF mp, where pid = pid and p = child and v = cv and d = d])
      show "\<exists>c. vs_tables (k_vm ?kA) (ptc_reg (pv_page_table cv)) = Some (c, card (table_users ?kp (ptc_reg (pv_page_table cv))) + 1)"
        using mp t by (simp add: vf memory_ok_def)
      show "vm_refs (k_vm ?kA) cv" using refs(1) t by (simp add: vm_refs_def vf)
      show "dom (vs_tables (k_vm ?kA)) \<subseteq> {..<vs_next (k_vm ?kA)}"
        using ok t by (auto simp: vf kernel_ok_def memory_ok_def)
      show "processes ?kp pid = None" using pid(2) ne by simp
    qed (use child pid(1) refs ne vf in \<open>simp_all add: data_refs_def\<close>)
    show "has_status ?kA Ready KERNEL_PID" using ok cp(1) unfolding st kernel_ok_def by auto
    show "\<not> has_status ?kA Running q" for q using ok cp(1) unfolding st kernel_ok_def by auto
  qed
qed

text \<open>A fork whose address space can be forked makes the state \<open>forked\<close> and switches.\<close>

definition fork_parent :: "u16 \<Rightarrow> ProcessContext \<Rightarrow> Process \<Rightarrow> Process" where
  "fork_parent pid c p = tick p\<lparr>pr_status := Ready, pr_children := pr_children p @ [ProcessId pid], pr_context := set_rax (ucast pid) c\<rparr>"

definition fork_child :: "ProcessId \<Rightarrow> ProcessContext \<Rightarrow> Process \<Rightarrow> ProcessVm \<Rightarrow> Process" where
  "fork_child parent c p cv = \<lparr>pr_name = pr_name p, pr_parent = Some parent, pr_children = [], ticks_passed = 0,
     pr_status = Ready, pr_exit_code = None, pr_context = set_rax 0 (update_stack_frame (child_stack_top c cv) c),
     proc_data = proc_data p, proc_vm = Some cv\<rparr>"

abbreviation fork_space :: "('t, 'f, 'w) kenv \<Rightarrow> Process \<Rightarrow> ProcessVm \<Rightarrow> 'w vm_state \<Rightarrow> (ProcessVm \<times> 'w vm_state) exec" where
  "fork_space K p v s \<equiv> vm_fork (ke_trace K) (ke_paging K) ((length (pr_children p) + 1) * STACK_MAX_PAGES) v s"

abbreviation fork_state :: "ProcessId \<Rightarrow> ProcessContext \<Rightarrow> Process \<Rightarrow> ProcessVm \<Rightarrow> 'w vm_state \<Rightarrow> ('t, 'f, 'w) kernel \<Rightarrow> ('t, 'f, 'w) kernel" where
  "fork_state cur c p cv s k \<equiv>
     forked cur (fork_parent (k_counter k + 1) c p) (ProcessId (k_counter k + 1)) (fork_child cur c p cv) s k"

lemma current_saved:
  assumes ok: "kernel_ok k" and cur: "current k = Ok (cur, p)"
  shows "current (put_proc cur q k) = Ok (cur, q)"
  using ok kernel_ok_current [OF ok cur]
  by (auto simp: current_def get_pid_def processor_get_pid_def get_proc_def unwrap_option_def kernel_ok_def)

lemma fork_eq:
  assumes ok: "kernel_ok k" and cur: "current k = Ok (cur, p)"
    and v: "proc_vm p = Some v" "fork_space K p v (k_vm k) = Ok (cv, s)"
  shows "fork K c k = and_then (switch_next (fork_state cur c p cv s k)) (\<lambda>(c', _, k3). Ok (c', k3))"
proof -
  obtain d where d: "proc_data p = Some d" using ok cur by (auto elim: kernel_ok_data)
  let ?p0 = "tick p\<lparr>pr_context := c, pr_status := Ready\<rparr>"
  have fk: "inner_fork (ke_trace K) (ke_paging K) cur ?p0 (k_vm k) = Ok (fork_child cur c p cv, s)"
    using v d by (simp add: inner_fork_def fork_child_def unwrap_option_def tick_def)
  have pc: "put_proc cur p1 ((put_proc cur q k)\<lparr>k_counter := n, k_vm := s\<rparr>) = put_proc cur p1 (k\<lparr>k_counter := n, k_vm := s\<rparr>)" for p1 q n
    by (simp add: put_proc_def)
  have "pause (fork_child cur c p cv) = fork_child cur c p cv" by (simp add: fork_child_def pause_def)
  then show ?thesis
    using save_current_ok [OF ok cur, of c] current_saved [OF ok cur] fk
    by (simp add: fork_def manager_fork_def process_fork_def process_id_new_def Let_def forked_def pc fork_parent_def tick_def)
qed

lemma fork_Ok_space:
  assumes ok: "kernel_ok k" and cur: "current k = Ok (cur, p)" and run: "fork K c k = Ok (c', k')"
  shows "\<exists>v cv s. proc_vm p = Some v \<and> fork_space K p v (k_vm k) = Ok (cv, s)"
proof -
  obtain child s where fk: "inner_fork (ke_trace K) (ke_paging K) cur (tick p\<lparr>pr_context := c, pr_status := Ready\<rparr>) (k_vm k) = Ok (child, s)"
    using run save_current_ok [OF ok cur, of c] current_saved [OF ok cur]
    by (auto simp: fork_def manager_fork_def process_fork_def process_id_new_def)
  then show ?thesis
    by (auto simp: inner_fork_def unwrap_option_def tick_def split: option.splits)
qed

lemma fork_idle:
  assumes ok: "kernel_ok k" and fresh: "k_counter k + 1 \<noteq> 0" "processes k (ProcessId (k_counter k + 1)) = None"
    and cur: "current k = Ok (cur, p)" and v: "proc_vm p = Some v" "fork_space K p v (k_vm k) = Ok (cv, s)"
  shows "idle_ok (fork_state cur c p cv s k)"
  by (rule idle_after_fork [OF ok _ fresh(2) cur _ _ _ v])
    (use fresh(1) in \<open>simp_all add: fork_parent_def fork_child_def tick_def\<close>)

lemma fork_ok:
  assumes ok: "kernel_ok k" and fresh: "k_counter k + 1 \<noteq> 0" "processes k (ProcessId (k_counter k + 1)) = None"
    and cur: "current k = Ok (cur, p)" and run: "fork K c k = Ok (c', k')"
  shows "kernel_ok k'"
proof -
  obtain v cv s where v: "proc_vm p = Some v" "fork_space K p v (k_vm k) = Ok (cv, s)"
    using fork_Ok_space [OF ok cur run] by blast
  have "idle_ok (fork_state cur c p cv s k)" by (rule fork_idle [OF ok fresh cur v])
  from switch_next_ok [OF this] run fork_eq [OF ok cur v, of c] show ?thesis by auto
qed

end
