(* ===== verification/Sys_Call.thy ===== *)
theory Sys_Call
  imports Proc_Ops
begin

text \<open>
  \<open>pkg/syscall/src/lib.rs\<close> and \<open>pkg/kernel/src/interrupt/syscall/{mod,service}.rs\<close>: the numbers of the
  system calls, the services behind them and the dispatcher. A service reads and writes the memory
  of the calling process through the page table in \<open>Cr3\<close>. A page that is not mapped faults while the
  service holds the lock of the process, and the fault handler waits for that lock.
\<close>

section \<open>Numbers (pkg/syscall)\<close>

datatype Syscall =
  SysRead | SysWrite | SysOpen | SysClose | SysBrk | SysGetPid | SysFork | SysSpawn | SysExit | SysWaitPid
  | SysSem | SysListDir | SysTime | SysPrintInfo | SysListApp | SysStat | SysAllocate | SysDeallocate
  | SysUnknown

definition syscall_table :: "(u64 \<times> Syscall) list" where
  "syscall_table =
     [(0, SysRead), (1, SysWrite), (2, SysOpen), (3, SysClose), (12, SysBrk), (39, SysGetPid),
      (58, SysFork), (59, SysSpawn), (60, SysExit), (61, SysWaitPid), (64, SysSem), (65521, SysListDir),
      (65529, SysTime), (65530, SysPrintInfo), (65531, SysListApp), (65532, SysStat),
      (65533, SysAllocate), (65534, SysDeallocate), (65535, SysUnknown)]"

definition syscall_from :: "u64 \<Rightarrow> Syscall" where
  "syscall_from n = (case map_of syscall_table n of Some s \<Rightarrow> s | None \<Rightarrow> SysUnknown)"

record SyscallArgs =
  sa_syscall :: Syscall
  arg0 :: u64
  arg1 :: u64
  arg2 :: u64

section \<open>What the services use besides the kernel\<close>

text \<open>
  The reports that only print, the user allocator of the crate \<open>linked_list_allocator\<close> on its state
  \<open>'h\<close>, the layout of \<open>core::alloc::Layout\<close> in memory as size and alignment, and the clock of the
  firmware are parameters.
\<close>

datatype report = ListApps | ProcessList | DirectoryList str | ProcessInfo ProcessId

record ('t, 'f, 'w, 'h) senv = "('t, 'f, 'w) kenv" +
  se_report :: "report \<Rightarrow> ('t, 'f, 'w) kernel \<Rightarrow> str exec"
  se_layout :: "u8 list \<Rightarrow> nat \<times> nat"
  se_allocate :: "nat \<times> nat \<Rightarrow> 'h \<Rightarrow> u64 option \<times> 'h"
  se_deallocate :: "u64 \<Rightarrow> nat \<times> nat \<Rightarrow> 'h \<Rightarrow> 'h"
  se_time :: "u8 \<times> u8 \<times> u8"

definition kenv_of :: "('t, 'f, 'w, 'h) senv \<Rightarrow> ('t, 'f, 'w) kenv" where
  "kenv_of E = kenv.truncate E"

section \<open>Memory of the caller\<close>

definition user_frame :: "'w paging \<Rightarrow> 'w vm_state \<Rightarrow> u64 \<Rightarrow> frame exec" where
  "user_frame P s addr =
     (case translate_page (pg_mapper P (cr3_addr (vs_cr3 s))) (containing_address addr) (vs_paging s) of
        Some f \<Rightarrow> Ok f
      | None \<Rightarrow> Hang)"

fun read_user :: "'w paging \<Rightarrow> 'w vm_state \<Rightarrow> u64 \<Rightarrow> nat \<Rightarrow> u8 list exec" where
  "read_user P s addr 0 = Ok []"
| "read_user P s addr (Suc n) =
     and_then (user_frame P s addr) (\<lambda>f.
     and_then (read_user P s (addr + 1) n) (\<lambda>bs. Ok (vs_mem s f (unat addr mod 4096) # bs)))"

fun write_user :: "'w paging \<Rightarrow> u64 \<Rightarrow> u8 list \<Rightarrow> 'w vm_state \<Rightarrow> 'w vm_state exec" where
  "write_user P addr [] s = Ok s"
| "write_user P addr (b # bs) s =
     and_then (user_frame P s addr) (\<lambda>f.
       write_user P (addr + 1) bs
         (s\<lparr>vs_mem := (vs_mem s)(f := (vs_mem s f)(unat addr mod 4096 := b))\<rparr>))"

section \<open>Services (service.rs)\<close>

definition sys_spawn_process ::
  "('t, 'f, 'w) kenv \<Rightarrow> SyscallArgs \<Rightarrow> ('t, 'f, 'w) kernel \<Rightarrow> (u64 \<times> ('t, 'f, 'w) kernel) exec" where
  "sys_spawn_process K args k =
     and_then (read_user (ke_paging K) (k_vm k) (arg0 args) (unat (arg1 args))) (\<lambda>path.
     and_then (spawn K path k) (\<lambda>(r, k1).
       Ok (case r of None \<Rightarrow> 0 | Some pid \<Rightarrow> ucast (pid_u16 pid), k1)))"

definition sys_write ::
  "('t, 'f, 'w) kenv \<Rightarrow> SyscallArgs \<Rightarrow> ('t, 'f, 'w) kernel \<Rightarrow> (u64 \<times> ('t, 'f, 'w) kernel) exec" where
  "sys_write K args k =
     and_then (read_user (ke_paging K) (k_vm k) (arg1 args) (unat (arg2 args))) (\<lambda>buf.
       manager_write (ucast (arg0 args)) buf k)"

definition sys_read ::
  "('t, 'f, 'w) kenv \<Rightarrow> SyscallArgs \<Rightarrow> ('t, 'f, 'w) kernel \<Rightarrow> (u64 \<times> ('t, 'f, 'w) kernel) exec" where
  "sys_read K args k =
     and_then (read_user (ke_paging K) (k_vm k) (arg1 args) (unat (arg2 args))) (\<lambda>buf.
     and_then (manager_read K (ucast (arg0 args)) buf k) (\<lambda>(r, buf', k1).
     and_then (write_user (ke_paging K) (arg1 args) buf' (k_vm k1)) (\<lambda>s.
       Ok (r, k1\<lparr>k_vm := s\<rparr>))))"

definition sys_exit_process ::
  "('t, 'f, 'w) kenv \<Rightarrow> SyscallArgs \<Rightarrow> ('t, 'f, 'w) kernel \<Rightarrow> (ProcessContext \<times> ('t, 'f, 'w) kernel) exec" where
  "sys_exit_process K args k = exit K (arg0 args) k"

definition print_report :: "str exec \<Rightarrow> ('t, 'f, 'w) kernel \<Rightarrow> ('t, 'f, 'w) kernel exec" where
  "print_report r k = and_then r (\<lambda>text. Ok (k\<lparr>k_output := k_output k @ text\<rparr>))"

definition sys_list_dir ::
  "('t, 'f, 'w, 'h) senv \<Rightarrow> SyscallArgs \<Rightarrow> ('t, 'f, 'w) kernel \<Rightarrow> ('t, 'f, 'w) kernel exec" where
  "sys_list_dir E args k =
     and_then (read_user (ke_paging E) (k_vm k) (arg0 args) (unat (arg1 args))) (\<lambda>path.
       print_report (se_report E (DirectoryList path) k) k)"

definition sys_wait_pid ::
  "SyscallArgs \<Rightarrow> ProcessContext \<Rightarrow> ('t, 'f, 'w) kernel \<Rightarrow> (ProcessContext \<times> ('t, 'f, 'w) kernel) exec" where
  "sys_wait_pid args c k = wait_pid (ProcessId (ucast (arg0 args))) c k"

text \<open>\<open>as_ref().unwrap()\<close> panics on a null pointer; a \<open>Layout\<close> is two words.\<close>

definition read_layout :: "('t, 'f, 'w, 'h) senv \<Rightarrow> u64 \<Rightarrow> ('t, 'f, 'w) kernel \<Rightarrow> (nat \<times> nat) exec" where
  "read_layout E ptr k =
     (if ptr = 0 then Panic
      else and_then (read_user (ke_paging E) (k_vm k) ptr 16) (\<lambda>bs. Ok (se_layout E bs)))"

definition sys_allocate ::
  "('t, 'f, 'w, 'h) senv \<Rightarrow> SyscallArgs \<Rightarrow> ('t, 'f, 'w) kernel \<Rightarrow> 'h \<Rightarrow> (u64 \<times> 'h) exec" where
  "sys_allocate E args k h =
     and_then (read_layout E (arg0 args) k) (\<lambda>layout.
       if fst layout = 0 then Ok (0, h)
       else case se_allocate E layout h of
         (Some ptr, h1) \<Rightarrow> Ok (ptr, h1)
       | (None, h1) \<Rightarrow> Ok (0, h1))"

definition sys_deallocate ::
  "('t, 'f, 'w, 'h) senv \<Rightarrow> SyscallArgs \<Rightarrow> ('t, 'f, 'w) kernel \<Rightarrow> 'h \<Rightarrow> 'h exec" where
  "sys_deallocate E args k h =
     and_then (read_layout E (arg1 args) k) (\<lambda>layout.
       if arg0 args = 0 \<or> fst layout = 0 then Ok h
       else Ok (se_deallocate E (arg0 args) layout h))"

definition sys_print_info ::
  "('t, 'f, 'w, 'h) senv \<Rightarrow> SyscallArgs \<Rightarrow> ('t, 'f, 'w) kernel \<Rightarrow> (u64 \<times> ('t, 'f, 'w) kernel) exec" where
  "sys_print_info E args k =
     (let pid = ProcessId (ucast (arg0 args)) in
      if is_proc_alive k pid then
        and_then (print_report (se_report E (ProcessInfo pid) k) k) (\<lambda>k1. Ok (0, k1))
      else Ok (-1, k))"

definition sys_time :: "('t, 'f, 'w, 'h) senv \<Rightarrow> u64" where
  "sys_time E =
     (let (hour, minute, second) = se_time E in ucast hour * 3600 + ucast minute * 60 + ucast second)"

definition sys_fork ::
  "('t, 'f, 'w) kenv \<Rightarrow> ProcessContext \<Rightarrow> ('t, 'f, 'w) kernel \<Rightarrow> (ProcessContext \<times> ('t, 'f, 'w) kernel) exec" where
  "sys_fork K c k = fork K c k"

definition sys_sem ::
  "SyscallArgs \<Rightarrow> ProcessContext \<Rightarrow> ('t, 'f, 'w) kernel \<Rightarrow> (ProcessContext \<times> ('t, 'f, 'w) kernel) exec" where
  "sys_sem args c k =
     (let key = ucast (arg1 args) in
      if arg0 args = 0 then and_then (new_sem key (unat (arg2 args)) k) (\<lambda>(r, k1). Ok (set_rax r c, k1))
      else if arg0 args = 1 then and_then (remove_sem key k) (\<lambda>(r, k1). Ok (set_rax r c, k1))
      else if arg0 args = 2 then sem_signal key c k
      else if arg0 args = 3 then sem_wait key c k
      else Ok (set_rax (-1) c, k))"

definition sys_brk ::
  "('t, 'f, 'w) kenv \<Rightarrow> SyscallArgs \<Rightarrow> ('t, 'f, 'w) kernel \<Rightarrow> (u64 \<times> ('t, 'f, 'w) kernel) exec" where
  "sys_brk K args k =
     (if arg0 args = 0 then brk K None k
      else if canonical (arg0 args) then brk K (Some (arg0 args)) k
      else Panic)"

definition sys_get_pid :: "('t, 'f, 'w) kernel \<Rightarrow> u16 exec" where
  "sys_get_pid k = and_then (get_pid k) (\<lambda>pid. Ok (pid_u16 pid))"

definition sys_open_file ::
  "('t, 'f, 'w) kenv \<Rightarrow> SyscallArgs \<Rightarrow> ('t, 'f, 'w) kernel \<Rightarrow> (u64 \<times> ('t, 'f, 'w) kernel) exec" where
  "sys_open_file K args k =
     and_then (read_user (ke_paging K) (k_vm k) (arg0 args) (unat (arg1 args))) (\<lambda>path.
     and_then (manager_open_file K path k) (\<lambda>(fd, k1). Ok (ucast fd, k1)))"

definition sys_close_file ::
  "SyscallArgs \<Rightarrow> ('t, 'f, 'w) kernel \<Rightarrow> (bool \<times> ('t, 'f, 'w) kernel) exec" where
  "sys_close_file args k = manager_close_file (ucast (arg0 args)) k"

section \<open>Dispatcher (mod.rs)\<close>

text \<open>A service whose value goes to \<open>rax\<close>, and one that only prints.\<close>

definition returning ::
  "ProcessContext \<Rightarrow> 'h \<Rightarrow> (u64 \<times> ('t, 'f, 'w) kernel) exec \<Rightarrow>
   (ProcessContext \<times> ('t, 'f, 'w) kernel \<times> 'h) exec" where
  "returning c h r = and_then r (\<lambda>(v, k). Ok (set_rax v c, k, h))"

definition switching ::
  "'h \<Rightarrow> (ProcessContext \<times> ('t, 'f, 'w) kernel) exec \<Rightarrow> (ProcessContext \<times> ('t, 'f, 'w) kernel \<times> 'h) exec" where
  "switching h r = and_then r (\<lambda>(c, k). Ok (c, k, h))"

definition dispatcher ::
  "('t, 'f, 'w, 'h) senv \<Rightarrow> ProcessContext \<Rightarrow> ('t, 'f, 'w) kernel \<Rightarrow> 'h \<Rightarrow>
   (ProcessContext \<times> ('t, 'f, 'w) kernel \<times> 'h) exec" where
  "dispatcher E c k h =
     (let K = kenv_of E;
          args = \<lparr>sa_syscall = syscall_from (rax (regs c)), arg0 = rdi (regs c), arg1 = rsi (regs c),
                  arg2 = rdx (regs c)\<rparr> in
      case sa_syscall args of
        SysRead \<Rightarrow> returning c h (sys_read K args k)
      | SysWrite \<Rightarrow> returning c h (sys_write K args k)
      | SysGetPid \<Rightarrow> and_then (sys_get_pid k) (\<lambda>pid. Ok (set_rax (ucast pid) c, k, h))
      | SysBrk \<Rightarrow> returning c h (sys_brk K args k)
      | SysSpawn \<Rightarrow> returning c h (sys_spawn_process K args k)
      | SysExit \<Rightarrow> switching h (sys_exit_process K args k)
      | SysWaitPid \<Rightarrow> switching h (sys_wait_pid args c k)
      | SysOpen \<Rightarrow> returning c h (sys_open_file K args k)
      | SysClose \<Rightarrow> and_then (sys_close_file args k) (\<lambda>(r, k1). Ok (set_rax (if r then 1 else 0) c, k1, h))
      | SysStat \<Rightarrow> and_then (print_report (se_report E ProcessList k) k) (\<lambda>k1. Ok (c, k1, h))
      | SysListApp \<Rightarrow> and_then (print_report (se_report E ListApps k) k) (\<lambda>k1. Ok (c, k1, h))
      | SysListDir \<Rightarrow> and_then (sys_list_dir E args k) (\<lambda>k1. Ok (c, k1, h))
      | SysAllocate \<Rightarrow> and_then (sys_allocate E args k h) (\<lambda>(r, h1). Ok (set_rax r c, k, h1))
      | SysDeallocate \<Rightarrow> and_then (sys_deallocate E args k h) (\<lambda>h1. Ok (c, k, h1))
      | SysPrintInfo \<Rightarrow> returning c h (sys_print_info E args k)
      | SysTime \<Rightarrow> Ok (set_rax (sys_time E) c, k, h)
      | SysFork \<Rightarrow> switching h (sys_fork K c k)
      | SysSem \<Rightarrow> switching h (sys_sem args c k)
      | SysUnknown \<Rightarrow> Ok (c, k, h))"

end
