(* ===== verification/Sys_Invariant.thy ===== *)
theory Sys_Invariant
  imports Proc_Handlers Sys_Call
begin

text \<open>
  Every service of the dispatcher keeps the invariant of the kernel, and so every state reached from
  \<open>proc::init\<close> by interrupts has it.
\<close>

section \<open>Memory of the current process\<close>

text \<open>A change of the memory state that keeps the tables, and moves heap ends inside the region.\<close>

definition vm_step :: "'w vm_state \<Rightarrow> 'w vm_state \<Rightarrow> bool" where
  "vm_step s s' \<longleftrightarrow> vs_tables s' = vs_tables s \<and> vs_next s' = vs_next s \<and>
     (\<forall>h e. vs_heap_ends s h = Some e \<longrightarrow> HEAP_START \<le> e \<longrightarrow>
        (\<exists>e'. vs_heap_ends s' h = Some e' \<and> HEAP_START \<le> e'))"

lemma same_stores_step: "same_stores s' s \<Longrightarrow> vm_step s s'"
  by (auto simp: same_stores_def vm_step_def)

lemma memory_ok_vm:
  assumes "memory_ok k" "vm_step (k_vm k) s"
  shows "memory_ok (k\<lparr>k_vm := s\<rparr>)"
proof -
  have "refs_ok (k\<lparr>k_vm := s\<rparr>) p" if "refs_ok k p" for p
    using that assms(2) unfolding refs_ok_def data_refs_def vm_refs_def vm_step_def by auto
  moreover have "table_users (k\<lparr>k_vm := s\<rparr>) = table_users k" by (simp add: table_users_def fun_eq_iff)
  ultimately show ?thesis using assms by (simp add: memory_ok_def vm_step_def)
qed

lemma kernel_ok_vm:
  assumes "kernel_ok k" "vm_step (k_vm k) s"
  shows "kernel_ok (k\<lparr>k_vm := s\<rparr>)"
proof -
  have "has_status (k\<lparr>k_vm := s\<rparr>) = has_status k" by (rule has_status_cong) simp
  moreover have "waiters_ok (k\<lparr>k_vm := s\<rparr>) = waiters_ok k" by (rule waiters_ok_cong) simp_all
  ultimately show ?thesis using assms memory_ok_vm [of k s] by (auto simp: kernel_ok_def queues_ok_def)
qed

text \<open>A change of the control block that keeps its status and its space.\<close>

lemma kernel_ok_put:
  assumes ok: "kernel_ok k" and p: "processes k pid = Some p" "same_space (proc_vm p') (proc_vm p)"
    "proc_data p' = proc_data p" "pr_status p' = pr_status p"
  shows "kernel_ok (put_proc pid p' k)"
proof -
  have st: "has_status (put_proc pid p' k) = has_status k" using p by (auto simp: has_status_def fun_eq_iff)
  have "memory_ok (put_proc pid p' k)" using ok p by (intro memory_ok_put [where p = p]) (auto simp: kernel_ok_def)
  moreover have "waits_on (put_proc pid p' k) q pl = waits_on k q pl" for q pl by (rule waits_on_cong) simp_all
  then have "waiters_ok (put_proc pid p' k)" using ok by (simp add: waiters_ok_def st kernel_ok_def)
  ultimately show ?thesis using ok by (auto simp: kernel_ok_def queues_ok_def st)
qed

lemma vm_step_swap: "HEAP_START \<le> v \<Longrightarrow> vm_step s (heap_swap h v (s\<lparr>vs_paging := w, vs_alloc := a\<rparr>))"
  "HEAP_START \<le> v \<Longrightarrow> vm_step s (heap_swap h v s)" "vm_step s (s\<lparr>vs_paging := w, vs_alloc := a\<rparr>)" "vm_step s s"
  by (simp_all add: vm_step_def heap_swap_def)

lemma heap_move_step:
  assumes "heap_move trace cur M u e h s = Ok (r, s')" "HEAP_START \<le> e"
  shows "vm_step s s'"
  using assms unfolding heap_move_def Let_def
  by (auto split: if_split_asm outcome.split_asm prod.split_asm intro: vm_step_swap)

lemma heap_brk_step:
  assumes "heap_brk trace cur M addr h s = Ok (r, s')"
  shows "vm_step s s'"
  using assms unfolding heap_brk_def Let_def
  by (auto split: if_split_asm option.split_asm intro: vm_step_swap heap_move_step)

lemma grow_stack_stores: "grow_stack trace cur M addr st s = (r, st', s') \<Longrightarrow> same_stores s' s"
  by (auto simp: grow_stack_def Let_def split: if_splits outcome.splits prod.splits)

lemma manager_brk_ok: "kernel_ok k \<Longrightarrow> manager_brk K addr k = Ok (r, k') \<Longrightarrow> kernel_ok k'"
  by (auto simp: manager_brk_def process_brk_def vm_brk_def split: option.splits
      dest!: heap_brk_step intro: kernel_ok_vm)

lemma page_fault_ok:
  assumes ok: "kernel_ok k" and run: "manager_handle_page_fault K addr err k = Ok (b, k')"
  shows "kernel_ok k'"
proof -
  obtain p where cur: "current k = Ok (ProcessId (k_processor k), p)" "processes k (ProcessId (k_processor k)) = Some p"
    using ok by (rule kernel_ok_current)
  show ?thesis
  proof (cases "err AND PROTECTION_VIOLATION = 0")
    case False
    then show ?thesis using run cur ok by (simp add: manager_handle_page_fault_def)
  next
    case True
    then obtain h p1 s where pf: "process_handle_page_fault (ke_trace K) (ProcessId (k_processor k)) (ke_paging K) addr p (k_vm k) = Ok (h, p1, s)"
      and k': "k' = put_proc (ProcessId (k_processor k)) p1 (k\<lparr>k_vm := s\<rparr>)"
      using run cur by (auto simp: manager_handle_page_fault_def)
    then have p1: "same_stores s (k_vm k)" "same_space (proc_vm p1) (proc_vm p)" "proc_data p1 = proc_data p" "pr_status p1 = pr_status p"
      by (auto simp: process_handle_page_fault_def vm_handle_page_fault_def stack_handle_page_fault_def
          unwrap_option_def same_space_def split: option.splits if_splits outcome.splits prod.splits
          dest: grow_stack_stores)
    have "kernel_ok (k\<lparr>k_vm := s\<rparr>)" by (intro kernel_ok_vm ok same_stores_step p1)
    then show ?thesis unfolding k' using cur(2) p1 by (intro kernel_ok_put [where p = p]) simp_all
  qed
qed

section \<open>Files and semaphores\<close>

lemma kernel_ok_distinct:
  "kernel_ok k \<Longrightarrow> k_semaphores k r = Some ss \<Longrightarrow> sems ss sid = Some sem \<Longrightarrow> distinct (wait_queue sem)"
  by (metis kernel_ok_def waiters_ok_def)

lemma kernel_ok_io:
  assumes ok: "kernel_ok k"
    and "processes k' = processes k" "ready_queue k' = ready_queue k" "k_processor k' = k_processor k"
      "waiting_processes k' = waiting_processes k" "k_semaphores k' = k_semaphores k" "k_vm k' = k_vm k"
      "k_envs k' = k_envs k" "dom (k_resources k') = dom (k_resources k)"
  shows "kernel_ok k'"
proof (rule kernel_ok_cong [OF ok])
  show "waits_on k q pl" if "waits_on k' q pl" for q pl using that waits_on_cong [of k' k q pl] assms(5,6) by simp
  show "\<forall>r ss sid sem. k_semaphores k' r = Some ss \<longrightarrow> sems ss sid = Some sem \<longrightarrow> distinct (wait_queue sem)"
    unfolding assms(6) using kernel_ok_distinct [OF ok] by blast
qed (simp_all add: assms(2-))

lemma kernel_ok_console: "kernel_ok k \<Longrightarrow> kernel_ok (k\<lparr>k_input := i\<rparr>)" "kernel_ok k \<Longrightarrow> kernel_ok (k\<lparr>k_output := out\<rparr>)"
  by (rule kernel_ok_io; simp)+

lemma kernel_ok_res:
  assumes "kernel_ok k" "k_resources k r = Some rs"
  shows "kernel_ok (k\<lparr>k_resources := (k_resources k)(r \<mapsto> rs')\<rparr>)"
  by (rule kernel_ok_io [OF assms(1)]) (use assms(2) in \<open>auto simp: dom_def\<close>)

lemma data_read_ok: "kernel_ok k \<Longrightarrow> data_read rd fd buf d k = Ok (n, buf', k') \<Longrightarrow> kernel_ok k'"
  by (auto simp: data_read_def unwrap_option_def split: option.splits intro!: kernel_ok_console kernel_ok_res)

lemma data_write_ok: "kernel_ok k \<Longrightarrow> data_write fd buf d k = Ok (n, k') \<Longrightarrow> kernel_ok k'"
  by (auto simp: data_write_def unwrap_option_def Let_def case_prod_beta split: option.splits intro!: kernel_ok_console)

lemma data_open_ok: "kernel_ok k \<Longrightarrow> data_open_file fs path d k = Ok (fd, k') \<Longrightarrow> kernel_ok k'"
  by (auto simp: data_open_file_def unwrap_option_def Let_def case_prod_beta split: option.splits intro!: kernel_ok_res)

lemma data_close_ok: "kernel_ok k \<Longrightarrow> data_close_file fd d k = Ok (b, k') \<Longrightarrow> kernel_ok k'"
  by (auto simp: data_close_file_def unwrap_option_def Let_def case_prod_beta split: option.splits intro!: kernel_ok_res)

text \<open>Making or removing a semaphore makes no new waiter.\<close>

lemma with_semaphores_ok:
  assumes ok: "kernel_ok k" and run: "with_semaphores f d k = Ok (r, k')"
    and f: "\<And>ss r ss' sid sem'. f ss = (r, ss') \<Longrightarrow> sems ss' sid = Some sem' \<Longrightarrow>
      wait_queue sem' = [] \<or> sems ss sid = Some sem'"
  shows "kernel_ok k'"
proof -
  obtain ss ss' where ss: "k_semaphores k (pd_semaphores d) = Some ss" "f ss = (r, ss')"
      "k' = put_sems (pd_semaphores d) ss' k"
    using run by (auto simp: with_semaphores_def unwrap_option_def split: option.splits prod.splits)
  have f': "wait_queue sem' = [] \<or> sems ss sid = Some sem'" if "sems ss' sid = Some sem'" for sid sem'
    using f [OF ss(2) that] .
  show ?thesis
  proof (rule kernel_ok_cong [OF ok])
    show "waits_on k q pl" if "waits_on k' q pl" for q pl
    proof (cases pl)
      case (OnSemaphore r sid)
      with that obtain t sem where "k_semaphores k' r = Some t" "sems t sid = Some sem" "q \<in> set (wait_queue sem)" by auto
      then show ?thesis using f' [of sid sem] ss(1) OnSemaphore by (cases "r = pd_semaphores d") (auto simp: ss(3))
    next
      case (OnProcess x)
      with that show ?thesis by (simp add: ss(3))
    qed
    show "\<forall>r t sid sem. k_semaphores k' r = Some t \<longrightarrow> sems t sid = Some sem \<longrightarrow> distinct (wait_queue sem)"
    proof (intro allI impI)
      fix x t sid sem assume t: "k_semaphores k' x = Some t" "sems t sid = Some sem"
      then have "wait_queue sem = [] \<or> (\<exists>t'. k_semaphores k x = Some t' \<and> sems t' sid = Some sem)"
        using f' [of sid sem] ss(1) by (cases "x = pd_semaphores d") (auto simp: ss(3))
      then show "distinct (wait_queue sem)" using kernel_ok_distinct [OF ok] by auto
    qed
  qed (use ss in auto)
qed

lemma new_sem_ok:
  assumes "kernel_ok k" "new_sem key val k = Ok (r, k')"
  shows "kernel_ok k'"
proof -
  obtain d b where "with_semaphores (semset_insert key val) d k = Ok (b, k')"
    using assms(2) by (auto simp: new_sem_def data_new_sem_def)
  with assms(1) show ?thesis
    by (rule with_semaphores_ok) (auto simp: semset_insert_def semaphore_new_def Let_def split: if_splits)
qed

lemma remove_sem_ok:
  assumes "kernel_ok k" "remove_sem key k = Ok (r, k')"
  shows "kernel_ok k'"
proof -
  obtain d b where "with_semaphores (semset_remove key) d k = Ok (b, k')"
    using assms(2) by (auto simp: remove_sem_def data_remove_sem_def)
  with assms(1) show ?thesis
    by (rule with_semaphores_ok) (auto simp: semset_remove_def Let_def split: if_splits)
qed

section \<open>Spawning\<close>

lemma load_elf_code_stores:
  "load_elf_code M elf v s = Ok (v', s') \<Longrightarrow> same_stores s' s \<and> pv_page_table v' = pv_page_table v \<and> pv_heap v' = pv_heap v"
  unfolding load_elf_code_def by (auto split: outcome.split_asm prod.split_asm)

lemma stack_init_stores: "stack_init trace M pid st s = Ok (t, st', s') \<Longrightarrow> same_stores s' s"
  unfolding stack_init_def by (auto split: outcome.split_asm prod.split_asm)

lemma vm_load_elf_stores:
  assumes "vm_load_elf trace P elf pid v s = Ok (t, v', s')"
  shows "same_stores s' s" "pv_page_table v' = pv_page_table v" "pv_heap v' = pv_heap v"
  using assms unfolding vm_load_elf_def
  by (auto dest!: load_elf_code_stores stack_init_stores intro: same_stores_trans)

lemma clone_l4_stores:
  "clone_l4 P t0 s = Ok (t, s') \<Longrightarrow> ptc_reg t = vs_next s \<and> vs_next s' = vs_next s + 1 \<and> vs_heap_ends s' = vs_heap_ends s \<and>
    (\<exists>c. vs_tables s' = (vs_tables s)(vs_next s \<mapsto> (c, 1)))"
  by (cases "allocate_frame (vs_alloc s)"; cases "fst (allocate_frame (vs_alloc s))") (auto simp: clone_l4_def new_table_def)

lemma clone_page_table_stores:
  assumes "clone_page_table P p s = Ok (t, s')"
  shows "ptc_reg t = vs_next s" "vs_next s' = vs_next s + 1" "vs_heap_ends s' = vs_heap_ends s"
    "\<exists>c. vs_tables s' = (vs_tables s)(vs_next s \<mapsto> (c, 1))"
  using assms by (auto simp: clone_page_table_def dest!: clone_l4_stores)

text \<open>A spawned process has a page table, a heap and data of its own; it is ready and queued last.\<close>

lemma manager_spawn_run:
  fixes k k' :: "('t, 'f, 'w) kernel"
  assumes "manager_spawn K elf name parent None k = Ok (pid, k')"
  shows "\<exists>c v d p s. pid = ProcessId (k_counter k + 1) \<and> processes k' = (processes k)(pid \<mapsto> p) \<and>
    ready_queue k' = ready_queue k @ [pid] \<and> k_processor k' = k_processor k \<and>
    waiting_processes k' = waiting_processes k \<and>
    pr_status p = Ready \<and> proc_vm p = Some v \<and> proc_data p = Some d \<and> pr_parent p = parent \<and>
    d = \<lparr>pd_env = k_next k, pd_resources = k_next k + 1, code_segment_pages = 0, pd_semaphores = k_next k + 2\<rparr> \<and>
    k_envs k' = (k_envs k)(k_next k \<mapsto> Map.empty) \<and>
    k_resources k' = (k_resources k)(k_next k + 1 \<mapsto> resources_default) \<and>
    k_semaphores k' = (k_semaphores k)(k_next k + 2 \<mapsto> semset_new) \<and> k_vm k' = s \<and>
    ptc_reg (pv_page_table v) = vs_next (k_vm k) \<and>
    pv_heap v = \<lparr>hp_base = HEAP_START, hp_end = vs_next (k_vm k) + 1\<rparr> \<and>
    vs_tables s = (vs_tables (k_vm k))(vs_next (k_vm k) \<mapsto> (c, 1)) \<and>
    vs_heap_ends s = (vs_heap_ends (k_vm k))(vs_next (k_vm k) + 1 \<mapsto> HEAP_START) \<and>
    vs_next s = vs_next (k_vm k) + 2"
proof -
  obtain kproc t s1 where t: "clone_page_table (ke_paging K) kproc (k_vm k) = Ok (t, s1)"
    and rest: "(let (v, s2) = vm_new t s1;
           (pid, p, k1) = process_new name parent (Some v) None (k\<lparr>k_vm := s2\<rparr>) in
     and_then (process_load_elf (ke_trace K) (ke_paging K) elf pid p (k_vm k1)) (\<lambda>(top_addr, p1, s3).
       let entry = elf_entry_point elf;
           p2 = p1\<lparr>pr_context := init_stack_frame (ke_selectors K) entry top_addr (pr_context p1)\<rparr> in
       Ok (pid, push_ready pid (put_proc pid (pause p2) (k1\<lparr>k_vm := s3\<rparr>))))) = Ok (pid, k')"
    using assms unfolding manager_spawn_def by auto
  obtain c where st: "ptc_reg t = vs_next (k_vm k)" "vs_next s1 = vs_next (k_vm k) + 1" "vs_heap_ends s1 = vs_heap_ends (k_vm k)"
      "vs_tables s1 = (vs_tables (k_vm k))(vs_next (k_vm k) \<mapsto> (c, 1))"
    using clone_page_table_stores [OF t] by blast
  let ?v = "fst (vm_new t s1)" and ?s2 = "snd (vm_new t s1)"
  obtain top_addr v1 s3 where ld: "vm_load_elf (ke_trace K) (ke_paging K) elf (ProcessId (k_counter k + 1)) ?v ?s2 = Ok (top_addr, v1, s3)"
    using rest by (auto simp: process_new_def process_load_elf_def process_id_new_def data_default_def Let_def unwrap_option_def split_beta)
  note l = vm_load_elf_stores [OF ld]
  have v: "pv_page_table v1 = t" "pv_heap v1 = \<lparr>hp_base = HEAP_START, hp_end = vs_next (k_vm k) + 1\<rparr>"
    using l(2,3) st(2) by (simp_all add: vm_new_def heap_empty_def)
  have s3: "vs_tables s3 = (vs_tables (k_vm k))(vs_next (k_vm k) \<mapsto> (c, 1))"
      "vs_heap_ends s3 = (vs_heap_ends (k_vm k))(vs_next (k_vm k) + 1 \<mapsto> HEAP_START)" "vs_next s3 = vs_next (k_vm k) + 2"
    using l(1) st by (simp_all add: same_stores_def vm_new_def heap_empty_def)
  show ?thesis
    using rest ld v st(1) s3
    by (intro exI [of _ c] exI [of _ v1])
      (auto simp: process_new_def process_load_elf_def process_id_new_def data_default_def Let_def unwrap_option_def split_beta pause_def)
qed

lemma manager_spawn_ok:
  assumes ok: "kernel_ok k" and fresh: "k_counter k + 1 \<noteq> 0" "processes k (ProcessId (k_counter k + 1)) = None"
    and run: "manager_spawn K elf name parent None k = Ok (pid, k')"
  shows "kernel_ok k'"
proof -
  obtain c v d and p :: Process and s where r: "pid = ProcessId (k_counter k + 1)" "processes k' = (processes k)(pid \<mapsto> p)"
    "ready_queue k' = ready_queue k @ [pid]" "k_processor k' = k_processor k" "waiting_processes k' = waiting_processes k"
    "pr_status p = Ready" "proc_vm p = Some v" "proc_data p = Some d"
    and d: "d = \<lparr>pd_env = k_next k, pd_resources = k_next k + 1, code_segment_pages = 0, pd_semaphores = k_next k + 2\<rparr>"
      "k_envs k' = (k_envs k)(k_next k \<mapsto> Map.empty)" "k_resources k' = (k_resources k)(k_next k + 1 \<mapsto> resources_default)"
      "k_semaphores k' = (k_semaphores k)(k_next k + 2 \<mapsto> semset_new)" "k_vm k' = s"
    and v: "ptc_reg (pv_page_table v) = vs_next (k_vm k)" "pv_heap v = \<lparr>hp_base = HEAP_START, hp_end = vs_next (k_vm k) + 1\<rparr>"
      "vs_tables s = (vs_tables (k_vm k))(vs_next (k_vm k) \<mapsto> (c, 1))"
      "vs_heap_ends s = (vs_heap_ends (k_vm k))(vs_next (k_vm k) + 1 \<mapsto> HEAP_START)" "vs_next s = vs_next (k_vm k) + 2"
    using manager_spawn_run [OF run] by blast
  have ne: "pid \<noteq> ProcessId 0" "processes k pid = None" using fresh r(1) by simp_all
  have st: "has_status k' st q \<longleftrightarrow> (if q = pid then st = Ready else has_status k st q)" for st q
    using r(2,6) by (auto simp: has_status_def)
  have none: "\<not> has_status k st pid" for st using ne by (simp add: has_status_def)
  have w: "waits_on k q pl" if "waits_on k' q pl" for q pl
    using that by (cases pl) (auto simp: d(4) r(5) semset_new_def split: if_split_asm)
  have mem: "memory_ok k" using ok by (simp add: kernel_ok_def)
  have users: "table_users k (vs_next (k_vm k)) = {}"
  proof -
    have False if "processes k q = Some pq" "proc_vm pq = Some u" "ptc_reg (pv_page_table u) = vs_next (k_vm k)" for q u and pq :: Process
    proof -
      have "refs_ok k pq" using mem that(1) by (simp add: memory_ok_def)
      then have "vs_next (k_vm k) \<in> dom (vs_tables (k_vm k))" using that by (auto simp: refs_ok_def vm_refs_def split: if_split_asm)
      then show False using mem unfolding memory_ok_def by blast
    qed
    then show ?thesis by (auto simp: table_users_def)
  qed
  have "memory_ok k'"
  proof (rule memory_ok_add [OF mem ne(2,1), where p = p and v = v and d = d])
    show "dom (vs_tables (k_vm k')) \<subseteq> {..<vs_next (k_vm k')}" using mem by (auto simp: d(5) v memory_ok_def)
  qed (use r d v users in \<open>auto simp: vm_refs_def data_refs_def\<close>)
  moreover have "queues_ok k'"
    using ok none [of Ready] unfolding kernel_ok_def queues_ok_def st r(3) by auto
  moreover have "waiters_ok k'"
    unfolding waiters_ok_def
  proof (intro conjI allI impI)
    show "has_status k' Blocked q" if "waits_on k' q pl" for q pl
    proof -
      have "has_status k Blocked q" using kernel_ok_waiter [OF ok w [OF that]] by (simp add: has_status_def)
      then show ?thesis using none [of Blocked] by (auto simp: st)
    qed
    show "pl = pl'" if "waits_on k' q pl" "waits_on k' q pl'" for q pl pl'
      using kernel_ok_one_place [OF ok w w] that by blast
    show "distinct (wait_queue sem)" if "k_semaphores k' x = Some ss" "sems ss sid = Some sem" for x ss sid sem
      using that kernel_ok_distinct [OF ok, of x ss sid sem] by (auto simp: d(4) semset_new_def split: if_split_asm)
  qed
  moreover have "KERNEL_PID \<noteq> pid" using ok none [of Ready] none [of Running] unfolding kernel_ok_def by auto
  ultimately show ?thesis using ok none [of Running] unfolding kernel_ok_def r(4) st by auto
qed

lemma spawn_ok:
  assumes ok: "kernel_ok k" and fresh: "k_counter k + 1 \<noteq> 0" "processes k (ProcessId (k_counter k + 1)) = None"
    and run: "spawn K path k = Ok (r, k')"
  shows "kernel_ok k'"
proof -
  obtain name elf parent pid where "manager_spawn K elf name (Some parent) None k = Ok (pid, k')"
    using run by (auto simp: spawn_def elf_spawn_def Let_def split: option.split_asm prod.split_asm)
  then show ?thesis by (rule manager_spawn_ok [OF ok fresh])
qed

section \<open>The services\<close>

lemma write_user_stores: "write_user P addr bs s = Ok s' \<Longrightarrow> same_stores s' s"
proof (induction P addr bs s rule: write_user.induct)
  case (2 P addr b bs s)
  then show ?case by fastforce
qed simp

lemma manager_files_ok:
  assumes "kernel_ok k"
  shows manager_read_ok: "manager_read K fd buf k = Ok (n, buf', k') \<Longrightarrow> kernel_ok k'"
    and manager_write_ok: "manager_write fd buf k = Ok (n, k') \<Longrightarrow> kernel_ok k'"
    and manager_open_ok: "manager_open_file K path k = Ok (fd', k') \<Longrightarrow> kernel_ok k'"
    and manager_close_ok: "manager_close_file fd k = Ok (b, k') \<Longrightarrow> kernel_ok k'"
  by (auto simp: manager_read_def manager_write_def manager_open_file_def manager_close_file_def
      dest: data_read_ok [OF assms] data_write_ok [OF assms] data_open_ok [OF assms] data_close_ok [OF assms])

lemma sys_read_ok: "kernel_ok k \<Longrightarrow> sys_read K args k = Ok (r, k') \<Longrightarrow> kernel_ok k'"
  unfolding sys_read_def
  by (auto dest: manager_read_ok write_user_stores intro!: kernel_ok_vm same_stores_step)

lemma sys_write_ok: "kernel_ok k \<Longrightarrow> sys_write K args k = Ok (r, k') \<Longrightarrow> kernel_ok k'"
  unfolding sys_write_def by (auto dest: manager_write_ok)

lemma sys_open_ok: "kernel_ok k \<Longrightarrow> sys_open_file K args k = Ok (r, k') \<Longrightarrow> kernel_ok k'"
  unfolding sys_open_file_def by (auto dest: manager_open_ok)

lemma sys_brk_ok: "kernel_ok k \<Longrightarrow> sys_brk K args k = Ok (r, k') \<Longrightarrow> kernel_ok k'"
  unfolding sys_brk_def brk_def by (auto dest: manager_brk_ok split: if_split_asm)

lemma print_report_ok: "kernel_ok k \<Longrightarrow> print_report r k = Ok k' \<Longrightarrow> kernel_ok k'"
  unfolding print_report_def by (auto intro: kernel_ok_console)

lemma sys_print_info_ok: "kernel_ok k \<Longrightarrow> sys_print_info E args k = Ok (r, k') \<Longrightarrow> kernel_ok k'"
  unfolding sys_print_info_def by (auto simp: Let_def split: if_split_asm dest: print_report_ok)

lemma wait_pid_ok:
  assumes ok: "kernel_ok k" and cur: "current k = Ok (cur, p)" "cur \<noteq> KERNEL_PID" and run: "wait_pid target c k = Ok (c', k')"
  shows "kernel_ok k'"
proof (cases "is_proc_alive k target")
  case True
  note b = wait_pid_blocks [OF ok cur True, of c]
  show ?thesis using switch_next_ok [OF b(1)] b(2) run by auto
qed (use ok run in \<open>auto simp: wait_pid_def\<close>)

lemma sys_sem_ok:
  assumes "kernel_ok k" "current k = Ok (cur, p)" "cur \<noteq> KERNEL_PID" "sys_sem args c k = Ok (c', k')"
  shows "kernel_ok k'"
  using assms(1,4) sem_wait_ok [OF assms(1-3), of "ucast (arg1 args)" c] sem_signal_ok [OF assms(1,2), of "ucast (arg1 args)" c]
  by (auto simp: sys_sem_def Let_def split: if_split_asm dest: new_sem_ok [OF assms(1)] remove_sem_ok [OF assms(1)])

text \<open>The identifier the next \<open>fork\<close> or \<open>spawn\<close> takes is not in use.\<close>

definition fresh_pid :: "('t, 'f, 'w) kernel \<Rightarrow> bool" where
  "fresh_pid k \<longleftrightarrow> k_counter k + 1 \<noteq> 0 \<and> processes k (ProcessId (k_counter k + 1)) = None"

lemma dispatcher_ok:
  assumes laws: "paging_laws (ke_paging (kenv_of E))" and ok: "kernel_ok k" and cur: "ProcessId (k_processor k) \<noteq> KERNEL_PID"
    and fresh: "fresh_pid k" and run: "dispatcher E c k h = Ok (c', k', h')"
  shows "kernel_ok k'"
proof -
  let ?cur = "ProcessId (k_processor k)"
  obtain p where p: "current k = Ok (?cur, p)" using ok by (rule kernel_ok_current)
  note f = fresh [unfolded fresh_pid_def, THEN conjunct1] fresh [unfolded fresh_pid_def, THEN conjunct2]
  note d = run [unfolded dispatcher_def Let_def returning_def switching_def, simplified]
  have ex: "exit (kenv_of E) r k = Ok (c1, k1) \<Longrightarrow> kernel_ok k1" for r c1 k1
    using exit_ok [OF laws ok p cur, of r] by auto
  have fk: "fork (kenv_of E) c k = Ok (c1, k1) \<Longrightarrow> kernel_ok k1" for c1 k1
    by (rule fork_ok [OF ok f p])
  have sp: "spawn (kenv_of E) path k = Ok (r, k1) \<Longrightarrow> kernel_ok k1" for path r k1
    by (rule spawn_ok [OF ok f])
  show ?thesis
  proof (cases "syscall_from (rax (regs c))")
    case SysRead then show ?thesis using d by (auto dest: sys_read_ok [OF ok])
  next
    case SysWrite then show ?thesis using d by (auto dest: sys_write_ok [OF ok])
  next
    case SysBrk then show ?thesis using d by (auto dest: sys_brk_ok [OF ok])
  next
    case SysSpawn then show ?thesis using d by (auto simp: sys_spawn_process_def dest: sp)
  next
    case SysExit then show ?thesis using d by (auto simp: sys_exit_process_def dest: ex)
  next
    case SysWaitPid then show ?thesis using d by (auto simp: sys_wait_pid_def dest: wait_pid_ok [OF ok p cur])
  next
    case SysOpen then show ?thesis using d by (auto dest: sys_open_ok [OF ok])
  next
    case SysClose then show ?thesis using d by (auto simp: sys_close_file_def dest: manager_close_ok [OF ok])
  next
    case SysFork then show ?thesis using d by (auto simp: sys_fork_def dest: fk)
  next
    case SysSem then show ?thesis using d by (auto dest: sys_sem_ok [OF ok p cur])
  next
    case SysPrintInfo then show ?thesis using d by (auto dest: sys_print_info_ok [OF ok])
  next
    case SysListDir then show ?thesis using d by (auto simp: sys_list_dir_def dest: print_report_ok [OF ok])
  qed (use d ok in \<open>auto dest: print_report_ok [OF ok]\<close>)
qed

section \<open>Reachable states\<close>

text \<open>
  The kernel runs on interrupts: the clock, system calls of user processes, page faults and keys.
\<close>

inductive interrupt :: "('t, 'f, 'w, 'h) senv \<Rightarrow> ('t, 'f, 'w) kernel \<times> 'h \<Rightarrow> ('t, 'f, 'w) kernel \<times> 'h \<Rightarrow> bool" for E where
  clock: "switch c k = Ok (c', k') \<Longrightarrow> interrupt E (k, h) (k', h)"
| syscall: "ProcessId (k_processor k) \<noteq> KERNEL_PID \<Longrightarrow> fresh_pid k \<Longrightarrow> dispatcher E c k h = Ok (c', k', h') \<Longrightarrow>
    interrupt E (k, h) (k', h')"
| page_fault: "manager_handle_page_fault (kenv_of E) addr err k = Ok (b, k') \<Longrightarrow> interrupt E (k, h) (k', h)"
| key: "interrupt E (k, h) (k\<lparr>k_input := push_key key (k_input k)\<rparr>, h)"

lemma interrupt_ok:
  assumes "interrupt E x y" "paging_laws (ke_paging (kenv_of E))" "kernel_ok (fst x)"
  shows "kernel_ok (fst y)"
  using assms
proof (induction rule: interrupt.induct)
  case (clock c k c' k' h)
  then show ?case by (auto elim: switch_ok [where c = c])
next
  case (syscall k c h c' k' h')
  then show ?case by (auto intro: dispatcher_ok)
next
  case (page_fault addr err k b k' h)
  then show ?case by (auto intro: page_fault_ok)
next
  case (key k h key)
  then show ?case by (simp add: kernel_ok_console)
qed

lemma interrupts_ok:
  assumes "(interrupt E)\<^sup>*\<^sup>* x y" "paging_laws (ke_paging (kenv_of E))" "kernel_ok (fst x)"
  shows "kernel_ok (fst y)"
  using assms by (induction rule: rtranclp_induct) (auto dest: interrupt_ok)

text \<open>\<open>proc::init\<close> establishes the invariant.\<close>

lemma proc_init_ok:
  assumes k: "k_counter k = 0" "vs_tables (k_vm k) = Map.empty" "k_semaphores k = Map.empty"
  shows "kernel_ok (proc_init pages k)"
proof -
  let ?k = "proc_init pages k" and ?n = "vs_next (k_vm k)"
  obtain p v d where p: "processes ?k = [KERNEL_PID \<mapsto> p]" "pr_status p = Running" "proc_vm p = Some v" "proc_data p = Some d"
    and kk: "ready_queue ?k = []" "waiting_processes ?k = Map.empty" "k_processor ?k = 1"
      "k_semaphores ?k = [k_next k + 2 \<mapsto> semset_new]" "vs_tables (k_vm ?k) = [?n \<mapsto> (vs_cr3 (k_vm k), 1)]" "vs_next (k_vm ?k) = ?n + 2"
    and refs: "vm_refs (k_vm ?k) v" "data_refs ?k d" "ptc_reg (pv_page_table v) = ?n"
    using k
    by (auto simp: proc_init_def page_table_new_def new_table_def vm_new_def heap_empty_def process_new_def process_id_new_def
        data_default_def manager_init_def set_pid_def resume_def init_kernel_vm_def vm_refs_def data_refs_def KERNEL_PID_def Let_def)
  have st: "has_status ?k st q \<longleftrightarrow> q = KERNEL_PID \<and> st = Running" for st q
    using p(1,2) by (auto simp: has_status_def)
  have "\<not> waits_on ?k q pl" for q pl
    by (cases pl) (auto simp: kk semset_new_def split: if_split_asm)
  then have "waiters_ok ?k" by (auto simp: waiters_ok_def kk(4) semset_new_def split: if_split_asm)
  moreover have "table_users ?k r = (if r = ?n then {KERNEL_PID} else {})" for r
    using p refs(3) by (auto simp: table_users_def split: if_split_asm)
  then have "memory_ok ?k"
    using p refs by (auto simp: memory_ok_def refs_ok_def kk(5,6) KERNEL_PID_def split: if_split_asm)
  ultimately show ?thesis by (auto simp: kernel_ok_def queues_ok_def st kk KERNEL_PID_def)
qed

end
