(* ===== verification/Kernel_Properties.thy ===== *)
theory Kernel_Properties
  imports Memory_Properties Sys_Invariant
begin

text \<open>
  What the kernel promises of its processes: the invariant over all interrupts, the scheduler, exit
  and wait, the semaphores, and fork.
\<close>


section \<open>Small kernels\<close>



definition demo_proc :: "ProgramStatus \<Rightarrow> Process" where
  "demo_proc st = \<lparr>pr_name = [], pr_parent = None, pr_children = [], ticks_passed = 0, pr_status = st, pr_exit_code = None,
     pr_context = context_default,
     proc_data = Some \<lparr>pd_env = 0, pd_resources = 0, code_segment_pages = 0, pd_semaphores = 0\<rparr>,
     proc_vm = Some \<lparr>pv_page_table = \<lparr>ptc_reg = 0\<rparr>, pv_stack = one_page_stack, pv_heap = \<lparr>hp_base = HEAP_START, hp_end = 1\<rparr>,
       pv_code = [], pv_code_usage = 0\<rparr>\<rparr>"

definition user_kernel :: "(unit, unit, flat) kernel" where
  "user_kernel = \<lparr>k_vm = one_page_vm\<lparr>vs_tables := [0 \<mapsto> (\<lparr>cr3_addr = 0, cr3_flags = 0\<rparr>, 4)]\<rparr>,
     k_envs = [0 \<mapsto> Map.empty], k_resources = [0 \<mapsto> resources_default],
     k_semaphores = [0 \<mapsto> \<lparr>sems = [SemaphoreId 7 \<mapsto> \<lparr>sem_count = 0, wait_queue = [ProcessId 3]\<rparr>]\<rparr>], k_next = 1,
     processes = [ProcessId 1 \<mapsto> demo_proc Ready, ProcessId 2 \<mapsto> demo_proc Running,
       ProcessId 3 \<mapsto> demo_proc Blocked, ProcessId 4 \<mapsto> demo_proc Blocked],
     ready_queue = [ProcessId 1], waiting_processes = [ProcessId 2 \<mapsto> {ProcessId 4}], k_processor = 2, k_counter = 4,
     k_input = [], k_output = []\<rparr>"

lemma user_kernel_status:
  "has_status user_kernel st pid \<longleftrightarrow> (pid, st) \<in> {(ProcessId 1, Ready), (ProcessId 2, Running), (ProcessId 3, Blocked), (ProcessId 4, Blocked)}"
  by (auto simp: has_status_def user_kernel_def demo_proc_def split: if_splits)

lemma user_kernel_waits:
  "waits_on user_kernel pid pl \<longleftrightarrow> (pid, pl) \<in> {(ProcessId 3, OnSemaphore 0 (SemaphoreId 7)), (ProcessId 4, OnProcess (ProcessId 2))}"
  by (cases pl) (auto simp: user_kernel_def split: if_splits)

lemma user_kernel_users:
  "table_users user_kernel r = (if r = 0 then {ProcessId 1, ProcessId 2, ProcessId 3, ProcessId 4} else {})"
  by (auto simp: table_users_def user_kernel_def demo_proc_def split: if_splits)

lemma user_kernel_ok: "kernel_ok user_kernel"
proof -
  have "queues_ok user_kernel" by (simp add: queues_ok_def user_kernel_status) (auto simp: user_kernel_def)
  moreover have "waiters_ok user_kernel"
    unfolding waiters_ok_def user_kernel_waits user_kernel_status by (auto simp: user_kernel_def split: if_splits)
  moreover have "refs_ok user_kernel (demo_proc st)" if "st \<noteq> Dead" for st
    using that by (simp add: refs_ok_def demo_proc_def vm_refs_def data_refs_def user_kernel_def one_page_vm_def)
  then have "refs_ok user_kernel p" if "processes user_kernel pid = Some p" for pid p
    using that by (auto simp: user_kernel_def split: if_splits)
  then have "memory_ok user_kernel"
    unfolding memory_ok_def user_kernel_users by (auto simp: user_kernel_def one_page_vm_def split: if_splits)
  ultimately show ?thesis
    unfolding kernel_ok_def user_kernel_status by (auto simp: KERNEL_PID_def) (auto simp: user_kernel_def)
qed

lemma user_kernel_current: "current user_kernel = Ok (ProcessId 2, demo_proc Running)"
  by (simp add: current_def get_pid_def processor_get_pid_def get_proc_def unwrap_option_def user_kernel_def)

definition demo_env :: "(unit, unit, flat, unit) senv" where
  "demo_env = \<lparr>ke_trace = True, ke_paging = flat_paging, ke_reader = (\<lambda>f buf. (Ok 0, buf, f)),
     ke_rootfs = mount_new \<lparr>read_dir = (\<lambda>_. Err FileNotFound), open_file = (\<lambda>_. Err FileNotFound),
       metadata = (\<lambda>_. Err FileNotFound), exists = (\<lambda>_. Err FileNotFound)\<rparr> [0x2F],
     ke_elf = (\<lambda>_. None), ke_selectors = \<lparr>user_code_selector = 0x23, user_data_selector = 0x1B\<rparr>,
     se_report = (\<lambda>_ _. Ok []), se_layout = (\<lambda>_. (0, 0)), se_allocate = (\<lambda>_ h. (None, h)),
     se_deallocate = (\<lambda>_ _ h. h), se_time = (0, 0, 0)\<rparr>"

lemma demo_env_laws: "paging_laws (ke_paging (kenv_of demo_env))"
  by (simp add: kenv_of_def demo_env_def kenv.truncate_def flat_paging_laws)

section \<open>The kernel as a whole\<close>



section \<open>Scheduling\<close>

text \<open>The clock interrupt, once for each interrupted context.\<close>

fun clock_ticks :: "ProcessContext list \<Rightarrow> ('t, 'f, 'w) kernel \<Rightarrow> ('t, 'f, 'w) kernel exec" where
  "clock_ticks [] k = Ok k"
| "clock_ticks (c # cs) k = and_then (switch c k) (\<lambda>(_, k1). clock_ticks cs k1)"

lemma clock_ticks_rotate:
  "kernel_ok k \<Longrightarrow> \<exists>k'. clock_ticks cs k = Ok k' \<and> kernel_ok k' \<and>
     ProcessId (k_processor k') # ready_queue k' = rotate (length cs) (ProcessId (k_processor k) # ready_queue k)"
proof (induction cs arbitrary: k)
  case Nil
  then show ?case by simp
next
  case (Cons c cs)
  obtain c' k1 where s: "switch c k = Ok (c', k1)" "kernel_ok k1"
      "ready_queue k @ [ProcessId (k_processor k)] = ProcessId (k_processor k1) # ready_queue k1"
    using Cons.prems by (rule switch_ok [where c = c])
  then have "ProcessId (k_processor k1) # ready_queue k1 = rotate1 (ProcessId (k_processor k) # ready_queue k)" by simp
  with Cons.IH [OF s(2)] s(1) show ?case by (auto simp: rotate_def funpow_swap1)
qed

text \<open>
  C3. The clock never fails and the scheduler is fair: with only clock interrupts, the running process
  and the ready queue rotate, so that a process at place \<open>i\<close> of the queue runs after \<open>i + 1\<close> interrupts.
\<close>

theorem round_robin_fair:
  assumes "kernel_ok k" "i < length (ready_queue k)" "length cs = i + 1"
  shows "\<exists>k'. clock_ticks cs k = Ok k' \<and> kernel_ok k' \<and> ProcessId (k_processor k') = ready_queue k ! i"
proof -
  let ?xs = "ProcessId (k_processor k) # ready_queue k"
  obtain k' where k': "clock_ticks cs k = Ok k'" "kernel_ok k'"
      "ProcessId (k_processor k') # ready_queue k' = rotate (length cs) ?xs"
    using clock_ticks_rotate [OF assms(1)] by blast
  have "ProcessId (k_processor k') = hd (rotate (length cs) ?xs)" by (simp flip: k'(3))
  also have "\<dots> = ?xs ! (length cs mod length ?xs)" by (rule hd_rotate_conv_nth) simp
  also have "\<dots> = ready_queue k ! i" using assms(2,3) by simp
  finally show ?thesis using k' by blast
qed

theorem round_robin_fair_witness:
  "\<exists>k'. clock_ticks [context_default] user_kernel = Ok k' \<and> kernel_ok k' \<and> ProcessId (k_processor k') = ProcessId 1"
proof -
  have "length (ready_queue user_kernel) = 1" "ready_queue user_kernel ! 0 = ProcessId 1" by (simp_all add: user_kernel_def)
  then show ?thesis using round_robin_fair [OF user_kernel_ok, of 0 "[context_default]"] by simp
qed

text \<open>
  C19. \<open>switch_next\<close> passes over queued processes that are not ready, moving them to the back, and picks
  the first that is ready; its loop never ends exactly when no queued process is ready.
\<close>

theorem next_ready_first_ready:
  assumes "ready_queue k \<noteq> []" "\<forall>pid \<in> set (ready_queue k). \<exists>p. processes k pid = Some p"
  shows "if \<exists>pid \<in> set (ready_queue k). has_status k Ready pid
    then \<exists>xs pid ys p. ready_queue k = xs @ pid # ys \<and> (\<forall>q \<in> set xs. \<not> has_status k Ready q) \<and>
      processes k pid = Some p \<and> pr_status p = Ready \<and> next_ready k = Some (Ok (pid, p, k\<lparr>ready_queue := ys @ xs\<rparr>))
    else next_ready k = None"
proof (cases "\<exists>pid \<in> set (ready_queue k). has_status k Ready pid")
  case True
  then obtain xs pid ys where q: "ready_queue k = xs @ pid # ys" "has_status k Ready pid" "\<forall>x \<in> set xs. \<not> has_status k Ready x"
    by (rule split_list_first_propE)
  then obtain p where p: "processes k pid = Some p" "pr_status p = Ready" by (auto simp: has_status_def)
  have "\<exists>r. processes k x = Some r \<and> \<not> is_ready r" if "x \<in> set xs" for x
  proof -
    have "x \<in> set (ready_queue k)" using q(1) that by simp
    then obtain r where r: "processes k x = Some r" using assms(2) by blast
    then show ?thesis using q(3) that by (auto simp: has_status_def is_ready_def)
  qed
  then have "next_ready k = Some (Ok (pid, p, k\<lparr>ready_queue := ys @ xs\<rparr>))"
    by (intro next_ready_first [OF q(1) _ p(1)]) (auto simp: is_ready_def p(2))
  then show ?thesis using q p True by auto
next
  case False
  then have "\<forall>x \<in> set (ready_queue k). \<exists>q. processes k x = Some q \<and> \<not> is_ready q"
    using assms(2) by (fastforce simp: has_status_def is_ready_def)
  from next_ready_none [OF assms(1) this] False show ?thesis by simp
qed

theorem next_ready_first_ready_witness:
  "next_ready (user_kernel\<lparr>ready_queue := [ProcessId 3]\<rparr>) = None"
  using next_ready_first_ready [of "user_kernel\<lparr>ready_queue := [ProcessId 3]\<rparr>"]
  by (simp add: has_status_def) (simp add: user_kernel_def demo_proc_def)

section \<open>Waiting\<close>

text \<open>
  C11. A process that exits is dead with its exit code, and every process that waited for it continues,
  ready or running, with that code in \<open>rax\<close>. The call always returns to some process.
\<close>

theorem exit_delivers_code:
  assumes "paging_laws (ke_paging K)" "kernel_ok k" "current k = Ok (cur, p)" "cur \<noteq> KERNEL_PID"
  shows "\<exists>c' k'. exit K ret k = Ok (c', k') \<and> kernel_ok k' \<and>
    (\<exists>p'. processes k' cur = Some p' \<and> pr_status p' = Dead \<and> pr_exit_code p' = Some ret) \<and>
    (\<forall>q \<in> waiters_of k cur. \<exists>pq st. processes k q = Some pq \<and> (st = Ready \<or> st = Running) \<and>
       processes k' q = Some (pq\<lparr>pr_context := set_rax ret (pr_context pq), pr_status := st\<rparr>))"
  using assms by (rule exit_ok)

theorem exit_delivers_code_witness:
  "\<exists>c' k' st. exit (kenv_of demo_env) 5 user_kernel = Ok (c', k') \<and> (st = Ready \<or> st = Running) \<and>
     processes k' (ProcessId 4) = Some ((demo_proc Blocked)\<lparr>pr_context := set_rax 5 context_default, pr_status := st\<rparr>)"
proof -
  have "waiters_of user_kernel (ProcessId 2) = {ProcessId 4}" "processes user_kernel (ProcessId 4) = Some (demo_proc Blocked)"
    by (simp_all add: waiters_of_def user_kernel_def)
  then show ?thesis
    using exit_delivers_code [OF demo_env_laws user_kernel_ok user_kernel_current, of 5]
    by (auto simp: KERNEL_PID_def demo_proc_def)
qed

lemma switch_from_blocked:
  assumes "idle_ok k" "processes k cur = Some p" "pr_status p = Blocked"
  shows "\<exists>c' pid k'. switch_next k = Ok (c', pid, k') \<and> kernel_ok k' \<and> processes k' cur = Some p \<and>
    waiting_processes k' = waiting_processes k \<and> k_semaphores k' = k_semaphores k \<and> ProcessId (k_processor k') \<noteq> cur"
proof -
  obtain pid and q :: Process and cr k' where sw: "switch_next k = Ok (pr_context q, pid, k')" "kernel_ok k'"
      "processes k pid = Some q" "pr_status q = Ready"
      "k' = set_pid pid (put_proc pid (resume q) (k\<lparr>ready_queue := ready_queue k', k_vm := (k_vm k)\<lparr>vs_cr3 := cr\<rparr>\<rparr>))"
    using switch_next_ok [OF assms(1)] by blast
  have "processes k' = (processes k)(pid \<mapsto> resume q)" "waiting_processes k' = waiting_processes k"
      "k_semaphores k' = k_semaphores k" "k_processor k' = pid_u16 pid"
    by (subst sw(5), simp)+
  then show ?thesis using sw(1-4) assms(2,3) by auto
qed

text \<open>
  C20. Waiting for a process that is alive blocks the caller, enters it among the waiters of that
  process, and runs another process. Waiting for a dead process returns its exit code at once, and
  waiting for one that never was panics.
\<close>

theorem wait_pid_cases:
  fixes c :: ProcessContext
  assumes "kernel_ok k" "current k = Ok (cur, p)" "cur \<noteq> KERNEL_PID"
  shows "case processes k target of
      None \<Rightarrow> wait_pid target c k = Panic
    | Some t \<Rightarrow>
        if pr_status t = Dead then
          (\<forall>code. pr_exit_code t = Some code \<longrightarrow> wait_pid target c k = Ok (set_rax code c, k))
        else \<exists>c' k'. wait_pid target c k = Ok (c', k') \<and> kernel_ok k' \<and> cur \<in> waiters_of k' target \<and>
          has_status k' Blocked cur \<and> ProcessId (k_processor k') \<noteq> cur"
proof (cases "processes k target")
  case None
  then show ?thesis by (simp add: wait_pid_def is_proc_alive_def get_exit_code_def get_proc_def unwrap_option_def)
next
  case (Some t)
  show ?thesis
  proof (cases "pr_status t = Dead")
    case True
    with Some show ?thesis by (simp add: wait_pid_def is_proc_alive_def get_exit_code_def get_proc_def unwrap_option_def)
  next
    case False
    then have alive: "is_proc_alive k target" using Some by (simp add: is_proc_alive_def)
    let ?S = "case waiting_processes k target of None \<Rightarrow> {} | Some S \<Rightarrow> S"
    let ?k3 = "(put_proc cur (tick p\<lparr>pr_context := c, pr_status := Blocked\<rparr>) k)
      \<lparr>waiting_processes := (waiting_processes k)(target \<mapsto> insert cur ?S)\<rparr>"
    note b = wait_pid_blocks [OF assms alive, of c]
    obtain c' pid k' where sw: "switch_next ?k3 = Ok (c', pid, k')" "kernel_ok k'" "waiting_processes k' = waiting_processes ?k3"
        "processes k' cur = Some (tick p\<lparr>pr_context := c, pr_status := Blocked\<rparr>)" "ProcessId (k_processor k') \<noteq> cur"
      using switch_from_blocked [OF b(1), of cur] by auto
    then have "cur \<in> waiters_of k' target" "has_status k' Blocked cur"
      by (auto simp: waiters_of_def has_status_def)
    then show ?thesis using Some False sw(1,2,5) b(2) by auto
  qed
qed

theorem wait_pid_cases_witness:
  "\<exists>c' k'. wait_pid (ProcessId 3) context_default user_kernel = Ok (c', k') \<and> has_status k' Blocked (ProcessId 2)"
proof -
  have "processes user_kernel (ProcessId 3) = Some (demo_proc Blocked)" "pr_status (demo_proc Blocked) = Blocked"
    by (simp_all add: user_kernel_def demo_proc_def)
  then show ?thesis
    using wait_pid_cases [OF user_kernel_ok user_kernel_current, of "ProcessId 3" context_default]
    by (auto simp: KERNEL_PID_def)
qed

text \<open>
  C21. \<open>wait\<close> on a semaphore without a token blocks the caller: it joins the back of the semaphore's
  queue and another process runs.
\<close>

theorem sem_wait_joins_queue:
  fixes c :: ProcessContext
  assumes "kernel_ok k" "current k = Ok (cur, p)" "cur \<noteq> KERNEL_PID"
    and "proc_data p = Some d" "k_semaphores k (pd_semaphores d) = Some ss"
    and "sems ss (SemaphoreId key) = Some sem" "sem_count sem = 0"
  shows "\<exists>c' k' ss'. sem_wait key c k = Ok (c', k') \<and> kernel_ok k' \<and> has_status k' Blocked cur \<and>
    ProcessId (k_processor k') \<noteq> cur \<and> k_semaphores k' (pd_semaphores d) = Some ss' \<and>
    sems ss' (SemaphoreId key) = Some (sem\<lparr>wait_queue := wait_queue sem @ [cur]\<rparr>)"
proof -
  note b = sem_wait_blocks [OF assms, of c]
  from switch_from_blocked [OF b(1), of cur] show ?thesis
    unfolding b(2) by (fastforce simp: has_status_def)
qed

theorem sem_wait_joins_queue_witness:
  "\<exists>c' k' ss'. sem_wait 7 context_default user_kernel = Ok (c', k') \<and> k_semaphores k' 0 = Some ss' \<and>
     sems ss' (SemaphoreId 7) = Some \<lparr>sem_count = 0, wait_queue = [ProcessId 3, ProcessId 2]\<rparr>"
proof -
  have d: "proc_data (demo_proc Running) = Some \<lparr>pd_env = 0, pd_resources = 0, code_segment_pages = 0, pd_semaphores = 0\<rparr>"
    by (simp add: demo_proc_def)
  show ?thesis
    using sem_wait_joins_queue [OF user_kernel_ok user_kernel_current _ d, of _ 7 _ context_default]
    by (simp add: KERNEL_PID_def) (fastforce simp: user_kernel_def)
qed

text \<open>
  C22. \<open>signal\<close> on a semaphore that processes wait for readies the one that has waited longest, at the
  back of the ready queue, and the caller goes on. No register of either changes: \<open>rax\<close> keeps the
  number of the system call, in the process that is woken as well.
\<close>

theorem sem_signal_wakes_first:
  assumes "kernel_ok k" "current k = Ok (cur, p)"
    and "proc_data p = Some d" "k_semaphores k (pd_semaphores d) = Some ss"
    and "sems ss (SemaphoreId key) = Some sem" "wait_queue sem = pid # rest"
  shows "\<exists>q k'. sem_signal key c k = Ok (c, k') \<and> kernel_ok k' \<and> processes k pid = Some q \<and> pr_status q = Blocked \<and>
    processes k' = (processes k)(pid \<mapsto> q\<lparr>pr_status := Ready\<rparr>) \<and> ready_queue k' = ready_queue k @ [pid]"
  using sem_signal_wakes [OF assms, of c] by (simp add: pause_def)

theorem sem_signal_wakes_first_witness:
  "\<exists>k'. sem_signal 7 context_default user_kernel = Ok (context_default, k') \<and> ready_queue k' = [ProcessId 1, ProcessId 3]"
proof -
  have d: "proc_data (demo_proc Running) = Some \<lparr>pd_env = 0, pd_resources = 0, code_segment_pages = 0, pd_semaphores = 0\<rparr>"
    by (simp add: demo_proc_def)
  have q: "ready_queue user_kernel = [ProcessId 1]" by (simp add: user_kernel_def)
  show ?thesis
    using sem_signal_wakes_first [OF user_kernel_ok user_kernel_current d, of _ 7 _ "ProcessId 3" "[]" context_default]
    by (simp add: q) (fastforce simp: user_kernel_def)
qed





section \<open>Forking\<close>









end
