(* ===== verification/Resource_Properties.thy ===== *)
theory Resource_Properties
  imports Kernel_Properties
begin

text \<open>
  What the kernel promises of the resources of a process: page faults, descriptors, and the line
  read from the keyboard.
\<close>


section \<open>Page faults\<close>

text \<open>
  C32. A fault that is not a protection violation, at an address outside the stack of the process,
  is reported as handled although nothing is done about it.
\<close>

theorem unhandled_fault_reported_handled:
  assumes "kernel_ok k" "current k = Ok (cur, p)" "proc_vm p = Some v"
    and "\<not> is_on_stack (pv_stack v) addr" "err AND PROTECTION_VIOLATION = 0"
  shows "manager_handle_page_fault K addr err k = Ok (True, k)"
proof -
  have p: "processes k cur = Some p" "pr_status p = Running" using assms(1,2) by (auto elim!: kernel_ok_current)
  then have "refs_ok k p" using assms(1) by (auto simp: kernel_ok_def memory_ok_def)
  then obtain c n where t: "vs_tables (k_vm k) (ptc_reg (pv_page_table v)) = Some (c, n)"
    using p(2) assms(3) by (auto simp: refs_ok_def vm_refs_def)
  have "p\<lparr>proc_vm := Some v\<rparr> = p" using assms(3) by (cases p) simp
  then have "put_proc cur (p\<lparr>proc_vm := Some v\<rparr>) k = k" using p(1) by (simp add: put_proc_def fun_upd_idem)
  then show ?thesis
    using assms t by (simp add: manager_handle_page_fault_def process_handle_page_fault_def vm_handle_page_fault_def
        stack_handle_page_fault_def ptc_mapper_def ptc_value_def unwrap_option_def)
qed

theorem unhandled_fault_reported_handled_witness:
  "manager_handle_page_fault (kenv_of demo_env) 0x100000000 4 user_kernel = Ok (True, user_kernel)"
proof (rule unhandled_fault_reported_handled [OF user_kernel_ok user_kernel_current])
  show "proc_vm (demo_proc Running) = Some one_page_space" by (simp add: demo_proc_def one_page_space_def)
  show "\<not> is_on_stack (pv_stack one_page_space) 0x100000000"
    by (simp add: is_on_stack_def one_page_space_def one_page_stack_def start_address_def STACK_START_MASK_def STACK_MAX_SIZE_def)
qed (simp add: PROTECTION_VIOLATION_def)

section \<open>Files and the console\<close>

lemma handles_len_card: "handles_len h = card (dom h)"
proof -
  have "handles_len h = card {i \<in> set [0..<256]. h (word_of_nat i) \<noteq> None}"
    unfolding handles_len_def by (subst distinct_card [symmetric]) simp_all
  also have "{i \<in> set [0..<256]. h (word_of_nat i) \<noteq> None} = unat ` dom h"
  proof (intro equalityI subsetI)
    fix i assume i: "i \<in> {i \<in> set [0..<256]. h (word_of_nat i) \<noteq> None}"
    then have "i = unat (word_of_nat i :: u8)" by (simp add: unat_of_nat)
    then show "i \<in> unat ` dom h" using i by blast
  next
    fix i assume "i \<in> unat ` dom h"
    then obtain fd where "i = unat fd" "fd \<in> dom h" by blast
    then show "i \<in> {i \<in> set [0..<256]. h (word_of_nat i) \<noteq> None}" using unsigned_less [of fd] by auto
  qed
  also have "card \<dots> = card (dom h)" by (rule card_image) (auto simp: inj_on_def word_unat_eq_iff)
  finally show ?thesis .
qed

lemma card_below: "n \<le> 256 \<Longrightarrow> card {fd :: u8. unat fd < n} = n"
proof -
  assume n: "n \<le> 256"
  have "unat ` {fd :: u8. unat fd < n} = {..<n}"
  proof (intro equalityI subsetI)
    fix i assume "i \<in> {..<n}"
    then have "i = unat (word_of_nat i :: u8)" using n by (simp add: unat_of_nat)
    then show "i \<in> unat ` {fd :: u8. unat fd < n}" using \<open>i \<in> {..<n}\<close> by (metis (mono_tags) imageI lessThan_iff mem_Collect_eq)
  qed auto
  moreover have "inj_on unat {fd :: u8. unat fd < n}" by (auto simp: inj_on_def word_unat_eq_iff)
  ultimately show ?thesis by (metis card_image card_lessThan)
qed

text \<open>
  C33. As long as no file was closed, the descriptors in use are the numbers below the count of open
  resources, and \<open>open\<close> gives the next number, which is free; the open descriptors keep their resources.
\<close>

theorem open_gives_next_fd:
  assumes "dom (handles s) = {fd. unat fd < n}" "n < 256"
  shows "fst (resources_open r s) = word_of_nat n \<and> handles s (word_of_nat n) = None \<and>
    handles (snd (resources_open r s)) = (handles s)(word_of_nat n \<mapsto> r) \<and>
    dom (handles (snd (resources_open r s))) = {fd. unat fd < n + 1}"
proof -
  have n: "unat (word_of_nat n :: u8) = n" using assms(2) by (simp add: unat_of_nat)
  then have "word_of_nat n \<notin> dom (handles s)" using assms(1) by simp
  then have "handles s (word_of_nat n) = None" by (simp add: domIff)
  moreover have "insert (word_of_nat n) {fd :: u8. unat fd < n} = {fd. unat fd < n + 1}"
    using n by (auto simp: less_Suc_eq)
  ultimately show ?thesis using assms by (simp add: resources_open_def Let_def handles_len_card card_below)
qed

definition console_only :: "(unit, unit) ResourceSet" where
  "console_only = resources_default"

lemma console_only_dom: "dom (handles console_only) = {fd. unat fd < 3}"
proof -
  let ?h = "[0 \<mapsto> Console Stdin, 1 \<mapsto> Console Stdout, 2 \<mapsto> Console Stderr]"
  have "handles console_only = ?h" by code_simp
  moreover have "unat fd < 3 \<longleftrightarrow> fd = 0 \<or> fd = 1 \<or> fd = 2" for fd :: u8
    by (auto simp: word_less_nat_alt [symmetric] unat_arith_simps)
  ultimately show ?thesis by auto
qed

theorem open_gives_next_fd_witness:
  "fst (resources_open Null console_only) = 3 \<and> handles console_only 3 = None"
  using open_gives_next_fd [OF console_only_dom, of Null] by simp

text \<open>
  C34. Closing a descriptor that is not the last and opening another resource replaces the last open
  descriptor, which was not closed: the new descriptor is its number.
\<close>

theorem open_after_close_overwrites:
  assumes "dom (handles s) = {fd. unat fd < n + 1}" "n < 256" "unat fd < n"
  shows "case resources_open r (snd (resources_close fd s)) of (new, s') \<Rightarrow>
    new = word_of_nat n \<and> handles (snd (resources_close fd s)) new = handles s new \<and> handles s new \<noteq> None \<and>
    handles s' new = Some r"
proof -
  have n: "unat (word_of_nat n :: u8) = n" using assms(2) by (simp add: unat_of_nat)
  let ?h = "(handles s)(fd := None)"
  have "dom ?h = {x. unat x < n + 1} - {fd}" using assms(1) by auto
  then have len: "handles_len ?h = n" using assms(2,3) by (simp add: handles_len_card card_below)
  have "word_of_nat n \<noteq> fd" using n assms(3) by auto
  moreover have "word_of_nat n \<in> dom (handles s)" using n assms(1) by simp
  ultimately show ?thesis using len by (auto simp: resources_open_def resources_close_def Let_def)
qed

theorem open_after_close_overwrites_witness:
  "handles console_only 2 \<noteq> None \<and> fst (resources_open Null (snd (resources_close 0 console_only))) = 2 \<and>
   handles (snd (resources_open Null (snd (resources_close 0 console_only)))) 2 = Some Null"
  using open_after_close_overwrites [of console_only 2 0 Null] console_only_dom by (auto split: prod.splits)





end
