(* ===== verification/User_Threads.thy ===== *)
theory User_Threads
  imports Proc_Sync
begin

text \<open>
  Programs of the user library (\<open>pkg/lib\<close>) that fork processes which share memory and semaphores:
  what such processes do to each other. A process is a list of instructions between which it can be
  interrupted. Semaphores are those of the kernel (\<open>Proc_Sync\<close>); \<open>SpinLock\<close> is
  \<open>pkg/lib/src/sync.rs\<close>. The second part has the invariants that every such program has: who waits
  where, and the balance of waits and signals.
\<close>

section \<open>Spin locks (sync.rs)\<close>

record SpinLock =
  bolt :: bool

definition spinlock_new :: SpinLock where
  "spinlock_new = \<lparr>bolt = False\<rparr>"

text \<open>One attempt of the loop in \<open>acquire\<close>: \<open>compare_exchange(false, true)\<close>, \<open>None\<close> when it fails.\<close>

definition acquire :: "SpinLock \<Rightarrow> SpinLock option" where
  "acquire l = (if bolt l then None else Some (l\<lparr>bolt := True\<rparr>))"

definition release :: "SpinLock \<Rightarrow> SpinLock" where
  "release l = l\<lparr>bolt := False\<rparr>"

section \<open>Instructions and threads\<close>

text \<open>
  \<open>Do f\<close> is a step on the variables of the stack and the shared memory, \<open>Print f\<close> writes a line,
  \<open>Fork c l\<close> starts a process that runs \<open>c\<close> and then repeats \<open>l\<close> for ever (and exits when \<open>l\<close> is
  empty), and \<open>Join i\<close> is \<open>sys_wait_pid(pids[i])\<close>.
\<close>

datatype (dead 'l, dead 'm, dead 'o) instr =
    Do "'l \<Rightarrow> 'm \<Rightarrow> 'l \<times> 'm"
  | Print "'l \<Rightarrow> 'm \<Rightarrow> 'o"
  | SemNew u32 nat
  | SemRemove u32
  | SemWait u32
  | SemSignal u32
  | Acquire
  | Release
  | Fork "('l, 'm, 'o) instr list" "('l, 'm, 'o) instr list"
  | Join nat

record ('l, 'm, 'o) thread =
  th_local :: 'l
  th_code :: "('l, 'm, 'o) instr list"
  th_loop :: "('l, 'm, 'o) instr list"
  th_blocked :: bool
  th_children :: "ProcessId list"

record ('l, 'm, 'o) machine =
  mc_mem :: 'm
  mc_out :: "'o list"
  mc_lock :: SpinLock
  mc_sems :: SemaphoreSet
  mc_threads :: "ProcessId \<rightharpoonup> ('l, 'm, 'o) thread"

definition finished :: "('l, 'm, 'o) thread \<Rightarrow> bool" where
  "finished t \<longleftrightarrow> th_code t = [] \<and> th_loop t = [] \<and> \<not> th_blocked t"

definition put_thread :: "ProcessId \<Rightarrow> ('l, 'm, 'o) thread \<Rightarrow> ('l, 'm, 'o) machine \<Rightarrow> ('l, 'm, 'o) machine" where
  "put_thread pid t s = s\<lparr>mc_threads := (mc_threads s)(pid \<mapsto> t)\<rparr>"

definition unblock :: "ProcessId \<Rightarrow> ('l, 'm, 'o) machine \<Rightarrow> ('l, 'm, 'o) machine" where
  "unblock q s = (case mc_threads s q of None \<Rightarrow> s | Some t \<Rightarrow> put_thread q (t\<lparr>th_blocked := False\<rparr>) s)"

definition new_thread :: "'l \<Rightarrow> ('l, 'm, 'o) instr list \<Rightarrow> ('l, 'm, 'o) instr list \<Rightarrow> ('l, 'm, 'o) thread" where
  "new_thread l code lp = \<lparr>th_local = l, th_code = code, th_loop = lp, th_blocked = False, th_children = []\<rparr>"

text \<open>
  One instruction of the process \<open>pid\<close>, whose control block \<open>t\<close> is already behind it. \<open>child\<close> is the
  identifier a fork gets. \<open>None\<close> is an instruction that does not complete now: a spin lock that is
  taken, a process waited for that has not exited, an identifier in use.
\<close>

fun exec_instr :: "ProcessId \<Rightarrow> ProcessId \<Rightarrow> ('l, 'm, 'o) instr \<Rightarrow> ('l, 'm, 'o) thread \<Rightarrow> ('l, 'm, 'o) machine \<Rightarrow>
    ('l, 'm, 'o) machine option" where
  "exec_instr pid child (Do f) t s =
     (let (l, m) = f (th_local t) (mc_mem s) in Some (put_thread pid (t\<lparr>th_local := l\<rparr>) (s\<lparr>mc_mem := m\<rparr>)))"
| "exec_instr pid child (Print f) t s =
     Some (put_thread pid t (s\<lparr>mc_out := mc_out s @ [f (th_local t) (mc_mem s)]\<rparr>))"
| "exec_instr pid child (SemNew k v) t s =
     Some (put_thread pid t (s\<lparr>mc_sems := snd (semset_insert k v (mc_sems s))\<rparr>))"
| "exec_instr pid child (SemRemove k) t s =
     Some (put_thread pid t (s\<lparr>mc_sems := snd (semset_remove k (mc_sems s))\<rparr>))"
| "exec_instr pid child (SemWait k) t s =
     (case semset_wait k pid (mc_sems s) of
        (Block _, ss) \<Rightarrow> Some (put_thread pid (t\<lparr>th_blocked := True\<rparr>) (s\<lparr>mc_sems := ss\<rparr>))
      | (_, ss) \<Rightarrow> Some (put_thread pid t (s\<lparr>mc_sems := ss\<rparr>)))"
| "exec_instr pid child (SemSignal k) t s =
     (case semset_signal k (mc_sems s) of
        (WakeUp q, ss) \<Rightarrow> Some (unblock q (put_thread pid t (s\<lparr>mc_sems := ss\<rparr>)))
      | (_, ss) \<Rightarrow> Some (put_thread pid t (s\<lparr>mc_sems := ss\<rparr>)))"
| "exec_instr pid child Acquire t s =
     map_option (\<lambda>l. put_thread pid t (s\<lparr>mc_lock := l\<rparr>)) (acquire (mc_lock s))"
| "exec_instr pid child Release t s = Some (put_thread pid t (s\<lparr>mc_lock := release (mc_lock s)\<rparr>))"
| "exec_instr pid child (Fork code lp) t s =
     (if mc_threads s child = None
      then Some (put_thread child (new_thread (th_local t) code lp)
                  (put_thread pid (t\<lparr>th_children := th_children t @ [child]\<rparr>) s))
      else None)"
| "exec_instr pid child (Join i) t s =
     (if i < length (th_children t)
      then case mc_threads s (th_children t ! i) of
             None \<Rightarrow> None
           | Some c \<Rightarrow> if finished c then Some (put_thread pid t s) else None
      else None)"

definition exec :: "ProcessId \<Rightarrow> ProcessId \<Rightarrow> ('l, 'm, 'o) machine \<Rightarrow> ('l, 'm, 'o) machine option" where
  "exec pid child s =
     (case mc_threads s pid of
        None \<Rightarrow> None
      | Some t \<Rightarrow>
          if th_blocked t then None
          else case th_code t of
            [] \<Rightarrow> if th_loop t = [] then None else Some (put_thread pid (t\<lparr>th_code := th_loop t\<rparr>) s)
          | i # code \<Rightarrow> exec_instr pid child i (t\<lparr>th_code := code\<rparr>) s)"

text \<open>The scheduler lets any process that can run do the next instruction.\<close>

inductive step :: "('l, 'm, 'o) machine \<Rightarrow> ('l, 'm, 'o) machine \<Rightarrow> bool" where
  "pid \<noteq> child \<Longrightarrow> exec pid child s = Some s' \<Longrightarrow> step s s'"

definition start :: "'l \<Rightarrow> 'm \<Rightarrow> ('l, 'm, 'o) instr list \<Rightarrow> ProcessId \<Rightarrow> ('l, 'm, 'o) machine" where
  "start l m code pid = \<lparr>mc_mem = m, mc_out = [], mc_lock = spinlock_new, mc_sems = semset_new,
     mc_threads = [pid \<mapsto> new_thread l code []]\<rparr>"

section \<open>Effects of the instructions\<close>

definition tokens :: "u32 \<Rightarrow> ('l, 'm, 'o) machine \<Rightarrow> nat" where
  "tokens k s = (case sems (mc_sems s) (SemaphoreId k) of None \<Rightarrow> 0 | Some x \<Rightarrow> sem_count x)"

definition queue :: "u32 \<Rightarrow> ('l, 'm, 'o) machine \<Rightarrow> ProcessId list" where
  "queue k s = (case sems (mc_sems s) (SemaphoreId k) of None \<Rightarrow> [] | Some x \<Rightarrow> wait_queue x)"

definition has_sem :: "u32 \<Rightarrow> ('l, 'm, 'o) machine \<Rightarrow> bool" where
  "has_sem k s \<longleftrightarrow> sems (mc_sems s) (SemaphoreId k) \<noteq> None"

definition set_sem :: "u32 \<Rightarrow> nat \<Rightarrow> ProcessId list \<Rightarrow> ('l, 'm, 'o) machine \<Rightarrow> ('l, 'm, 'o) machine" where
  "set_sem k n q s = s\<lparr>mc_sems := (mc_sems s)\<lparr>sems := (sems (mc_sems s))(SemaphoreId k \<mapsto> \<lparr>sem_count = n, wait_queue = q\<rparr>)\<rparr>\<rparr>"

lemma put_thread_sel [simp]:
  "mc_threads (put_thread pid t s) = (mc_threads s)(pid \<mapsto> t)" "mc_mem (put_thread pid t s) = mc_mem s"
  "mc_out (put_thread pid t s) = mc_out s" "mc_lock (put_thread pid t s) = mc_lock s"
  "mc_sems (put_thread pid t s) = mc_sems s" "tokens k (put_thread pid t s) = tokens k s"
  "queue k (put_thread pid t s) = queue k s" "has_sem k (put_thread pid t s) = has_sem k s"
  by (simp_all add: put_thread_def tokens_def queue_def has_sem_def)

lemma set_sem_sel [simp]:
  "mc_threads (set_sem k n q s) = mc_threads s" "mc_mem (set_sem k n q s) = mc_mem s"
  "mc_out (set_sem k n q s) = mc_out s" "mc_lock (set_sem k n q s) = mc_lock s"
  "tokens j (set_sem k n q s) = (if j = k then n else tokens j s)"
  "queue j (set_sem k n q s) = (if j = k then q else queue j s)" "has_sem j (set_sem k n q s) \<longleftrightarrow> j = k \<or> has_sem j s"
  by (simp_all add: set_sem_def tokens_def queue_def has_sem_def)

lemma machine_update_sel [simp]:
  "tokens k (s\<lparr>mc_mem := m\<rparr>) = tokens k s" "queue k (s\<lparr>mc_mem := m\<rparr>) = queue k s" "has_sem k (s\<lparr>mc_mem := m\<rparr>) = has_sem k s"
  "tokens k (s\<lparr>mc_out := out\<rparr>) = tokens k s" "queue k (s\<lparr>mc_out := out\<rparr>) = queue k s" "has_sem k (s\<lparr>mc_out := out\<rparr>) = has_sem k s"
  "tokens k (s\<lparr>mc_lock := lk\<rparr>) = tokens k s" "queue k (s\<lparr>mc_lock := lk\<rparr>) = queue k s" "has_sem k (s\<lparr>mc_lock := lk\<rparr>) = has_sem k s"
  by (simp_all add: tokens_def queue_def has_sem_def)

text \<open>What a step of a process is, instruction by instruction.\<close>

lemma exec_cases [consumes 1, case_names loop do print new remove wait block signal wake no_sem acquire release fork join]:
  assumes "exec pid child s = Some s'"
  obtains
    t where "mc_threads s pid = Some t" "\<not> th_blocked t" "th_code t = []" "th_loop t \<noteq> []"
      "s' = put_thread pid (t\<lparr>th_code := th_loop t\<rparr>) s"
  | t f c l m where "mc_threads s pid = Some t" "\<not> th_blocked t" "th_code t = Do f # c"
      "f (th_local t) (mc_mem s) = (l, m)" "s' = put_thread pid (t\<lparr>th_code := c, th_local := l\<rparr>) (s\<lparr>mc_mem := m\<rparr>)"
  | t f c where "mc_threads s pid = Some t" "\<not> th_blocked t" "th_code t = Print f # c"
      "s' = put_thread pid (t\<lparr>th_code := c\<rparr>) (s\<lparr>mc_out := mc_out s @ [f (th_local t) (mc_mem s)]\<rparr>)"
  | t k v c where "mc_threads s pid = Some t" "\<not> th_blocked t" "th_code t = SemNew k v # c"
      "s' = put_thread pid (t\<lparr>th_code := c\<rparr>) (set_sem k v [] s)"
  | t k c where "mc_threads s pid = Some t" "\<not> th_blocked t" "th_code t = SemRemove k # c"
      "s' = put_thread pid (t\<lparr>th_code := c\<rparr>) (s\<lparr>mc_sems := snd (semset_remove k (mc_sems s))\<rparr>)"
  | t k c where "mc_threads s pid = Some t" "\<not> th_blocked t" "th_code t = SemWait k # c" "has_sem k s" "0 < tokens k s"
      "s' = put_thread pid (t\<lparr>th_code := c\<rparr>) (set_sem k (tokens k s - 1) (queue k s) s)"
  | t k c where "mc_threads s pid = Some t" "\<not> th_blocked t" "th_code t = SemWait k # c" "has_sem k s" "tokens k s = 0"
      "s' = put_thread pid (t\<lparr>th_code := c, th_blocked := True\<rparr>) (set_sem k 0 (queue k s @ [pid]) s)"
  | t k c where "mc_threads s pid = Some t" "\<not> th_blocked t" "th_code t = SemSignal k # c" "has_sem k s" "queue k s = []"
      "s' = put_thread pid (t\<lparr>th_code := c\<rparr>) (set_sem k (tokens k s + 1) [] s)"
  | t k c q rest where "mc_threads s pid = Some t" "\<not> th_blocked t" "th_code t = SemSignal k # c" "has_sem k s" "queue k s = q # rest"
      "s' = unblock q (put_thread pid (t\<lparr>th_code := c\<rparr>) (set_sem k (tokens k s) rest s))"
  | t k i c where "mc_threads s pid = Some t" "\<not> th_blocked t" "th_code t = i # c" "i = SemWait k \<or> i = SemSignal k" "\<not> has_sem k s"
      "s' = put_thread pid (t\<lparr>th_code := c\<rparr>) s"
  | t c where "mc_threads s pid = Some t" "\<not> th_blocked t" "th_code t = Acquire # c" "\<not> bolt (mc_lock s)"
      "s' = put_thread pid (t\<lparr>th_code := c\<rparr>) (s\<lparr>mc_lock := \<lparr>bolt = True\<rparr>\<rparr>)"
  | t c where "mc_threads s pid = Some t" "\<not> th_blocked t" "th_code t = Release # c"
      "s' = put_thread pid (t\<lparr>th_code := c\<rparr>) (s\<lparr>mc_lock := \<lparr>bolt = False\<rparr>\<rparr>)"
  | t code lp c where "mc_threads s pid = Some t" "\<not> th_blocked t" "th_code t = Fork code lp # c" "mc_threads s child = None"
      "s' = put_thread child (new_thread (th_local t) code lp)
         (put_thread pid (t\<lparr>th_code := c, th_children := th_children t @ [child]\<rparr>) s)"
  | t i c r where "mc_threads s pid = Some t" "\<not> th_blocked t" "th_code t = Join i # c" "i < length (th_children t)"
      "mc_threads s (th_children t ! i) = Some r" "finished r" "s' = put_thread pid (t\<lparr>th_code := c\<rparr>) s"
proof -
  from assms obtain t where t: "mc_threads s pid = Some t" "\<not> th_blocked t"
    by (auto simp: exec_def split: option.splits if_splits)
  show thesis
  proof (cases "th_code t")
    case Nil
    then show thesis using assms t by (intro that(1) [OF t]) (auto simp: exec_def split: if_splits)
  next
    case (Cons i c)
    have run: "exec_instr pid child i (t\<lparr>th_code := c\<rparr>) s = Some s'" using assms t Cons by (simp add: exec_def)
    note defs = semset_insert_def semset_remove_def semset_wait_def semset_signal_def semaphore_wait_def semaphore_signal_def
      semaphore_new_def has_sem_def tokens_def queue_def set_sem_def acquire_def release_def Let_def
    show thesis
    proof (cases i)
      case (Do f)
      obtain l m where "f (th_local t) (mc_mem s) = (l, m)" by fastforce
      then show thesis by (intro that(2) [OF t, of f c l m]) (use Cons run Do in auto)
    next
      case (Print f)
      show thesis by (rule that(3) [OF t]) (use Cons run Print in auto)
    next
      case (SemNew k v)
      show thesis by (rule that(4) [OF t]) (use Cons run SemNew in \<open>auto simp: defs\<close>)
    next
      case (SemRemove k)
      show thesis by (rule that(5) [OF t]) (use Cons run SemRemove in auto)
    next
      case (SemWait k)
      show thesis
      proof (cases "sems (mc_sems s) (SemaphoreId k)")
        case None
        show thesis by (rule that(10) [OF t]) (use Cons run SemWait None in \<open>auto simp: defs\<close>)
      next
        case (Some x)
        obtain n qs where x: "x = \<lparr>sem_count = n, wait_queue = qs\<rparr>" by (cases x)
        show thesis
        proof (cases "n = 0")
          case True
          show thesis by (rule that(7) [OF t]) (use Cons run SemWait Some x True in \<open>auto simp: defs\<close>)
        next
          case False
          show thesis by (rule that(6) [OF t]) (use Cons run SemWait Some x False in \<open>auto simp: defs\<close>)
        qed
      qed
    next
      case (SemSignal k)
      show thesis
      proof (cases "sems (mc_sems s) (SemaphoreId k)")
        case None
        show thesis by (rule that(10) [OF t]) (use Cons run SemSignal None in \<open>auto simp: defs\<close>)
      next
        case (Some x)
        obtain n qs where x: "x = \<lparr>sem_count = n, wait_queue = qs\<rparr>" by (cases x)
        show thesis
        proof (cases qs)
          case Nil
          show thesis by (rule that(8) [OF t]) (use Cons run SemSignal Some x Nil in \<open>auto simp: defs\<close>)
        next
          case (Cons q rest)
          show thesis by (rule that(9) [OF t]) (use \<open>th_code t = i # c\<close> run SemSignal Some x Cons in \<open>auto simp: defs\<close>)
        qed
      qed
    next
      case Acquire
      show thesis by (rule that(11) [OF t]) (use Cons run Acquire in \<open>cases "mc_lock s"; auto simp: defs split: if_splits\<close>)+
    next
      case Release
      show thesis by (rule that(12) [OF t]) (use Cons run Release in \<open>cases "mc_lock s"; auto simp: defs\<close>)+
    next
      case (Fork code lp)
      show thesis by (rule that(13) [OF t]) (use Cons run Fork in \<open>auto split: if_splits\<close>)
    next
      case (Join n)
      show thesis using run Cons Join by (auto split: if_splits option.splits intro: that(14) [OF t])
    qed
  qed
qed

section \<open>Who waits where\<close>

definition next_instr :: "ProcessId \<Rightarrow> ('l, 'm, 'o) machine \<Rightarrow> ('l, 'm, 'o) instr option" where
  "next_instr pid s = (case mc_threads s pid of
     Some t \<Rightarrow> (case th_code t of i # _ \<Rightarrow> Some i | [] \<Rightarrow> None) | None \<Rightarrow> None)"

definition is_blocked :: "ProcessId \<Rightarrow> ('l, 'm, 'o) machine \<Rightarrow> bool" where
  "is_blocked p s \<longleftrightarrow> (\<exists>t. mc_threads s p = Some t \<and> th_blocked t)"

definition queues_wf :: "('l, 'm, 'o) machine \<Rightarrow> bool" where
  "queues_wf s \<longleftrightarrow> finite (dom (mc_threads s)) \<and>
     (\<forall>k. distinct (queue k s) \<and> (tokens k s = 0 \<or> queue k s = [])) \<and>
     (\<forall>p. is_blocked p s \<longleftrightarrow> (\<exists>k. p \<in> set (queue k s))) \<and>
     (\<forall>j k p. p \<in> set (queue j s) \<longrightarrow> p \<in> set (queue k s) \<longrightarrow> j = k)"

text \<open>A semaphore is made once and removed only when nobody waits for it.\<close>

definition sem_life_ok :: "ProcessId \<Rightarrow> ('l, 'm, 'o) machine \<Rightarrow> bool" where
  "sem_life_ok pid s \<longleftrightarrow> (\<forall>k. (\<exists>v. next_instr pid s = Some (SemNew k v)) \<longrightarrow> \<not> has_sem k s) \<and>
     (\<forall>k. next_instr pid s = Some (SemRemove k) \<longrightarrow> queue k s = [])"

lemma unblock_sel [simp]:
  "mc_mem (unblock q s) = mc_mem s" "mc_out (unblock q s) = mc_out s" "mc_lock (unblock q s) = mc_lock s"
  "tokens k (unblock q s) = tokens k s" "queue k (unblock q s) = queue k s" "has_sem k (unblock q s) = has_sem k s"
  "mc_threads (unblock q s) p = (if p = q then map_option (\<lambda>t. t\<lparr>th_blocked := False\<rparr>) (mc_threads s q) else mc_threads s p)"
  "dom (mc_threads (unblock q s)) = dom (mc_threads s)"
  by (auto simp: unblock_def split: option.splits)

lemma no_sem [simp]: "\<not> has_sem k s \<Longrightarrow> queue k s = []" "\<not> has_sem k s \<Longrightarrow> tokens k s = 0"
  by (simp_all add: has_sem_def queue_def tokens_def)

lemma semset_remove_sel [simp]:
  "queue j (s\<lparr>mc_sems := snd (semset_remove k (mc_sems s))\<rparr>) = (if j = k then [] else queue j s)"
  "tokens j (s\<lparr>mc_sems := snd (semset_remove k (mc_sems s))\<rparr>) = (if j = k then 0 else tokens j s)"
  "has_sem j (s\<lparr>mc_sems := snd (semset_remove k (mc_sems s))\<rparr>) \<longleftrightarrow> j \<noteq> k \<and> has_sem j s"
  by (auto simp: semset_remove_def queue_def tokens_def has_sem_def Let_def)

lemma queues_wfD:
  assumes "queues_wf s"
  shows "finite (dom (mc_threads s))" "tokens k s = 0 \<or> queue k s = []" "distinct (queue k s)"
    "p \<in> set (queue k s) \<Longrightarrow> is_blocked p s" "is_blocked p s \<Longrightarrow> \<exists>k. p \<in> set (queue k s)"
    "p \<in> set (queue j s) \<Longrightarrow> p \<in> set (queue k s) \<Longrightarrow> j = k"
  using assms unfolding queues_wf_def by blast+

lemma queues_wf_simple:
  assumes "queues_wf s" "\<And>k. queue k s' = queue k s" "\<And>k. tokens k s' = 0 \<or> queue k s = []"
    "\<And>p. is_blocked p s' \<longleftrightarrow> is_blocked p s" "finite (dom (mc_threads s'))"
  shows "queues_wf s'"
  using assms by (simp add: queues_wf_def)

lemma queues_wf_same:
  assumes "queues_wf s" "\<And>k. queue k s' = queue k s" "\<And>k. tokens k s' = tokens k s"
    "\<And>p. is_blocked p s' \<longleftrightarrow> is_blocked p s" "finite (dom (mc_threads s'))"
  shows "queues_wf s'"
  using assms by (simp add: queues_wf_def)

lemma queues_wf_exec:
  assumes "exec pid child s = Some s'" "queues_wf s" "sem_life_ok pid s"
  shows "queues_wf s'"
  using assms(1)
proof (cases rule: exec_cases)
  case (new t k v c)
  then have "\<not> has_sem k s" using assms(3) by (auto simp: sem_life_ok_def next_instr_def)
  then show ?thesis using new queues_wfD(1,2) [OF assms(2)] by (intro queues_wf_simple [OF assms(2)]) (auto simp: is_blocked_def)
next
  case (remove t k c)
  then have "queue k s = []" using assms(3) by (auto simp: sem_life_ok_def next_instr_def)
  then show ?thesis using remove queues_wfD(1,2) [OF assms(2)] by (intro queues_wf_simple [OF assms(2)]) (auto simp: is_blocked_def)
next
  case (block t k c)
  have nq: "pid \<notin> set (queue j s)" for j using block(1,2) queues_wfD(4) [OF assms(2), of pid j] by (auto simp: is_blocked_def)
  have "is_blocked p s' \<longleftrightarrow> p = pid \<or> is_blocked p s" for p using block by (auto simp: is_blocked_def)
  moreover have "queue j s' = (if j = k then queue k s @ [pid] else queue j s)" "tokens j s' = tokens j s" for j using block by simp_all
  moreover have "finite (dom (mc_threads s'))" using block queues_wfD(1) [OF assms(2)] by simp
  ultimately show ?thesis
    using queues_wfD(2-6) [OF assms(2)] nq block(5) unfolding queues_wf_def by (auto split: if_splits) metis+
next
  case (wake t k c q rest)
  have q: "is_blocked q s" "q \<noteq> pid" using wake(1,2,5) queues_wfD(4) [OF assms(2), of q k] by (auto simp: is_blocked_def)
  have nq: "q \<in> set (queue j s) \<Longrightarrow> j = k" for j using wake(5) queues_wfD(6) [OF assms(2), of q j k] by simp
  have d: "q \<notin> set rest" "distinct rest" "tokens k s = 0" using wake(5) queues_wfD(2,3) [OF assms(2), of k] by auto
  have bl: "is_blocked p s' \<longleftrightarrow> p \<noteq> q \<and> is_blocked p s" for p using wake q by (auto simp: is_blocked_def)
  have qs: "queue j s' = (if j = k then rest else queue j s)" and ts: "tokens j s' = tokens j s" for j using wake by simp_all
  have fin: "finite (dom (mc_threads s'))" using wake queues_wfD(1) [OF assms(2)] by simp
  have old: "p \<in> set (queue j s') \<longleftrightarrow> p \<noteq> q \<and> p \<in> set (queue j s)" for p j
    using wake(5) d(1) nq by (cases "j = k") (auto simp: qs)
  show ?thesis
    unfolding queues_wf_def
  proof (intro conjI allI impI)
    show "distinct (queue j s')" for j using d(2) queues_wfD(3) [OF assms(2)] by (simp add: qs)
    show "tokens j s' = 0 \<or> queue j s' = []" for j using d(3) queues_wfD(2) [OF assms(2), of j] by (auto simp: qs ts)
    show "is_blocked p s' = (\<exists>j. p \<in> set (queue j s'))" for p
      unfolding bl old using queues_wfD(4,5) [OF assms(2), of p] by blast
    show "i = j" if "p \<in> set (queue i s')" "p \<in> set (queue j s')" for i j p
      using that queues_wfD(6) [OF assms(2), of p i j] unfolding old by blast
  qed (rule fin)
next
  case (wait t k c)
  have "tokens j s' = 0 \<or> queue j s = []" for j using wait(5,6) queues_wfD(2) [OF assms(2), of j] by auto
  then show ?thesis using wait queues_wfD(1) [OF assms(2)] by (intro queues_wf_simple [OF assms(2)]) (auto simp: is_blocked_def)
next
  case (signal t k c)
  have "tokens j s' = 0 \<or> queue j s = []" for j using signal(5,6) queues_wfD(2) [OF assms(2), of j] by auto
  then show ?thesis using signal queues_wfD(1) [OF assms(2)] by (intro queues_wf_simple [OF assms(2)]) (auto simp: is_blocked_def)
qed (use queues_wfD(1) [OF assms(2)] in \<open>intro queues_wf_same [OF assms(2)]; auto simp: is_blocked_def new_thread_def split: if_splits\<close>)+

section \<open>The balance of waits and signals\<close>

definition total_of :: "(('l, 'm, 'o) thread \<Rightarrow> int) \<Rightarrow> ('l, 'm, 'o) machine \<Rightarrow> int" where
  "total_of w s = (\<Sum>p \<in> dom (mc_threads s). w (the (mc_threads s p)))"

lemma total_of_cong: "mc_threads s' = mc_threads s \<Longrightarrow> total_of w s' = total_of w s"
  by (simp add: total_of_def)

lemma total_put:
  assumes "finite (dom (mc_threads s))" "mc_threads s p = Some t"
  shows "total_of w (put_thread p t' s) = total_of w s - w t + w t'"
proof -
  have "total_of w s = w t + (\<Sum>q \<in> dom (mc_threads s) - {p}. w (the (mc_threads s q)))"
    unfolding total_of_def using assms by (subst sum.remove [of _ p]) auto
  moreover have "total_of w (put_thread p t' s) = w t' + (\<Sum>q \<in> dom (mc_threads s) - {p}. w (the (mc_threads s q)))"
    unfolding total_of_def using assms by (subst sum.remove [of _ p]) (auto intro!: sum.cong)
  ultimately show ?thesis by simp
qed

lemma total_new:
  assumes "finite (dom (mc_threads s))" "mc_threads s p = None"
  shows "total_of w (put_thread p t s) = total_of w s + w t"
proof -
  have "total_of w (put_thread p t s) = w t + (\<Sum>q \<in> dom (mc_threads s). w (the (((mc_threads s)(p \<mapsto> t)) q)))"
    unfolding total_of_def using assms by (simp add: domIff)
  also have "(\<Sum>q \<in> dom (mc_threads s). w (the (((mc_threads s)(p \<mapsto> t)) q))) = total_of w s"
    unfolding total_of_def using assms by (intro sum.cong) auto
  finally show ?thesis by simp
qed

lemma total_unblock:
  assumes "finite (dom (mc_threads s))" "\<And>t. w (t\<lparr>th_blocked := False\<rparr>) = w t"
  shows "total_of w (unblock q s) = total_of w s"
  using assms by (auto simp: unblock_def total_put split: option.splits)

text \<open>The signals less the waits on semaphore \<open>k\<close> that code will do, that of the processes it forks included.\<close>

primrec net1 :: "u32 \<Rightarrow> ('l, 'm, 'o) instr \<Rightarrow> int" where
  "net1 k (Do f) = 0"
| "net1 k (Print f) = 0"
| "net1 k (SemNew j v) = 0"
| "net1 k (SemRemove j) = 0"
| "net1 k (SemWait j) = (if j = k then -1 else 0)"
| "net1 k (SemSignal j) = (if j = k then 1 else 0)"
| "net1 k Acquire = 0"
| "net1 k Release = 0"
| "net1 k (Fork c l) = sum_list (map (net1 k) c)"
| "net1 k (Join i) = 0"

definition net :: "u32 \<Rightarrow> ('l, 'm, 'o) instr list \<Rightarrow> int" where
  "net k c = sum_list (map (net1 k) c)"

lemma net_simps [simp]: "net k [] = 0" "net k (i # c) = net1 k i + net k c" "net k (c @ d) = net k c + net k d"
    "net1 k (Fork c l) = net k c" "net k (concat cs) = sum_list (map (net k) cs)"
    "net k (replicate n i) = int n * net1 k i"
  by (simp_all add: net_def sum_list_replicate) (induction cs, simp_all add: net_def)

declare net1.simps(9) [simp del]

definition balance :: "u32 \<Rightarrow> ('l, 'm, 'o) machine \<Rightarrow> int" where
  "balance k s = int (tokens k s) - int (length (queue k s)) + total_of (\<lambda>t. net k (th_code t)) s"

text \<open>A program changes no balance, provided that what it repeats for ever is balanced.\<close>

lemma balance_exec:
  assumes "exec pid child s = Some s'" "pid \<noteq> child" "queues_wf s" "has_sem k s"
    and "\<forall>t. mc_threads s pid = Some t \<longrightarrow> net k (th_loop t) = 0"
    and "\<forall>v. next_instr pid s \<noteq> Some (SemNew k v)" "next_instr pid s \<noteq> Some (SemRemove k)"
  shows "balance k s' = balance k s"
proof -
  note fin = queues_wfD(1) [OF assms(3)]
  let ?w = "\<lambda>t. net k (th_code t)"
  have put: "total_of ?w (put_thread pid t' (f s)) = total_of ?w s - ?w t + ?w t'"
    if "mc_threads s pid = Some t" "mc_threads (f s) = mc_threads s" for t t' f
    using total_put [of "f s" pid t ?w t'] total_of_cong [of "f s" s] that fin by simp
  show ?thesis
    using assms(1)
  proof (cases rule: exec_cases)
    case (loop t)
    then show ?thesis using put [of t id] assms(5) by (simp add: balance_def)
  next
    case (do t f c l m)
    then show ?thesis using put [of t "\<lambda>s. s\<lparr>mc_mem := m\<rparr>"] by (simp add: balance_def)
  next
    case (print t f c)
    then show ?thesis using put [of t "\<lambda>s. s\<lparr>mc_out := mc_out s @ [f (th_local t) (mc_mem s)]\<rparr>"] by (simp add: balance_def)
  next
    case (new t j v c)
    then have "j \<noteq> k" using assms(6) by (auto simp: next_instr_def)
    then show ?thesis using new put [of t "set_sem j v []"] by (simp add: balance_def)
  next
    case (remove t j c)
    then have "j \<noteq> k" using assms(7) by (auto simp: next_instr_def)
    then show ?thesis using remove put [of t "\<lambda>s. s\<lparr>mc_sems := snd (semset_remove j (mc_sems s))\<rparr>"] by (simp add: balance_def)
  next
    case (wait t j c)
    then show ?thesis using put [of t "\<lambda>s. set_sem j (tokens j s - 1) (queue j s) s"] by (auto simp: balance_def)
  next
    case (block t j c)
    then show ?thesis using put [of t "\<lambda>s. set_sem j 0 (queue j s @ [pid]) s"] by (auto simp: balance_def)
  next
    case (signal t j c)
    then show ?thesis using put [of t "\<lambda>s. set_sem j (tokens j s + 1) [] s"] by (auto simp: balance_def)
  next
    case (wake t j c q rest)
    then show ?thesis using put [of t "\<lambda>s. set_sem j (tokens j s) rest s"] fin by (auto simp: balance_def total_unblock)
  next
    case (no_sem t j i c)
    then have "j \<noteq> k" using assms(4) by auto
    then show ?thesis using no_sem put [of t id] by (auto simp: balance_def)
  next
    case (acquire t c)
    then show ?thesis using put [of t "\<lambda>s. s\<lparr>mc_lock := \<lparr>bolt = True\<rparr>\<rparr>"] by (simp add: balance_def)
  next
    case (release t c)
    then show ?thesis using put [of t "\<lambda>s. s\<lparr>mc_lock := \<lparr>bolt = False\<rparr>\<rparr>"] by (simp add: balance_def)
  next
    case (fork t code lp c)
    let ?s = "put_thread pid (t\<lparr>th_code := c, th_children := th_children t @ [child]\<rparr>) s"
    have "mc_threads ?s child = None" "finite (dom (mc_threads ?s))" using fork(4) assms(2) fin by auto
    then have "total_of ?w s' = total_of ?w ?s + net k code" using total_new [of ?s child ?w] fork(5) by (simp add: new_thread_def)
    then show ?thesis using fork put [of t id "t\<lparr>th_code := c, th_children := th_children t @ [child]\<rparr>"] by (simp add: balance_def)
  next
    case (join t i c r)
    then show ?thesis using put [of t id] by (simp add: balance_def)
  qed
qed

section \<open>What a step leaves alone\<close>

lemma exec_thread:
  assumes "exec pid child s = Some s'"
  shows "\<exists>t. mc_threads s pid = Some t \<and> \<not> th_blocked t"
  using assms by (auto simp: exec_def split: option.splits if_splits)

lemma exec_others:
  assumes "exec pid child s = Some s'" "q \<noteq> pid" "mc_threads s q = Some t"
  shows "\<exists>b. mc_threads s' q = Some (t\<lparr>th_blocked := b\<rparr>) \<and> (b \<longrightarrow> th_blocked t)"
  using assms(1)
proof (cases rule: exec_cases)
  case (wake u k c r rest)
  then show ?thesis using assms(2,3) by (cases "q = r") (auto intro: exI [of _ "th_blocked t"])
qed (use assms(2,3) in \<open>auto intro: exI [of _ "th_blocked t"]\<close>)

lemma exec_none:
  assumes "exec pid child s = Some s'" "mc_threads s q = None" "mc_threads s' q = Some t"
  shows "q = child \<and> (\<exists>u code lp c. mc_threads s pid = Some u \<and> th_code u = Fork code lp # c \<and> t = new_thread (th_local u) code lp)"
  using assms(1)
proof (cases rule: exec_cases)
  case (wake u k c r rest)
  then show ?thesis using assms(2,3) by (auto split: if_splits)
qed (use assms(2,3) in \<open>auto split: if_splits\<close>)

lemma exec_mem:
  assumes "exec pid child s = Some s'" "\<forall>f. next_instr pid s \<noteq> Some (Do f)"
  shows "mc_mem s' = mc_mem s"
  using assms by (cases rule: exec_cases) (auto simp: next_instr_def)

lemma exec_self:
  assumes "exec pid child s = Some s'" "pid \<noteq> child" "mc_threads s pid = Some t"
  shows "\<exists>t'. mc_threads s' pid = Some t' \<and> th_loop t' = th_loop t \<and>
    (case th_code t of [] \<Rightarrow> th_code t' = th_loop t | i # c \<Rightarrow> th_code t' = c \<and> (th_blocked t' \<longrightarrow> (\<exists>k. i = SemWait k))) \<and>
    ((\<forall>f. next_instr pid s \<noteq> Some (Do f)) \<longrightarrow> th_local t' = th_local t)"
  using assms(1)
proof (cases rule: exec_cases)
  case (wake u k c r rest)
  then show ?thesis using assms(2,3) by (cases "pid = r") (auto simp: next_instr_def)
qed (use assms(2,3) in \<open>auto simp: next_instr_def\<close>)

end
