(* ===== verification/User_Mutex.thy ===== *)
theory User_Mutex
  imports User_Threads
begin

text \<open>
  Critical sections of user programs. A section is entered by one instruction and left by another, and
  only inside sections does a program touch the shared memory. The locale \<open>exclusion\<close> is the
  contract of a lock: at most one process is in a section. Its client lemma says that every section
  takes effect at once, when it is entered. Semaphores with one token and the spin lock of
  \<open>pkg/lib/src/sync.rs\<close> both keep the contract.
\<close>

section \<open>Code with sections\<close>

fun in_section :: "('i \<Rightarrow> bool) \<Rightarrow> ('i \<Rightarrow> bool) \<Rightarrow> 'i list \<Rightarrow> bool" where
  "in_section en lv [] = False"
| "in_section en lv (i # c) = (if lv i then True else if en i then False else in_section en lv c)"

fun bracketed :: "(('l, 'm, 'o) instr \<Rightarrow> bool) \<Rightarrow> (('l, 'm, 'o) instr \<Rightarrow> bool) \<Rightarrow> bool \<Rightarrow> ('l, 'm, 'o) instr list \<Rightarrow> bool" where
  "bracketed en lv b [] = (\<not> b)"
| "bracketed en lv b (i # c) =
     (if lv i then b \<and> bracketed en lv False c
      else if en i then \<not> b \<and> bracketed en lv True c
      else case i of
          Do f \<Rightarrow> b \<and> bracketed en lv b c
        | Fork code lp \<Rightarrow> \<not> b \<and> bracketed en lv False code \<and> bracketed en lv False lp \<and> bracketed en lv b c
        | _ \<Rightarrow> \<not> b \<and> bracketed en lv b c)"

lemma bracketed_in_section: "bracketed en lv b c \<Longrightarrow> in_section en lv c = b"
proof (induction c arbitrary: b)
  case (Cons i c)
  then show ?case by (cases i) (auto split: if_splits)
qed simp

lemma bracketed_append: "bracketed en lv b c \<Longrightarrow> bracketed en lv False d \<Longrightarrow> bracketed en lv b (c @ d)"
proof (induction c arbitrary: b)
  case (Cons i c)
  then show ?case by (cases i) (auto split: if_splits)
qed simp

lemma bracketed_replicate: "bracketed en lv False c \<Longrightarrow> bracketed en lv False (concat (replicate n c))"
  by (induction n) (simp_all add: bracketed_append)

fun run_body :: "('l, 'm, 'o) instr list \<Rightarrow> 'l \<times> 'm \<Rightarrow> 'l \<times> 'm" where
  "run_body [] x = x"
| "run_body (i # c) x = run_body c (case i of Do f \<Rightarrow> f (fst x) (snd x) | _ \<Rightarrow> x)"

definition section_body :: "('i \<Rightarrow> bool) \<Rightarrow> 'i list \<Rightarrow> 'i list" where
  "section_body lv c = takeWhile (\<lambda>i. \<not> lv i) c"

definition inside :: "(('l, 'm, 'o) instr \<Rightarrow> bool) \<Rightarrow> (('l, 'm, 'o) instr \<Rightarrow> bool) \<Rightarrow> ('l, 'm, 'o) machine \<Rightarrow> ProcessId \<Rightarrow> bool" where
  "inside en lv s p \<longleftrightarrow> (\<exists>t. mc_threads s p = Some t \<and> \<not> th_blocked t \<and> in_section en lv (th_code t))"

definition sections_ok :: "(('l, 'm, 'o) instr \<Rightarrow> bool) \<Rightarrow> (('l, 'm, 'o) instr \<Rightarrow> bool) \<Rightarrow> ('l, 'm, 'o) machine \<Rightarrow> bool" where
  "sections_ok en lv s \<longleftrightarrow> (\<forall>p t. mc_threads s p = Some t \<longrightarrow>
     bracketed en lv (in_section en lv (th_code t)) (th_code t) \<and> bracketed en lv False (th_loop t))"

lemma sections_okD:
  assumes "sections_ok en lv s" "mc_threads s p = Some t"
  shows "bracketed en lv (in_section en lv (th_code t)) (th_code t)" "bracketed en lv False (th_loop t)"
  using assms unfolding sections_ok_def by blast+

lemma bracketed_tl:
  "bracketed en lv b (i # c) \<Longrightarrow> \<exists>b'. bracketed en lv b' c"
  by (cases i) (auto split: if_splits)

lemma bracketed_Fork:
  assumes "bracketed en lv b (Fork code lp # c)" "\<not> en (Fork code lp)" "\<not> lv (Fork code lp)"
  shows "bracketed en lv False code" "bracketed en lv False lp"
  using assms by simp_all

lemma sections_ok_exec:
  assumes "exec pid child s = Some s'" "pid \<noteq> child" "sections_ok en lv s"
    and "\<And>code lp. \<not> en (Fork code lp) \<and> \<not> lv (Fork code lp)"
  shows "sections_ok en lv s'"
  unfolding sections_ok_def
proof (intro allI impI)
  fix p t'
  assume t': "mc_threads s' p = Some t'"
  obtain t where t: "mc_threads s pid = Some t" using exec_thread [OF assms(1)] by blast
  note br = sections_okD [OF assms(3) t]
  consider (self) "p = pid" | (other) u where "p \<noteq> pid" "mc_threads s p = Some u" | (new) "mc_threads s p = None" by blast
  then show "bracketed en lv (in_section en lv (th_code t')) (th_code t') \<and> bracketed en lv False (th_loop t')"
  proof cases
    case self
    from exec_self [OF assms(1,2) t] t' self
    have c: "th_loop t' = th_loop t" "th_code t = [] \<Longrightarrow> th_code t' = th_loop t" "th_code t = i # c \<Longrightarrow> th_code t' = c" for i c by auto
    obtain b where b: "bracketed en lv b (th_code t')"
    proof (cases "th_code t")
      case Nil
      then show thesis using that c br by simp
    next
      case (Cons i c')
      then show thesis using that c br(1) bracketed_tl [of en lv _ i c'] by auto
    qed
    then show ?thesis using bracketed_in_section [OF b] c br(2) by simp
  next
    case (other u)
    then show ?thesis using exec_others [OF assms(1) other] t' assms(3) by (auto simp: sections_ok_def)
  next
    case new
    then obtain u code lp c where u: "mc_threads s pid = Some u" "th_code u = Fork code lp # c" "t' = new_thread (th_local u) code lp"
      using exec_none [OF assms(1) new t'] by blast
    have "bracketed en lv (in_section en lv (th_code t)) (Fork code lp # c)" using br(1) t u(1,2) by simp
    then have "bracketed en lv False code" "bracketed en lv False lp"
      using assms(4) [of code lp] by (blast dest: bracketed_Fork)+
    then show ?thesis using u(3) bracketed_in_section [of en lv False code] by (simp add: new_thread_def)
  qed
qed

section \<open>The contract of a lock\<close>

text \<open>The shared memory as it will be when the process in the section, if there is one, leaves it.\<close>

definition commits :: "(('l, 'm, 'o) instr \<Rightarrow> bool) \<Rightarrow> (('l, 'm, 'o) instr \<Rightarrow> bool) \<Rightarrow> ('l, 'm, 'o) machine \<Rightarrow> 'm \<Rightarrow> bool" where
  "commits en lv s m \<longleftrightarrow>
     (\<exists>p t. inside en lv s p \<and> mc_threads s p = Some t \<and> m = snd (run_body (section_body lv (th_code t)) (th_local t, mc_mem s))) \<or>
     ((\<forall>p. \<not> inside en lv s p) \<and> m = mc_mem s)"

lemma commits_alone:
  assumes "commits en lv s m" "\<And>p. \<not> inside en lv s p"
  shows "m = mc_mem s"
  using assms by (auto simp: commits_def)

lemma inside_other:
  assumes "exec pid child s = Some s'" "inside en lv s q" "q \<noteq> pid"
  shows "inside en lv s' q \<and> mc_threads s' q = mc_threads s q"
proof -
  obtain t where t: "mc_threads s q = Some t" "\<not> th_blocked t" "in_section en lv (th_code t)" using assms(2) by (auto simp: inside_def)
  obtain b where b: "mc_threads s' q = Some (t\<lparr>th_blocked := b\<rparr>)" "b \<longrightarrow> th_blocked t" using exec_others [OF assms(1,3) t(1)] by blast
  then have "t\<lparr>th_blocked := b\<rparr> = t" using t(2) by simp
  then show ?thesis using b(1) t by (auto simp: inside_def)
qed

locale exclusion =
  fixes en lv :: "('l, 'm, 'o) instr \<Rightarrow> bool" and inv :: "('l, 'm, 'o) machine \<Rightarrow> bool"
  assumes inv_sections: "inv s \<Longrightarrow> sections_ok en lv s"
    and inv_alone: "inv s \<Longrightarrow> inside en lv s p \<Longrightarrow> inside en lv s q \<Longrightarrow> p = q"
    and no_do: "\<not> en (Do f) \<and> \<not> lv (Do f)"
begin

lemma leaving:
  assumes "exec pid child s = Some s'" "pid \<noteq> child" "inv s" "inside en lv s pid" "mc_threads s pid = Some t"
    and "\<forall>f. next_instr pid s \<noteq> Some (Do f)"
  shows "section_body lv (th_code t) = [] \<and> \<not> inside en lv s' pid"
proof -
  have "bracketed en lv (in_section en lv (th_code t)) (th_code t)" "in_section en lv (th_code t)"
    using assms(4,5) sections_okD(1) [OF inv_sections [OF assms(3)] assms(5)] by (auto simp: inside_def)
  then have br: "bracketed en lv True (th_code t)" by simp
  then obtain i c where ic: "th_code t = i # c" by (cases "th_code t") auto
  have "lv i" using br assms(5,6) ic by (cases i) (auto simp: next_instr_def split: if_splits)
  moreover from this have "bracketed en lv False c" using br ic by simp
  then have "\<not> in_section en lv c" by (simp add: bracketed_in_section)
  moreover obtain t' where "mc_threads s' pid = Some t'" "th_code t' = c" using exec_self [OF assms(1,2,5)] ic by auto
  ultimately show ?thesis using ic by (simp add: section_body_def inside_def)
qed

text \<open>
  A step either enters nobody, and then the memory to come is the same; or it enters one process,
  and then the body of its section is applied to it.
\<close>

lemma commit_step:
  assumes "exec pid child s = Some s'" "pid \<noteq> child" "inv s" "inv s'" "commits en lv s m"
  shows "(\<forall>p. inside en lv s' p \<longrightarrow> inside en lv s p) \<and> commits en lv s' m \<or>
    (\<exists>p t. \<not> inside en lv s p \<and> inside en lv s' p \<and> mc_threads s' p = Some t \<and>
       commits en lv s' (snd (run_body (section_body lv (th_code t)) (th_local t, m))))"
proof (cases "inside en lv s pid \<and> (\<exists>f. next_instr pid s = Some (Do f))")
  case True
  then obtain f t c where t: "mc_threads s pid = Some t" "\<not> th_blocked t" "in_section en lv (th_code t)" "th_code t = Do f # c"
    by (auto simp: inside_def next_instr_def split: list.splits)
  have m: "m = snd (run_body (section_body lv (th_code t)) (th_local t, mc_mem s))"
    using assms(5) True t(1) inv_alone [OF assms(3)] by (auto simp: commits_def) (metis option.inject)
  obtain l m' where f: "f (th_local t) (mc_mem s) = (l, m')" by fastforce
  have s': "mc_threads s' pid = Some (t\<lparr>th_code := c, th_local := l\<rparr>)" "mc_mem s' = m'"
    using assms(1) t f by (auto simp: exec_def)
  have ins: "inside en lv s' pid" using s' t no_do [of f] by (auto simp: inside_def)
  moreover have "m = snd (run_body (section_body lv c) (l, m'))" using m t(4) f no_do [of f] by (simp add: section_body_def)
  ultimately have "commits en lv s' m" using s' by (auto simp: commits_def)
  moreover have "p = pid" if "inside en lv s' p" for p using that ins inv_alone [OF assms(4)] by blast
  ultimately show ?thesis using True by blast
next
  case False
  have mem: "mc_mem s' = mc_mem s"
  proof (cases "\<exists>f. next_instr pid s = Some (Do f)")
    case True
    then obtain f t c where t: "mc_threads s pid = Some t" "\<not> th_blocked t" "th_code t = Do f # c"
      using exec_thread [OF assms(1)] by (auto simp: next_instr_def split: list.splits)
    then have "in_section en lv (th_code t)" using sections_okD(1) [OF inv_sections [OF assms(3)] t(1)] no_do [of f] by auto
    then show ?thesis using False True t by (auto simp: inside_def)
  qed (auto intro: exec_mem [OF assms(1)])
  have settled: "m = mc_mem s" if "\<forall>q. inside en lv s q \<longrightarrow> q = pid"
  proof (cases "inside en lv s pid")
    case True
    then obtain t where t: "mc_threads s pid = Some t" by (auto simp: inside_def)
    then have "section_body lv (th_code t) = []" using leaving [OF assms(1-3) True t] False True by blast
    moreover obtain p u where "inside en lv s p" "mc_threads s p = Some u"
        "m = snd (run_body (section_body lv (th_code u)) (th_local u, mc_mem s))"
      using assms(5) True unfolding commits_def by blast
    ultimately show ?thesis using that t by (metis option.inject run_body.simps(1) snd_conv)
  qed (use assms(5) that in \<open>auto simp: commits_def\<close>)
  have keep: "q \<noteq> pid \<Longrightarrow> inside en lv s q \<Longrightarrow> inside en lv s' q \<and> mc_threads s' q = mc_threads s q" for q
    using inside_other [OF assms(1)] by blast
  show ?thesis
  proof (cases "\<exists>p. inside en lv s' p")
    case none: False
    then have "commits en lv s' m" using settled keep mem by (auto simp: commits_def)
    then show ?thesis using none by blast
  next
    case True
    then obtain p t where p: "inside en lv s' p" "mc_threads s' p = Some t" by (auto simp: inside_def)
    have alone: "q = p" if "inside en lv s' q" for q using that p(1) inv_alone [OF assms(4)] by blast
    show ?thesis
    proof (cases "inside en lv s p")
      case True
      then have "p \<noteq> pid" using leaving [OF assms(1-3)] False p(1) by (auto simp: inside_def)
      then have "mc_threads s p = Some t" using keep [OF _ True] p(2) by simp
      then have "m = snd (run_body (section_body lv (th_code t)) (th_local t, mc_mem s))"
        using assms(5) True inv_alone [OF assms(3) True] unfolding commits_def by (metis option.inject)
      then have "commits en lv s' m" using p mem unfolding commits_def by metis
      then show ?thesis using alone True by blast
    next
      case out: False
      have "m = mc_mem s" using settled keep alone out by metis
      then have "commits en lv s' (snd (run_body (section_body lv (th_code t)) (th_local t, m)))"
        using p mem unfolding commits_def by metis
      then show ?thesis using out p by blast
    qed
  qed
qed

end

section \<open>Semaphores as locks\<close>

fun is_wait :: "u32 \<Rightarrow> ('l, 'm, 'o) instr \<Rightarrow> bool" where
  "is_wait k (SemWait j) = (j = k)"
| "is_wait k _ = False"

fun is_signal :: "u32 \<Rightarrow> ('l, 'm, 'o) instr \<Rightarrow> bool" where
  "is_signal k (SemSignal j) = (j = k)"
| "is_signal k _ = False"

abbreviation sem_section :: "u32 \<Rightarrow> ('l, 'm, 'o) instr list \<Rightarrow> bool" where
  "sem_section k \<equiv> in_section (is_wait k) (is_signal k)"

lemma bracketed_net: "bracketed (is_wait k) (is_signal k) b c \<Longrightarrow> net k c = (if b then 1 else 0)"
proof (induction "is_wait k :: ('a, 'b, 'c) instr \<Rightarrow> bool" "is_signal k :: ('a, 'b, 'c) instr \<Rightarrow> bool" b c rule: bracketed.induct)
  case (2 b i c)
  then show ?case by (cases i) (auto split: if_splits)
qed simp

definition waiting :: "u32 \<Rightarrow> ('l, 'm, 'o) machine \<Rightarrow> ProcessId \<Rightarrow> bool" where
  "waiting k s p \<longleftrightarrow> (\<exists>t. mc_threads s p = Some t \<and> th_blocked t \<and> sem_section k (th_code t))"

lemma waiting_simps [simp]:
  "waiting k (put_thread q t s) p = (if p = q then th_blocked t \<and> sem_section k (th_code t) else waiting k s p)"
  "waiting k (set_sem j n qs s) p = waiting k s p" "waiting k (unblock r s) p = (p \<noteq> r \<and> waiting k s p)"
  "waiting k (s\<lparr>mc_mem := m\<rparr>) p = waiting k s p" "waiting k (s\<lparr>mc_out := out\<rparr>) p = waiting k s p"
  "waiting k (s\<lparr>mc_lock := lk\<rparr>) p = waiting k s p" "waiting k (s\<lparr>mc_sems := ss\<rparr>) p = waiting k s p"
  by (auto simp: waiting_def)

definition sem_mutex :: "u32 \<Rightarrow> ('l, 'm, 'o) machine \<Rightarrow> bool" where
  "sem_mutex k s \<longleftrightarrow> queues_wf s \<and> has_sem k s \<and> sections_ok (is_wait k) (is_signal k) s \<and> balance k s = 1 \<and>
     (\<forall>p. p \<in> set (queue k s) \<longleftrightarrow> waiting k s p)"

lemma total_net:
  assumes "queues_wf s" "sections_ok (is_wait k) (is_signal k) s"
  shows "total_of (\<lambda>t. net k (th_code t)) s = int (card {p. \<exists>t. mc_threads s p = Some t \<and> sem_section k (th_code t)})"
proof -
  let ?A = "{p. \<exists>t. mc_threads s p = Some t \<and> sem_section k (th_code t)}"
  have "total_of (\<lambda>t. net k (th_code t)) s = (\<Sum>p \<in> dom (mc_threads s). if p \<in> ?A then 1 else 0)"
    unfolding total_of_def
  proof (rule sum.cong)
    fix p assume "p \<in> dom (mc_threads s)"
    then obtain t where t: "mc_threads s p = Some t" by blast
    from bracketed_net [OF sections_okD(1) [OF assms(2) t]] t show "net k (th_code (the (mc_threads s p))) = (if p \<in> ?A then 1 else 0)" by simp
  qed simp
  also have "\<dots> = int (card (dom (mc_threads s) \<inter> ?A))" using queues_wfD(1) [OF assms(1)] by (simp add: sum.If_cases)
  also have "dom (mc_threads s) \<inter> ?A = ?A" by auto
  finally show ?thesis .
qed

lemma sem_mutex_count:
  assumes "sem_mutex k s"
  shows "tokens k s + card {p. inside (is_wait k) (is_signal k) s p} = 1"
proof -
  let ?A = "{p. \<exists>t. mc_threads s p = Some t \<and> sem_section k (th_code t)}"
  let ?I = "{p. inside (is_wait k) (is_signal k) s p}"
  note w = assms [unfolded sem_mutex_def]
  have fin: "finite ?A" by (rule finite_subset [OF _ queues_wfD(1) [of s]]) (use w in auto)
  have "?A = ?I \<union> set (queue k s)" "?I \<inter> set (queue k s) = {}" using w by (auto simp: inside_def waiting_def)
  then have "card ?A = card ?I + card (set (queue k s))" using fin by (metis card_Un_disjoint finite_Un)
  moreover have "card (set (queue k s)) = length (queue k s)" using queues_wfD(3) [of s k] w by (simp add: distinct_card)
  ultimately show ?thesis using w total_net [of s k] by (auto simp: balance_def)
qed

lemma sem_mutex_alone:
  assumes "sem_mutex k s" "inside (is_wait k) (is_signal k) s p" "inside (is_wait k) (is_signal k) s q"
  shows "p = q"
proof -
  have "finite (dom (mc_threads s))" using assms(1) queues_wfD(1) by (auto simp: sem_mutex_def)
  then have "finite {p. inside (is_wait k) (is_signal k) s p}" by (rule rev_finite_subset) (auto simp: inside_def)
  moreover have "card {p. inside (is_wait k) (is_signal k) s p} \<le> 1" using sem_mutex_count [OF assms(1)] by simp
  ultimately show ?thesis using assms(2,3) by (metis card_le_Suc0_iff_eq mem_Collect_eq One_nat_def)
qed

lemma sem_mutex_exec:
  assumes "exec pid child s = Some s'" "pid \<noteq> child" "sem_mutex k s" "sem_life_ok pid s"
    and "\<forall>v. next_instr pid s \<noteq> Some (SemNew k v)" "next_instr pid s \<noteq> Some (SemRemove k)"
  shows "sem_mutex k s'"
proof -
  have w: "queues_wf s" "has_sem k s" "sections_ok (is_wait k) (is_signal k) s" "balance k s = 1"
    and q: "\<And>p. p \<in> set (queue k s) \<longleftrightarrow> waiting k s p"
    using assms(3) by (auto simp: sem_mutex_def)
  have hs: "has_sem k s'"
    using assms(1) w(2) assms(6) by (cases rule: exec_cases) (auto simp: next_instr_def)
  have "net k (th_loop t) = 0" if "mc_threads s pid = Some t" for t
    using bracketed_net [OF sections_okD(2) [OF w(3) that]] by simp
  then have b: "balance k s' = 1" using balance_exec [OF assms(1,2) w(1,2) _ assms(5,6)] w(4) by simp
  have "sections_ok (is_wait k) (is_signal k) s'" by (rule sections_ok_exec [OF assms(1,2) w(3)]) simp
  moreover have "p \<in> set (queue k s') \<longleftrightarrow> waiting k s' p" for p
  proof -
    have np: "\<not> waiting k s pid" using exec_thread [OF assms(1)] by (auto simp: waiting_def)
    show ?thesis
      using assms(1)
    proof (cases rule: exec_cases)
      case (block t j c)
      have "sem_section k c \<longleftrightarrow> j = k"
        using sections_okD(1) [OF w(3) block(1)] block(3) bracketed_in_section [of "is_wait k" "is_signal k" _ c] by (simp split: if_splits)
      then show ?thesis using q np block(2,3,6) by (cases "j = k") auto
    next
      case (wake t j c r rest)
      have "r \<notin> set rest" using queues_wfD(3) [OF w(1), of j] wake(5) by simp
      moreover have "waiting k s r \<Longrightarrow> j = k" using queues_wfD(6) [OF w(1), of r k j] wake(5) q by simp
      moreover have "p \<in> set rest \<or> p = r \<longleftrightarrow> waiting k s p" if "j = k" using q [of p] wake(5) that by auto
      ultimately show ?thesis using q np wake(2,3,6) by (cases "j = k") auto
    next
      case (new t j v c)
      then have "j \<noteq> k" using assms(5) by (auto simp: next_instr_def)
      then show ?thesis using q np new(2,4) by simp
    next
      case (remove t j c)
      then have "j \<noteq> k" using assms(6) by (auto simp: next_instr_def)
      then show ?thesis using q np remove(2,4) by simp
    next
      case (fork t code lp c)
      have "\<not> waiting k s child" using fork(4) by (simp add: waiting_def)
      then show ?thesis using q np fork(2,5) by (simp add: new_thread_def)
    next
      case (wait t j c)
      then show ?thesis using q np by (cases "j = k") auto
    next
      case (signal t j c)
      then show ?thesis using q [of p] np by auto
    qed (use q np in simp_all)
  qed
  ultimately show ?thesis using hs b queues_wf_exec [OF assms(1) w(1) assms(4)] by (simp add: sem_mutex_def)
qed

interpretation sem_lock: exclusion "is_wait k" "is_signal k" "sem_mutex k" for k
  by unfold_locales (auto simp: sem_mutex_def intro: sem_mutex_alone)

section \<open>Spin locks\<close>

fun is_acquire :: "('l, 'm, 'o) instr \<Rightarrow> bool" where
  "is_acquire Acquire = True"
| "is_acquire _ = False"

fun is_release :: "('l, 'm, 'o) instr \<Rightarrow> bool" where
  "is_release Release = True"
| "is_release _ = False"

definition holds :: "('l, 'm, 'o) machine \<Rightarrow> ProcessId \<Rightarrow> bool" where
  "holds s p \<longleftrightarrow> (\<exists>t. mc_threads s p = Some t \<and> in_section is_acquire is_release (th_code t))"

lemma holds_simps [simp]:
  "holds (put_thread q t s) p = (if p = q then in_section is_acquire is_release (th_code t) else holds s p)"
  "holds (set_sem j n qs s) p = holds s p" "holds (unblock r s) p = holds s p"
  "holds (s\<lparr>mc_mem := m\<rparr>) p = holds s p" "holds (s\<lparr>mc_out := out\<rparr>) p = holds s p"
  "holds (s\<lparr>mc_lock := lk\<rparr>) p = holds s p" "holds (s\<lparr>mc_sems := ss\<rparr>) p = holds s p"
  by (auto simp: holds_def)

definition spin_mutex :: "('l, 'm, 'o) machine \<Rightarrow> bool" where
  "spin_mutex s \<longleftrightarrow> sections_ok is_acquire is_release s \<and>
     (if bolt (mc_lock s) then \<exists>p. \<forall>q. holds s q \<longleftrightarrow> q = p else \<forall>q. \<not> holds s q)"

lemma bracketed_head:
  assumes "bracketed en lv b (i # c)"
  shows "in_section en lv c = (if lv i then False else if en i then True else b)"
proof (cases "lv i \<or> en i")
  case True
  then show ?thesis using assms bracketed_in_section [of en lv _ c] by (auto split: if_splits)
next
  case False
  then have "bracketed en lv b c" using assms by (cases i) auto
  then show ?thesis using False by (simp add: bracketed_in_section)
qed

lemma spin_mutex_exec:
  assumes "exec pid child s = Some s'" "pid \<noteq> child" "spin_mutex s"
  shows "spin_mutex s'"
proof -
  have so: "sections_ok is_acquire is_release s" using assms(3) by (simp add: spin_mutex_def)
  obtain t where t: "mc_threads s pid = Some t" using exec_thread [OF assms(1)] by blast
  note br = sections_okD [OF so t]
  have h: "holds s pid = in_section is_acquire is_release (th_code t)" using t by (simp add: holds_def)
  have so': "sections_ok is_acquire is_release s'" by (rule sections_ok_exec [OF assms(1,2) so]) simp
  have next_sec: "in_section is_acquire is_release c = (if is_release i then False else if is_acquire i then True else holds s pid)"
    if "th_code t = i # c" for i c using bracketed_head [of is_acquire is_release _ i c] br(1) that h by simp
  have same: "spin_mutex s'" if "\<And>q. holds s' q = holds s q" "mc_lock s' = mc_lock s"
    using assms(3) so' that by (simp add: spin_mutex_def)
  have plain: "in_section is_acquire is_release c = holds s pid"
    if "mc_threads s pid = Some u" "th_code u = i # c" "\<not> is_release i" "\<not> is_acquire i" for u i c
    using next_sec [of i c] that t by simp
  show ?thesis
    using assms(1)
  proof (cases rule: exec_cases)
    case (acquire u c)
    then have "in_section is_acquire is_release c" using next_sec [of Acquire c] t by simp
    moreover have "\<not> holds s q" for q using assms(3) acquire(4) by (simp add: spin_mutex_def)
    ultimately have "holds s' q \<longleftrightarrow> q = pid" "bolt (mc_lock s')" for q using acquire(5) by simp_all
    then show ?thesis unfolding spin_mutex_def using so' by auto
  next
    case (release u c)
    have i: "bracketed is_acquire is_release (holds s pid) (Release # c)" using br(1) h release(1,3) t by simp
    then have n: "\<not> in_section is_acquire is_release c" "holds s pid" using bracketed_head [OF i] by simp_all
    have "holds s q \<Longrightarrow> q = pid" for q using assms(3) n(2) unfolding spin_mutex_def by metis
    then have "\<not> holds s' q" "\<not> bolt (mc_lock s')" for q using n(1) release(4) by auto
    then show ?thesis unfolding spin_mutex_def using so' by simp
  next
    case (loop u)
    then have "\<not> in_section is_acquire is_release (th_loop t)" using br(2) t by (simp add: bracketed_in_section)
    then show ?thesis using loop t h by (intro same) auto
  next
    case (fork u code lp c)
    have u: "u = t" using fork(1) t by simp
    have "bracketed is_acquire is_release False code" using br(1) fork(3) u bracketed_Fork [of is_acquire is_release] by simp
    then have "\<not> in_section is_acquire is_release code" by (simp add: bracketed_in_section)
    moreover have "\<not> holds s child" using fork(4) by (simp add: holds_def)
    moreover have "in_section is_acquire is_release c = holds s pid" using next_sec [of "Fork code lp" c] fork(3) u by simp
    ultimately show ?thesis using fork(5) u assms(2) by (intro same) (auto simp: new_thread_def)
  next
    case (no_sem u k i c)
    have "\<not> is_release i" "\<not> is_acquire i" using no_sem(4) by auto
    from plain [OF no_sem(1,3) this] show ?thesis using no_sem(6) by (intro same) simp_all
  next
    case (do u f c l m)
    from plain [OF do(1,3)] show ?thesis using do(5) by (intro same) simp_all
  next
    case (print u f c)
    from plain [OF print(1,3)] show ?thesis using print(4) by (intro same) simp_all
  next
    case (new u k v c)
    from plain [OF new(1,3)] show ?thesis using new(4) by (intro same) simp_all
  next
    case (remove u k c)
    from plain [OF remove(1,3)] show ?thesis using remove(4) by (intro same) simp_all
  next
    case (wait u k c)
    from plain [OF wait(1,3)] show ?thesis using wait(6) by (intro same) simp_all
  next
    case (block u k c)
    from plain [OF block(1,3)] show ?thesis using block(6) by (intro same) simp_all
  next
    case (signal u k c)
    from plain [OF signal(1,3)] show ?thesis using signal(6) by (intro same) simp_all
  next
    case (wake u k c r rest)
    from plain [OF wake(1,3)] show ?thesis using wake(6) by (intro same) simp_all
  next
    case (join u i c r)
    from plain [OF join(1,3)] show ?thesis using join(7) by (intro same) simp_all
  qed
qed

interpretation spin_lock: exclusion is_acquire is_release spin_mutex
proof
  show "sections_ok is_acquire is_release s" if "spin_mutex s" for s using that by (simp add: spin_mutex_def)
  show "p = q" if "spin_mutex s" "inside is_acquire is_release s p" "inside is_acquire is_release s q" for s p q
  proof -
    have "holds s p" "holds s q" using that(2,3) by (auto simp: inside_def holds_def)
    then show ?thesis using that(1) by (auto simp: spin_mutex_def split: if_splits)
  qed
qed simp

end
