(* ===== verification/User_ForkJoin.thy ===== *)
theory User_ForkJoin
  imports User_Mutex
begin

text \<open>
  User programs whose first process forks the others and then waits for each of them: when it has
  passed its waits, every other process has exited. Also the sizes that bound the length of a run.
\<close>

section \<open>The first process and its children\<close>

fun is_fork :: "('l, 'm, 'o) instr \<Rightarrow> bool" where
  "is_fork (Fork c l) = True"
| "is_fork _ = False"

fun is_join :: "nat \<Rightarrow> ('l, 'm, 'o) instr \<Rightarrow> bool" where
  "is_join n (Join i) = (i = n)"
| "is_join n _ = False"

definition no_forks :: "('l, 'm, 'o) instr list \<Rightarrow> bool" where
  "no_forks c \<longleftrightarrow> (\<forall>i \<in> set c. \<not> is_fork i)"

definition forks_ok :: "('l, 'm, 'o) instr list \<Rightarrow> bool" where
  "forks_ok c \<longleftrightarrow> (\<forall>code lp. Fork code lp \<in> set c \<longrightarrow> no_forks code \<and> lp = [])"

definition main_ok :: "ProcessId \<Rightarrow> nat \<Rightarrow> ('l, 'm, 'o) machine \<Rightarrow> ('l, 'm, 'o) thread \<Rightarrow> bool" where
  "main_ok p0 n s t \<longleftrightarrow> th_loop t = [] \<and> forks_ok (th_code t) \<and>
     dom (mc_threads s) = insert p0 (set (th_children t)) \<and> p0 \<notin> set (th_children t) \<and>
     length (th_children t) + length (filter is_fork (th_code t)) = n \<and>
     (\<forall>i < n. (\<exists>x \<in> set (th_code t). is_join i x) \<or>
        (\<exists>r. i < length (th_children t) \<and> mc_threads s (th_children t ! i) = Some r \<and> finished r))"

definition fork_join :: "ProcessId \<Rightarrow> nat \<Rightarrow> ('l, 'm, 'o) machine \<Rightarrow> bool" where
  "fork_join p0 n s \<longleftrightarrow> (\<exists>t. mc_threads s p0 = Some t \<and> main_ok p0 n s t) \<and>
     (\<forall>p t. p \<noteq> p0 \<longrightarrow> mc_threads s p = Some t \<longrightarrow> no_forks (th_code t) \<and> th_loop t = [])"

lemma exec_finished:
  assumes "exec pid child s = Some s'" "mc_threads s q = Some r" "finished r"
  shows "mc_threads s' q = Some r"
proof -
  have "q \<noteq> pid" using assms by (auto simp: exec_def finished_def)
  then obtain b where "mc_threads s' q = Some (r\<lparr>th_blocked := b\<rparr>)" "b \<longrightarrow> th_blocked r" using exec_others [OF assms(1) _ assms(2)] by blast
  moreover have "\<not> th_blocked r" using assms(3) by (simp add: finished_def)
  ultimately show ?thesis by simp
qed

lemma exec_dom:
  assumes "exec pid child s = Some s'"
  shows "dom (mc_threads s') = (if \<exists>i. next_instr pid s = Some i \<and> is_fork i then insert child (dom (mc_threads s)) else dom (mc_threads s))"
  using assms
proof (cases rule: exec_cases)
  case (no_sem t k i c)
  then show ?thesis by (auto simp: next_instr_def)
next
  case (wake t k c q rest)
  then show ?thesis by (auto simp: next_instr_def)
qed (auto simp: next_instr_def)

lemma exec_children:
  assumes "exec pid child s = Some s'" "mc_threads s p = Some t" "pid \<noteq> child"
  shows "\<exists>t'. mc_threads s' p = Some t' \<and>
    th_children t' = (if p = pid \<and> (\<exists>i. next_instr pid s = Some i \<and> is_fork i) then th_children t @ [child] else th_children t)"
  using assms(1)
proof (cases rule: exec_cases)
  case (no_sem u k i c)
  then show ?thesis using assms(2) by (auto simp: next_instr_def)
next
  case (wake u k c q rest)
  then show ?thesis using assms(2) by (auto simp: next_instr_def)
next
  case (fork u code lp c)
  then show ?thesis using assms(2,3) by (auto simp: next_instr_def)
qed (use assms(2) in \<open>auto simp: next_instr_def\<close>)

lemma exec_join:
  assumes "exec pid child s = Some s'" "mc_threads s pid = Some t" "th_code t = Join i # c"
  shows "\<exists>r. i < length (th_children t) \<and> mc_threads s (th_children t ! i) = Some r \<and> finished r"
  using assms(1) by (cases rule: exec_cases) (use assms(2,3) in auto)

lemma exec_fork:
  assumes "exec pid child s = Some s'" "mc_threads s pid = Some t" "th_code t = Fork code lp # c"
  shows "mc_threads s child = None"
  using assms(1) by (cases rule: exec_cases) (use assms(2,3) in auto)

lemma main_ok_other:
  assumes "exec pid child s = Some s'" "pid \<noteq> p0" "mc_threads s p0 = Some t" "main_ok p0 n s t"
    and "\<not> (\<exists>i. next_instr pid s = Some i \<and> is_fork i)"
  shows "\<exists>t'. mc_threads s' p0 = Some t' \<and> main_ok p0 n s' t'"
proof -
  obtain b where b: "mc_threads s' p0 = Some (t\<lparr>th_blocked := b\<rparr>)" using exec_others [OF assms(1) _ assms(3)] assms(2) by auto
  have "dom (mc_threads s') = dom (mc_threads s)" using exec_dom [OF assms(1)] assms(5) by simp
  then have "main_ok p0 n s' (t\<lparr>th_blocked := b\<rparr>)"
    using assms(4) exec_finished [OF assms(1)] unfolding main_ok_def by simp blast
  then show ?thesis using b by blast
qed

lemma main_ok_self:
  assumes "exec p0 child s = Some s'" "p0 \<noteq> child" "mc_threads s p0 = Some t" "main_ok p0 n s t"
  shows "\<exists>t'. mc_threads s' p0 = Some t' \<and> main_ok p0 n s' t'"
proof -
  obtain i c where ic: "th_code t = i # c"
    using assms(1,3,4) by (cases "th_code t") (auto simp: exec_def main_ok_def split: if_splits)
  have nx: "next_instr p0 s = Some i" using assms(3) ic by (simp add: next_instr_def)
  obtain t' where t': "mc_threads s' p0 = Some t'" "th_loop t' = []" "th_code t' = c"
    using exec_self [OF assms(1-3)] ic assms(4) by (auto simp: main_ok_def)
  have ch: "th_children t' = (if is_fork i then th_children t @ [child] else th_children t)"
    using exec_children [OF assms(1,3,2)] t'(1) nx by simp
  have dm: "dom (mc_threads s') = (if is_fork i then insert child (dom (mc_threads s)) else dom (mc_threads s))"
    using exec_dom [OF assms(1)] nx by simp
  have m: "forks_ok (i # c)" "dom (mc_threads s) = insert p0 (set (th_children t))" "p0 \<notin> set (th_children t)"
      "length (th_children t) + length (filter is_fork (i # c)) = n"
    using assms(4) ic by (auto simp: main_ok_def)
  have jn: "(\<exists>x \<in> set c. is_join j x) \<or> (\<exists>r. j < length (th_children t') \<and> mc_threads s' (th_children t' ! j) = Some r \<and> finished r)"
    if "j < n" for j
  proof (cases "\<exists>x \<in> set c. is_join j x")
    case False
    obtain r where r: "j < length (th_children t)" "mc_threads s (th_children t ! j) = Some r" "finished r"
    proof (cases "is_join j i")
      case True
      then have "i = Join j" by (cases i) auto
      then show thesis using exec_join [OF assms(1,3)] ic that by blast
    next
      case nj: False
      then show thesis using assms(4) ic that False \<open>j < n\<close> by (auto simp: main_ok_def)
    qed
    then have "mc_threads s' (th_children t ! j) = Some r" using exec_finished [OF assms(1)] by blast
    moreover have "th_children t' ! j = th_children t ! j" "j < length (th_children t')" using r(1) by (simp_all add: ch nth_append)
    ultimately show ?thesis using r(3) by auto
  qed auto
  have "main_ok p0 n s' t'"
    unfolding main_ok_def using t' ch dm m assms(2) jn by (auto simp: forks_ok_def)
  then show ?thesis using t'(1) by blast
qed

lemma fork_join_exec:
  assumes "exec pid child s = Some s'" "pid \<noteq> child" "fork_join p0 n s"
  shows "fork_join p0 n s'"
proof -
  obtain t where t: "mc_threads s p0 = Some t" "main_ok p0 n s t" using assms(3) by (auto simp: fork_join_def)
  have others: "no_forks (th_code u) \<and> th_loop u = []" if "p \<noteq> p0" "mc_threads s p = Some u" for p u
    using assms(3) that by (auto simp: fork_join_def)
  have "\<exists>t'. mc_threads s' p0 = Some t' \<and> main_ok p0 n s' t'"
  proof (cases "pid = p0")
    case True
    then show ?thesis using main_ok_self [of p0 child s s' t n] assms t by simp
  next
    case False
    then have "\<not> (\<exists>i. next_instr pid s = Some i \<and> is_fork i)"
      using others [OF False] by (auto simp: next_instr_def no_forks_def split: option.splits list.splits)
    then show ?thesis using main_ok_other [OF assms(1) False t] by blast
  qed
  moreover have "no_forks (th_code u) \<and> th_loop u = []" if u: "p \<noteq> p0" "mc_threads s' p = Some u" for p u
  proof (cases "mc_threads s p")
    case None
    obtain v code lp c where v: "p = child" "mc_threads s pid = Some v" "th_code v = Fork code lp # c" "u = new_thread (th_local v) code lp"
      using exec_none [OF assms(1) None u(2)] by blast
    then have "pid = p0" using others [of pid v] by (auto simp: no_forks_def)
    then have "forks_ok (Fork code lp # c)" using v t by (simp add: main_ok_def)
    then show ?thesis using v(4) by (simp add: forks_ok_def new_thread_def)
  next
    case (Some w)
    then show ?thesis
    proof (cases "p = pid")
      case True
      from exec_self [OF assms(1,2)] Some True u obtain "th_loop u = th_loop w"
          "case th_code w of [] \<Rightarrow> th_code u = th_loop w | i # c \<Rightarrow> th_code u = c"
        by (fastforce split: list.splits)
      then show ?thesis using others [OF u(1) Some] by (auto simp: no_forks_def split: list.splits)
    next
      case False
      then show ?thesis using exec_others [OF assms(1) False Some] others [OF u(1) Some] u(2) by auto
    qed
  qed
  ultimately show ?thesis by (auto simp: fork_join_def)
qed

lemma fork_join_done:
  assumes "fork_join p0 n s" "mc_threads s p0 = Some t" "\<forall>x \<in> set (th_code t). \<not> is_fork x \<and> (\<forall>i. \<not> is_join i x)"
    and "p \<noteq> p0" "mc_threads s p = Some r"
  shows "finished r"
proof -
  have m: "main_ok p0 n s t" using assms(1,2) by (auto simp: fork_join_def)
  then have "length (th_children t) = n" using assms(3) by (simp add: main_ok_def)
  moreover have "p \<in> set (th_children t)" using m assms(4,5) by (auto simp: main_ok_def)
  then obtain i where "i < length (th_children t)" "th_children t ! i = p" by (auto simp: in_set_conv_nth)
  ultimately show ?thesis using m assms(3,5) by (fastforce simp: main_ok_def)
qed

lemma child_code_keep:
  assumes "exec pid child s = Some s'" "pid \<noteq> child" "fork_join p0 n s"
    and ch: "\<And>q w. q \<noteq> p0 \<Longrightarrow> mc_threads s q = Some w \<Longrightarrow> \<forall>i \<in> set (th_code w). Q i"
    and mn: "\<And>t code lp. mc_threads s p0 = Some t \<Longrightarrow> Fork code lp \<in> set (th_code t) \<Longrightarrow> \<forall>i \<in> set code. Q i"
    and "p \<noteq> p0" "mc_threads s' p = Some u"
  shows "\<forall>i \<in> set (th_code u). Q i"
proof (cases "mc_threads s p")
  case None
  obtain v code lp c where v: "mc_threads s pid = Some v" "th_code v = Fork code lp # c" "u = new_thread (th_local v) code lp"
    using exec_none [OF assms(1) None assms(7)] by blast
  have "pid = p0" using assms(3) v(1,2) unfolding fork_join_def no_forks_def by force
  then show ?thesis using mn [of v code lp] v by (simp add: new_thread_def)
next
  case (Some w)
  show ?thesis
  proof (cases "p = pid")
    case True
    then have "th_code w = [] \<Longrightarrow> th_code u = th_loop w" "th_code w = i # c \<Longrightarrow> th_code u = c" for i c
      using exec_self [OF assms(1,2)] Some assms(7) by (auto split: list.splits)
    moreover have "th_loop w = []" using assms(3,6) Some by (auto simp: fork_join_def)
    ultimately show ?thesis using ch [OF assms(6) Some] by (cases "th_code w") auto
  next
    case False
    then show ?thesis using exec_others [OF assms(1) False Some] assms(7) ch [OF assms(6) Some] by auto
  qed
qed

lemma blocked_keep:
  assumes "exec pid child s = Some s'" "pid \<noteq> child" "is_blocked q s'" "\<forall>k. next_instr pid s \<noteq> Some (SemWait k)"
  shows "is_blocked q s"
proof -
  obtain u where u: "mc_threads s' q = Some u" "th_blocked u" using assms(3) by (auto simp: is_blocked_def)
  obtain t where t: "mc_threads s pid = Some t" "\<not> th_blocked t" using exec_thread [OF assms(1)] by blast
  consider (self) "q = pid" | (other) w where "q \<noteq> pid" "mc_threads s q = Some w" | (new) "mc_threads s q = None" by blast
  then show ?thesis
  proof cases
    case self
    then have "th_code t \<noteq> [] \<Longrightarrow> False"
      using exec_self [OF assms(1,2) t(1)] u t assms(4) by (auto simp: next_instr_def split: list.splits)
    moreover have "\<not> th_blocked u" if "th_code t = []"
      using assms(1) by (cases rule: exec_cases) (use that t u self in auto)
    ultimately show ?thesis using u(2) by blast
  next
    case (other w)
    then show ?thesis using exec_others [OF assms(1) other] u by (auto simp: is_blocked_def)
  next
    case new
    then show ?thesis using exec_none [OF assms(1) new u(1)] u(2) by (auto simp: new_thread_def)
  qed
qed

section \<open>Counting instructions\<close>

text \<open>The instructions of a kind that code will do, those of the processes it forks included.\<close>

primrec count1 :: "(('l, 'm, 'o) instr \<Rightarrow> bool) \<Rightarrow> ('l, 'm, 'o) instr \<Rightarrow> int" where
  "count1 P (Do f) = of_bool (P (Do f))"
| "count1 P (Print f) = of_bool (P (Print f))"
| "count1 P (SemNew j v) = of_bool (P (SemNew j v))"
| "count1 P (SemRemove j) = of_bool (P (SemRemove j))"
| "count1 P (SemWait j) = of_bool (P (SemWait j))"
| "count1 P (SemSignal j) = of_bool (P (SemSignal j))"
| "count1 P Acquire = of_bool (P Acquire)"
| "count1 P Release = of_bool (P Release)"
| "count1 P (Fork c l) = of_bool (P (Fork c l)) + sum_list (map (count1 P) c)"
| "count1 P (Join i) = of_bool (P (Join i))"

definition count_code :: "(('l, 'm, 'o) instr \<Rightarrow> bool) \<Rightarrow> ('l, 'm, 'o) instr list \<Rightarrow> int" where
  "count_code P c = sum_list (map (count1 P) c)"

lemma count_code_simps [simp]: "count_code P [] = 0" "count_code P (i # c) = count1 P i + count_code P c"
    "count_code P (c @ d) = count_code P c + count_code P d" "count1 P (Fork c l) = of_bool (P (Fork c l)) + count_code P c"
    "count_code P (concat cs) = sum_list (map (count_code P) cs)" "count_code P (replicate n i) = int n * count1 P i"
  by (simp_all add: count_code_def sum_list_replicate) (induction cs, simp_all add: count_code_def)

declare count1.simps(9) [simp del]

lemma count1_plain: "\<not> is_fork i \<Longrightarrow> count1 P i = of_bool (P i)"
  by (cases i) simp_all

lemma count1_nonneg: "0 \<le> count1 P i"
  by (induction i) (auto simp: count_code_def intro!: sum_list_nonneg add_nonneg_nonneg)

lemma count_code_nonneg: "0 \<le> count_code P c"
  unfolding count_code_def by (rule sum_list_nonneg) (auto simp: count1_nonneg)

lemma count_exec:
  assumes "exec pid child s = Some s'" "pid \<noteq> child" "finite (dom (mc_threads s))" "mc_threads s pid = Some t" "th_loop t = []"
  shows "\<exists>i. next_instr pid s = Some i \<and>
    total_of (\<lambda>t. count_code P (th_code t)) s' = total_of (\<lambda>t. count_code P (th_code t)) s - of_bool (P i)"
proof -
  let ?w = "\<lambda>t. count_code P (th_code t)"
  have put: "total_of ?w (put_thread pid t' (f s)) = total_of ?w s - ?w t + ?w t'"
    if "mc_threads (f s) = mc_threads s" for t' f
    using total_put [of "f s" pid t ?w t'] total_of_cong [of "f s" s] that assms(3,4) by simp
  have nx: "next_instr pid s = Some i" if "th_code t = i # c" for i c using assms(4) that by (simp add: next_instr_def)
  show ?thesis
    using assms(1)
  proof (cases rule: exec_cases)
    case (loop u)
    then show ?thesis using assms(4,5) by simp
  next
    case (fork u code lp c)
    let ?s = "put_thread pid (t\<lparr>th_code := c, th_children := th_children t @ [child]\<rparr>) s"
    have u: "u = t" using fork(1) assms(4) by simp
    have "mc_threads ?s child = None" "finite (dom (mc_threads ?s))" using fork(4) assms(2,3) by auto
    then have "total_of ?w s' = total_of ?w ?s + count_code P code" using total_new [of ?s child ?w] fork(5) u by (simp add: new_thread_def)
    then show ?thesis using nx [of "Fork code lp" c] fork(3) u put [of id "t\<lparr>th_code := c, th_children := th_children t @ [child]\<rparr>"] by simp
  next
    case (wake u k c q rest)
    then show ?thesis using nx [of "SemSignal k" c] assms(3,4) put [of "set_sem k (tokens k s) rest"] by (simp add: total_unblock)
  next
    case (no_sem u k i c)
    then show ?thesis using nx [of i c] assms(4) put [of id] count1_plain [of i P] by auto
  next
    case (do u f c l m)
    then show ?thesis using nx [of "Do f" c] assms(4) put [of "\<lambda>s. s\<lparr>mc_mem := m\<rparr>"] by simp
  next
    case (print u f c)
    then show ?thesis using nx [of "Print f" c] assms(4) put [of "\<lambda>s. s\<lparr>mc_out := mc_out s @ [f (th_local u) (mc_mem s)]\<rparr>"] by simp
  next
    case (new u k v c)
    then show ?thesis using nx [of "SemNew k v" c] assms(4) put [of "set_sem k v []"] by simp
  next
    case (remove u k c)
    then show ?thesis using nx [of "SemRemove k" c] assms(4) put [of "\<lambda>s. s\<lparr>mc_sems := snd (semset_remove k (mc_sems s))\<rparr>"] by simp
  next
    case (wait u k c)
    then show ?thesis using nx [of "SemWait k" c] assms(4) put [of "set_sem k (tokens k s - 1) (queue k s)"] by simp
  next
    case (block u k c)
    then show ?thesis using nx [of "SemWait k" c] assms(4) put [of "set_sem k 0 (queue k s @ [pid])"] by simp
  next
    case (signal u k c)
    then show ?thesis using nx [of "SemSignal k" c] assms(4) put [of "set_sem k (tokens k s + 1) []"] by simp
  next
    case (acquire u c)
    then show ?thesis using nx [of Acquire c] assms(4) put [of "\<lambda>s. s\<lparr>mc_lock := \<lparr>bolt = True\<rparr>\<rparr>"] by simp
  next
    case (release u c)
    then show ?thesis using nx [of Release c] assms(4) put [of "\<lambda>s. s\<lparr>mc_lock := \<lparr>bolt = False\<rparr>\<rparr>"] by simp
  next
    case (join u i c r)
    then show ?thesis using nx [of "Join i" c] assms(4) put [of id] by simp
  qed
qed

section \<open>Progress\<close>

lemma unused_pid:
  assumes "finite A" "card A < 65536"
  shows "\<exists>p :: ProcessId. p \<notin> A"
proof (rule ccontr)
  assume "\<nexists>p. p \<notin> A"
  then have "range ProcessId \<subseteq> A" by blast
  then have "card (range ProcessId) \<le> card A" using assms(1) by (rule card_mono [rotated])
  moreover have "card (range ProcessId) = card (UNIV :: u16 set)" by (rule card_image) (auto simp: inj_on_def)
  moreover have "card (UNIV :: u16 set) = 65536" by (simp add: card_word)
  ultimately show False using assms(2) by simp
qed

lemma fork_join_unused:
  assumes "fork_join p0 n s" "n < 1000"
  shows "\<exists>child. mc_threads s child = None"
proof -
  obtain t where "main_ok p0 n s t" using assms(1) by (auto simp: fork_join_def)
  then have t: "dom (mc_threads s) = insert p0 (set (th_children t))" "length (th_children t) \<le> n"
    unfolding main_ok_def by linarith+
  have "card (dom (mc_threads s)) \<le> Suc (length (th_children t))"
    unfolding t(1) using card_length [of "th_children t"] by (simp add: card_insert_if)
  then have "card (dom (mc_threads s)) < 65536" using t(2) assms(2) by simp
  moreover have "finite (dom (mc_threads s))" unfolding t(1) by simp
  ultimately show ?thesis using unused_pid [of "dom (mc_threads s)"] by (auto simp: domIff)
qed

text \<open>An instruction that neither spins nor forks nor waits for an exit always completes.\<close>

lemma exec_total:
  assumes "mc_threads s pid = Some t" "\<not> th_blocked t" "th_code t = i # c"
    and "i \<noteq> Acquire" "\<not> is_fork i" "\<And>n. \<not> is_join n i"
  shows "\<exists>s'. exec pid child s = Some s'"
  using assms by (cases i) (auto simp: exec_def split: prod.splits SemaphoreResult.splits)

lemma fork_join_main:
  assumes "fork_join p0 n s" "mc_threads s p0 = Some t" "\<not> th_blocked t" "th_code t = i # c" "i \<noteq> Acquire"
    and "\<And>j. i = Join j \<Longrightarrow> j < n \<and> no_forks c" "mc_threads s child = None"
    and "\<And>p r. p \<noteq> p0 \<Longrightarrow> mc_threads s p = Some r \<Longrightarrow> finished r"
  shows "\<exists>s'. exec p0 child s = Some s'"
proof -
  have m: "main_ok p0 n s t" using assms(1,2) by (auto simp: fork_join_def)
  show ?thesis
  proof (cases i)
    case (Fork code lp)
    then show ?thesis using assms(2-4,7) by (simp add: exec_def)
  next
    case (Join j)
    then have "length (th_children t) = n" "j < n" using m assms(4) assms(6) [of j] by (auto simp: main_ok_def no_forks_def)
    then have j: "j < length (th_children t)" "th_children t ! j \<in> set (th_children t)" by simp_all
    then have "th_children t ! j \<in> dom (mc_threads s)" "th_children t ! j \<noteq> p0" using m unfolding main_ok_def by blast+
    then obtain r where "mc_threads s (th_children t ! j) = Some r" "th_children t ! j \<noteq> p0" by blast
    then show ?thesis using assms(2-4,8) Join j(1) by (simp add: exec_def)
  qed (use assms(5) exec_total [OF assms(2-4), of child] in auto)
qed

lemma in_section_leave: "in_section en lv c \<Longrightarrow> \<exists>x \<in> set c. lv x"
  by (induction c) (auto split: if_splits)

lemma exec_has_sem:
  assumes "exec pid child s = Some s'" "has_sem k s'" "\<forall>v. next_instr pid s \<noteq> Some (SemNew k v)"
  shows "has_sem k s"
  using assms(1) by (cases rule: exec_cases) (use assms(2,3) in \<open>auto simp: next_instr_def\<close>)

definition code_left :: "('l, 'm, 'o) machine \<Rightarrow> int" where
  "code_left s = total_of (\<lambda>t. count_code (\<lambda>_. True) (th_code t)) s"

lemma code_left_nonneg: "0 \<le> code_left s"
  unfolding code_left_def total_of_def by (rule sum_nonneg) (simp add: count_code_nonneg)

lemma bounded_run:
  assumes "\<And>n s. (R ^^ n) x s \<Longrightarrow> n \<le> (b :: nat)"
  shows "\<exists>n s. (R ^^ n) x s \<and> (\<nexists>s'. R s s')"
proof -
  let ?P = "\<lambda>n. \<exists>s. (R ^^ n) x s"
  have b: "n \<le> b" if "?P n" for n using assms that by blast
  have "?P 0" by auto
  then have "?P (Greatest ?P)" using b by (rule GreatestI_nat [of ?P 0 b])
  then obtain s where s: "(R ^^ Greatest ?P) x s" by blast
  moreover have "\<not> R s s'" for s'
  proof
    assume "R s s'"
    with s have "?P (Suc (Greatest ?P))" by auto
    then have "Suc (Greatest ?P) \<le> Greatest ?P" using b by (rule Greatest_le_nat [of ?P _ b])
    then show False by simp
  qed
  ultimately show ?thesis by blast
qed

end
