(* ===== verification/User_Sections.thy ===== *)
theory User_Sections
  imports User_ForkJoin
begin

text \<open>
  Programs whose critical sections all have one effect on the shared memory: the effect is applied
  once for each section entered, whatever the interleaving, and the sections not yet entered are
  those still in the code and, for a semaphore, those of the processes that wait for it.
\<close>

section \<open>Entering a section\<close>

lemma inside_simps [simp]:
  "inside en lv (put_thread q t s) p = (if p = q then \<not> th_blocked t \<and> in_section en lv (th_code t) else inside en lv s p)"
  "inside en lv (set_sem j n qs s) p = inside en lv s p"
  "inside en lv (unblock r s) p = (if p = r then \<exists>t. mc_threads s r = Some t \<and> in_section en lv (th_code t) else inside en lv s p)"
  "inside en lv (s\<lparr>mc_mem := m\<rparr>) p = inside en lv s p" "inside en lv (s\<lparr>mc_out := out\<rparr>) p = inside en lv s p"
  "inside en lv (s\<lparr>mc_lock := lk\<rparr>) p = inside en lv s p" "inside en lv (s\<lparr>mc_sems := ss\<rparr>) p = inside en lv s p"
  by (auto simp: inside_def)

definition enters :: "(('l, 'm, 'o) instr \<Rightarrow> bool) \<Rightarrow> (('l, 'm, 'o) instr \<Rightarrow> bool) \<Rightarrow> ('l, 'm, 'o) machine \<Rightarrow> ('l, 'm, 'o) machine \<Rightarrow> bool" where
  "enters en lv s s' \<longleftrightarrow> (\<exists>p. \<not> inside en lv s p \<and> inside en lv s' p)"

fun all_do :: "(('l, 'm, 'o) instr \<Rightarrow> bool) \<Rightarrow> (('l, 'm, 'o) instr \<Rightarrow> bool) \<Rightarrow> (('l, 'm, 'o) instr list \<Rightarrow> bool) \<Rightarrow>
    ('l, 'm, 'o) instr list \<Rightarrow> bool" where
  "all_do en lv P [] = True"
| "all_do en lv P (i # c) = ((en i \<longrightarrow> P (section_body lv c)) \<and>
     (case i of Fork d l \<Rightarrow> all_do en lv P d \<and> all_do en lv P l | _ \<Rightarrow> True) \<and> all_do en lv P c)"

definition does_ok :: "(('l, 'm, 'o) instr \<Rightarrow> bool) \<Rightarrow> (('l, 'm, 'o) instr \<Rightarrow> bool) \<Rightarrow> (('l, 'm, 'o) instr list \<Rightarrow> bool) \<Rightarrow>
    ('l, 'm, 'o) machine \<Rightarrow> bool" where
  "does_ok en lv P s \<longleftrightarrow> (\<forall>p t. mc_threads s p = Some t \<longrightarrow> all_do en lv P (th_code t) \<and> all_do en lv P (th_loop t) \<and>
     (th_blocked t \<longrightarrow> in_section en lv (th_code t) \<longrightarrow> P (section_body lv (th_code t))))"

lemma does_okD:
  assumes "does_ok en lv P s" "mc_threads s p = Some t"
  shows "all_do en lv P (th_code t)" "all_do en lv P (th_loop t)"
    "th_blocked t \<Longrightarrow> in_section en lv (th_code t) \<Longrightarrow> P (section_body lv (th_code t))"
  using assms unfolding does_ok_def by blast+

lemma all_do_append [simp]:
  "all_do en lv P (c @ d) \<Longrightarrow> all_do en lv P d"
  by (induction c) auto

lemma not_in_section_plain:
  assumes "bracketed en lv b (i # c)" "in_section en lv c" "\<not> en i" "\<forall>f. i \<noteq> Do f"
  shows False
  using assms bracketed_in_section [of en lv _ c] by (cases i) (auto split: if_splits)

lemma does_ok_exec:
  assumes "exec pid child s = Some s'" "pid \<noteq> child" "sections_ok en lv s" "does_ok en lv P s"
  shows "does_ok en lv P s'"
  unfolding does_ok_def
proof (intro allI impI)
  fix p u
  assume u: "mc_threads s' p = Some u"
  obtain t where t: "mc_threads s pid = Some t" using exec_thread [OF assms(1)] by blast
  note d = does_okD [OF assms(4) t]
  consider (self) "p = pid" | (other) w where "p \<noteq> pid" "mc_threads s p = Some w" | (new) "mc_threads s p = None" by blast
  then show "all_do en lv P (th_code u) \<and> all_do en lv P (th_loop u) \<and>
      (th_blocked u \<longrightarrow> in_section en lv (th_code u) \<longrightarrow> P (section_body lv (th_code u)))"
  proof cases
    case self
    obtain u' where u': "mc_threads s' pid = Some u'" "th_loop u' = th_loop t"
        "case th_code t of [] \<Rightarrow> th_code u' = th_loop t | i # c \<Rightarrow> th_code u' = c \<and> (th_blocked u' \<longrightarrow> (\<exists>k. i = SemWait k))"
      using exec_self [OF assms(1,2) t] by blast
    then have eq: "u' = u" using u self by simp
    show ?thesis
    proof (cases "th_code t")
      case Nil
      then have "\<not> in_section en lv (th_code u)" using u' eq sections_okD(2) [OF assms(3) t] by (simp add: bracketed_in_section)
      then show ?thesis using u' eq Nil d by simp
    next
      case (Cons i c)
      have "P (section_body lv c)" if b: "th_blocked u" "in_section en lv c"
      proof -
        have "\<exists>k. i = SemWait k" using u'(3) eq Cons b(1) by simp
        then have "en i" using not_in_section_plain [of en lv _ i c] sections_okD(1) [OF assms(3) t] Cons b(2) by auto
        then show ?thesis using d(1) Cons by simp
      qed
      then show ?thesis using u' eq Cons d by simp
    qed
  next
    case (other w)
    then show ?thesis using exec_others [OF assms(1) other] u does_okD [OF assms(4) other(2)] by auto
  next
    case new
    then obtain v code lp c where v: "mc_threads s pid = Some v" "th_code v = Fork code lp # c" "u = new_thread (th_local v) code lp"
      using exec_none [OF assms(1) new u] by blast
    then show ?thesis using d(1) t by (simp add: new_thread_def)
  qed
qed

lemma enters_body:
  assumes "exec pid child s = Some s'" "pid \<noteq> child" "sections_ok en lv s" "does_ok en lv P s"
    and "\<And>code lp. \<not> en (Fork code lp) \<and> \<not> lv (Fork code lp)"
    and "\<not> inside en lv s p" "inside en lv s' p" "mc_threads s' p = Some u"
  shows "P (section_body lv (th_code u))"
proof -
  obtain t where t: "mc_threads s pid = Some t" "\<not> th_blocked t" using exec_thread [OF assms(1)] by blast
  note d = does_okD [OF assms(4) t(1)] and br = sections_okD [OF assms(3) t(1)]
  consider (self) "p = pid" | (other) w where "p \<noteq> pid" "mc_threads s p = Some w" | (new) "mc_threads s p = None" by blast
  then show ?thesis
  proof cases
    case self
    obtain u' where u': "mc_threads s' pid = Some u'"
        "case th_code t of [] \<Rightarrow> th_code u' = th_loop t | i # c \<Rightarrow> th_code u' = c \<and> (th_blocked u' \<longrightarrow> (\<exists>k. i = SemWait k))"
      using exec_self [OF assms(1,2) t(1)] by blast
    have ins: "in_section en lv (th_code u)" "u' = u" using assms(7,8) u'(1) self by (auto simp: inside_def)
    have out: "\<not> in_section en lv (th_code t)" using assms(6) t self by (auto simp: inside_def)
    show ?thesis
    proof (cases "th_code t")
      case Nil
      then show ?thesis using u' ins br(2) by (simp add: bracketed_in_section)
    next
      case (Cons i c)
      have c: "in_section en lv c" "th_code u = c" using ins u'(2) Cons by auto
      have "in_section en lv (th_code t) = False" using out by simp
      then have "bracketed en lv False (i # c)" using br(1) by (simp only: Cons)
      from bracketed_head [OF this] have "en i" using c(1) by (simp split: if_splits)
      then show ?thesis using d(1) Cons c(2) by simp
    qed
  next
    case (other w)
    then obtain b where b: "mc_threads s' p = Some (w\<lparr>th_blocked := b\<rparr>)" "b \<longrightarrow> th_blocked w" using exec_others [OF assms(1) other] by blast
    then have "th_code u = th_code w" "in_section en lv (th_code w)" using assms(7,8) by (auto simp: inside_def)
    moreover from this have "th_blocked w" using assms(6) other(2) by (auto simp: inside_def)
    ultimately show ?thesis using does_okD(3) [OF assms(4) other(2)] by simp
  next
    case new
    then obtain v code lp c where v: "mc_threads s pid = Some v" "th_code v = Fork code lp # c" "u = new_thread (th_local v) code lp"
      using exec_none [OF assms(1) new assms(8)] by blast
    have "bracketed en lv False code" using bracketed_Fork [of en lv _ code lp c] assms(5) [of code lp] br(1) v t(1) by auto
    then have "\<not> inside en lv s' p" using v(3) assms(8) by (auto simp: inside_def new_thread_def bracketed_in_section)
    then show ?thesis using assms(7) by simp
  qed
qed

context exclusion
begin

lemma effect_step:
  assumes "exec pid child s = Some s'" "pid \<noteq> child" "inv s" "inv s'" "commits en lv s m"
    and "does_ok en lv (\<lambda>b. \<forall>l m. snd (run_body b (l, m)) = F m) s"
    and "\<And>code lp. \<not> en (Fork code lp) \<and> \<not> lv (Fork code lp)"
  shows "commits en lv s' (if enters en lv s s' then F m else m)"
  using commit_step [OF assms(1-5)]
proof (elim disjE exE conjE)
  assume "\<forall>p. inside en lv s' p \<longrightarrow> inside en lv s p" "commits en lv s' m"
  then show ?thesis by (auto simp: enters_def)
next
  fix p t
  assume p: "\<not> inside en lv s p" "inside en lv s' p" "mc_threads s' p = Some t"
    "commits en lv s' (snd (run_body (section_body lv (th_code t)) (th_local t, m)))"
  have "\<forall>l m. snd (run_body (section_body lv (th_code t)) (l, m)) = F m"
    by (rule enters_body [OF assms(1,2) inv_sections [OF assms(3)] assms(6,7) p(1-3)])
  then show ?thesis using p by (auto simp: enters_def)
qed

end

section \<open>The sections still to be entered\<close>

definition pending :: "u32 \<Rightarrow> ('l, 'm, 'o) machine \<Rightarrow> int" where
  "pending k s = total_of (\<lambda>t. count_code (is_wait k) (th_code t)) s + int (length (queue k s))"

lemma sem_pending:
  assumes "exec pid child s = Some s'" "pid \<noteq> child" "sem_mutex k s" "mc_threads s pid = Some t" "th_loop t = []"
    and "\<forall>v. next_instr pid s \<noteq> Some (SemNew k v)" "next_instr pid s \<noteq> Some (SemRemove k)"
  shows "pending k s' = pending k s - of_bool (enters (is_wait k) (is_signal k) s s')"
proof -
  have w: "queues_wf s" "has_sem k s" "sections_ok (is_wait k) (is_signal k) s"
    and q: "\<And>p. p \<in> set (queue k s) \<longleftrightarrow> waiting k s p" using assms(3) by (auto simp: sem_mutex_def)
  let ?ins = "inside (is_wait k) (is_signal k)"
  obtain i where i: "next_instr pid s = Some i"
      "total_of (\<lambda>t. count_code (is_wait k) (th_code t)) s' = total_of (\<lambda>t. count_code (is_wait k) (th_code t)) s - of_bool (is_wait k i)"
    using count_exec [OF assms(1,2) queues_wfD(1) [OF w(1)] assms(4,5)] by blast
  obtain c where c: "th_code t = i # c" using i(1) assms(4) by (auto simp: next_instr_def split: list.splits)
  have nb: "\<not> th_blocked t" using exec_thread [OF assms(1)] assms(4) by auto
  have br: "bracketed (is_wait k) (is_signal k) (?ins s pid) (i # c)"
    using sections_okD(1) [OF w(3) assms(4)] assms(4) nb by (simp add: inside_def c)
  note sec = bracketed_head [OF br]
  have res: "pending k s' = pending k s - of_bool (is_wait k i) + int (length (queue k s')) - int (length (queue k s))"
    using i(2) by (simp add: pending_def)
  show ?thesis
    using assms(1)
  proof (cases rule: exec_cases)
    case (loop u)
    then show ?thesis using assms(4,5) by simp
  next
    case (wait u j d)
    then have u: "u = t" "i = SemWait j" "d = c" using assms(4) c by auto
    have "enters (is_wait k) (is_signal k) s s' \<longleftrightarrow> j = k"
      using sec br u wait(6) nb by (auto simp: enters_def split: if_splits)
    then show ?thesis using res u wait(6) by auto
  next
    case (block u j d)
    then have u: "u = t" "i = SemWait j" "d = c" using assms(4) c by auto
    have "\<not> enters (is_wait k) (is_signal k) s s'" using block(6) by (auto simp: enters_def)
    then show ?thesis using res u block(6) by auto
  next
    case (wake u j d r rest)
    then have u: "u = t" "i = SemSignal j" "d = c" using assms(4) c by auto
    have r: "waiting k s r \<longleftrightarrow> j = k" using q [of r] queues_wfD(6) [OF w(1), of r k j] wake(5) by auto
    have bl: "is_blocked r s" using queues_wfD(4) [OF w(1), of r j] wake(5) by simp
    have "r \<noteq> pid" using bl assms(4) nb by (auto simp: is_blocked_def)
    then have "?ins s' r \<longleftrightarrow> j = k" "\<not> ?ins s r" using r bl wake(6) by (auto simp: waiting_def is_blocked_def inside_def)
    moreover have "?ins s' p \<Longrightarrow> ?ins s p" if "p \<noteq> r" for p
      using that wake(6) sec u by (auto split: if_splits)
    ultimately have "enters (is_wait k) (is_signal k) s s' \<longleftrightarrow> j = k" unfolding enters_def by metis
    then show ?thesis using res u wake(5,6) by auto
  next
    case (no_sem u j x d)
    then have u: "u = t" "x = i" "d = c" "j \<noteq> k" using assms(4) c w(2) by auto
    then have "\<not> is_wait k i" using no_sem(4) by auto
    moreover have "\<not> enters (is_wait k) (is_signal k) s s'" using no_sem(6) sec u calculation by (auto simp: enters_def split: if_splits)
    ultimately show ?thesis using res no_sem(6) by simp
  next
    case (fork u code lp d)
    then have u: "u = t" "i = Fork code lp" "d = c" using assms(4) c by auto
    have "bracketed (is_wait k) (is_signal k) False code" using br u(2) bracketed_Fork by fastforce
    then have "\<not> enters (is_wait k) (is_signal k) s s'"
      using fork(5) sec u by (auto simp: enters_def new_thread_def bracketed_in_section split: if_splits)
    then show ?thesis using res u fork(5) by simp
  next
    case (new u j v d)
    then have u: "u = t" "i = SemNew j v" "d = c" using assms(4) c by auto
    then have "j \<noteq> k" using assms(6) i(1) by auto
    then show ?thesis using res new(4) sec u by (auto simp: enters_def split: if_splits)
  next
    case (remove u j d)
    then have u: "u = t" "i = SemRemove j" "d = c" using assms(4) c by auto
    then have "j \<noteq> k" using assms(7) i(1) by auto
    then show ?thesis using res remove(4) sec u by (auto simp: enters_def split: if_splits)
  qed (use res sec c assms(4) in \<open>auto simp: enters_def split: if_splits\<close>)
qed

definition spin_pending :: "('l, 'm, 'o) machine \<Rightarrow> int" where
  "spin_pending s = total_of (\<lambda>t. count_code is_acquire (th_code t)) s"

lemma spin_pending:
  assumes "exec pid child s = Some s'" "pid \<noteq> child" "spin_mutex s" "finite (dom (mc_threads s))" "mc_threads s pid = Some t" "th_loop t = []"
    and "\<And>p. \<not> is_blocked p s"
  shows "spin_pending s' = spin_pending s - of_bool (enters is_acquire is_release s s')"
proof -
  let ?ins = "inside is_acquire is_release"
  have so: "sections_ok is_acquire is_release s" using assms(3) by (simp add: spin_mutex_def)
  obtain i where i: "next_instr pid s = Some i" "spin_pending s' = spin_pending s - of_bool (is_acquire i)"
    unfolding spin_pending_def using count_exec [OF assms(1,2,4-6)] by blast
  obtain c where c: "th_code t = i # c" using i(1) assms(5) by (auto simp: next_instr_def split: list.splits)
  have nb: "\<not> th_blocked t" using exec_thread [OF assms(1)] assms(5) by auto
  have br: "bracketed is_acquire is_release (?ins s pid) (i # c)"
    using sections_okD(1) [OF so assms(5)] assms(5) nb by (simp add: inside_def c)
  note sec = bracketed_head [OF br]
  obtain t' where t': "mc_threads s' pid = Some t'" "th_code t' = c" "th_blocked t' \<longrightarrow> (\<exists>k. i = SemWait k)"
    using exec_self [OF assms(1,2,5)] c by auto
  have other: "?ins s p" if ins: "?ins s' p" "p \<noteq> pid" for p
  proof -
    obtain u where u: "mc_threads s' p = Some u" "in_section is_acquire is_release (th_code u)" using ins(1) by (auto simp: inside_def)
    show ?thesis
    proof (cases "mc_threads s p")
      case None
      obtain v code lp d where v: "mc_threads s pid = Some v" "th_code v = Fork code lp # d" "u = new_thread (th_local v) code lp"
        using exec_none [OF assms(1) None u(1)] by blast
      then have "bracketed is_acquire is_release False code" using br c assms(5) bracketed_Fork by fastforce
      then show ?thesis using u(2) v(3) by (simp add: new_thread_def bracketed_in_section)
    next
      case (Some w)
      then show ?thesis using exec_others [OF assms(1) ins(2) Some] u assms(7) [of p] by (auto simp: inside_def is_blocked_def)
    qed
  qed
  have "enters is_acquire is_release s s' \<longleftrightarrow> is_acquire i"
  proof
    assume "enters is_acquire is_release s s'"
    then have "?ins s' pid" "\<not> ?ins s pid" using other unfolding enters_def by blast+
    then show "is_acquire i" using sec t' by (auto simp: inside_def split: if_splits)
  next
    assume a: "is_acquire i"
    then have "i = Acquire" by (cases i) auto
    then have "\<not> ?ins s pid" "?ins s' pid" using br sec t' by (auto simp: inside_def)
    then show "enters is_acquire is_release s s'" by (auto simp: enters_def)
  qed
  then show ?thesis using i(2) by simp
qed

end
