(* ===== verification/App_Counter.thy ===== *)
theory App_Counter
  imports User_Sections
begin

text \<open>
  \<open>pkg/app/sem\<close> and \<open>pkg/app/spin\<close>: eight processes that each increment a shared counter a hundred
  times, in a critical section of a semaphore or of a spin lock. The shared memory is \<open>COUNTER\<close>, the
  local variable is \<open>val\<close>. The result is 800 in every interleaving, and every run ends.
\<close>

section \<open>The programs\<close>

text \<open>The lines the first process prints; \<open>ProcessList\<close> is the output of \<open>sys_stat\<close>.\<close>

datatype line = HoldsThreads | ProcessList | WaitingFor nat | CounterResult u64

definition THREAD_COUNT :: nat where
  "THREAD_COUNT = 8"

definition delay :: "(u64, u64, line) instr list" where
  "delay = replicate 0x100 (Do Pair)"

definition inc_counter :: "(u64, u64, line) instr list" where
  "inc_counter =
     delay @ [Do (\<lambda>val counter. (counter, counter))] @
     delay @ [Do (\<lambda>val counter. (val + 1, counter))] @
     delay @ [Do (\<lambda>val counter. (val, val))]"

definition wait_all :: "(u64, u64, line) instr list" where
  "wait_all = concat (map (\<lambda>i. [Print (\<lambda>_ _. WaitingFor i), Join i]) [0..<THREAD_COUNT])"

definition sem_do_counter_inc :: "(u64, u64, line) instr list" where
  "sem_do_counter_inc = concat (replicate 100 ([SemWait 0] @ inc_counter @ [SemSignal 0]))"

definition sem_main :: "(u64, u64, line) instr list" where
  "sem_main = [SemNew 0 1] @ replicate THREAD_COUNT (Fork sem_do_counter_inc []) @
     [Print (\<lambda>_ _. HoldsThreads), Print (\<lambda>_ _. ProcessList)] @ wait_all @
     [SemRemove 0, Print (\<lambda>_ counter. CounterResult counter)]"

definition spin_do_counter_inc :: "(u64, u64, line) instr list" where
  "spin_do_counter_inc = concat (replicate 100 ([Acquire] @ inc_counter @ [Release]))"

definition spin_main :: "(u64, u64, line) instr list" where
  "spin_main = replicate THREAD_COUNT (Fork spin_do_counter_inc []) @
     [Print (\<lambda>_ _. HoldsThreads), Print (\<lambda>_ _. ProcessList)] @ wait_all @
     [Print (\<lambda>_ counter. CounterResult counter)]"

section \<open>The critical section\<close>

lemma run_body_append: "run_body (c @ d) x = run_body d (run_body c x)"
  by (induction c arbitrary: x) simp_all

lemma run_delay [simp]: "run_body delay x = x"
proof -
  have "run_body (replicate n (Do Pair)) x = x" for n by (induction n) simp_all
  then show ?thesis by (simp add: delay_def)
qed

lemma run_inc_counter [simp]: "run_body inc_counter (l, m) = (m + 1, m + 1)"
  by (simp add: inc_counter_def run_body_append)

lemma inc_counter_do: "i \<in> set inc_counter \<Longrightarrow> \<exists>f. i = Do f"
  by (auto simp: inc_counter_def delay_def)

lemma bracketed_body:
  assumes "\<forall>i \<in> set b. \<exists>f. i = Do f" "\<And>f. \<not> en (Do f) \<and> \<not> lv (Do f)" "lv u" "bracketed en lv False d"
  shows "bracketed en lv True (b @ u # d)"
  using assms(1)
proof (induction b)
  case (Cons i b)
  then obtain f where "i = Do f" by auto
  then show ?case using Cons assms(2) by simp
qed (use assms(3,4) in simp)

lemma section_body_do:
  assumes "\<forall>i \<in> set b. \<exists>f. i = Do f" "\<And>f. \<not> lv (Do f)" "lv u"
  shows "section_body lv (b @ u # d) = b"
  unfolding section_body_def using assms by (subst takeWhile_append2) auto

lemma all_do_body:
  assumes "\<forall>i \<in> set b. \<exists>f. i = Do f" "\<And>f. \<not> en (Do f)"
  shows "all_do en lv P (b @ d) = all_do en lv P d"
  using assms by (induction b) auto

text \<open>Code that repeats a critical section with the effect of \<open>inc_counter\<close>.\<close>

lemma counter_code:
  assumes "en e" "\<not> lv e" "lv u" "\<not> en u" "\<And>f. \<not> en (Do f) \<and> \<not> lv (Do f)" "\<not> is_fork e" "\<not> is_fork u"
  shows "bracketed en lv False (concat (replicate n ([e] @ inc_counter @ [u])))"
    "all_do en lv (\<lambda>b. \<forall>l m. snd (run_body b (l, m)) = m + 1) (concat (replicate n ([e] @ inc_counter @ [u])))"
    "count_code en (concat (replicate n ([e] @ inc_counter @ [u]))) = int n"
    "no_forks (concat (replicate n ([e] @ inc_counter @ [u])))"
proof -
  have d: "\<forall>i \<in> set inc_counter. \<exists>f. i = Do f" using inc_counter_do by blast
  have nd: "\<not> lv (Do f)" "\<not> en (Do f)" for f using assms(5) by auto
  have "bracketed en lv True (inc_counter @ u # [])" by (rule bracketed_body [OF d assms(5,3)]) simp
  then have "bracketed en lv False ([e] @ inc_counter @ [u])" using assms(1,2) by simp
  then show "bracketed en lv False (concat (replicate n ([e] @ inc_counter @ [u])))" by (rule bracketed_replicate)
  have nf: "case i of Fork a b \<Rightarrow> X a b | _ \<Rightarrow> True" if "\<not> is_fork i" for i :: "(u64, u64, line) instr" and X
    using that by (cases i) auto
  show "all_do en lv (\<lambda>b. \<forall>l m. snd (run_body b (l, m)) = m + 1) (concat (replicate n ([e] @ inc_counter @ [u])))"
  proof (induction n)
    case (Suc n)
    have "section_body lv (inc_counter @ u # c) = inc_counter" for c by (rule section_body_do [OF d nd(1) assms(3)])
    then show ?case using Suc assms(1,4,6,7) all_do_body [OF d, of en] nd(2) nf by simp
  qed simp
  have "count_code en c = 0" if "\<forall>i \<in> set c. \<exists>f. i = Do f" for c :: "(u64, u64, line) instr list"
    using that nd by (induction c) auto
  then have "count_code en inc_counter = 0" using d by blast
  then show "count_code en (concat (replicate n ([e] @ inc_counter @ [u]))) = int n"
    using assms(1,4,6,7) by (simp add: sum_list_replicate count1_plain)
  show "no_forks (concat (replicate n ([e] @ inc_counter @ [u])))"
    using assms(6,7) d by (auto simp: no_forks_def)
qed

lemma pending_word: "(word_of_int (n - (p - of_bool b)) :: u64) = (if b then word_of_int (n - p) + 1 else word_of_int (n - p))"
  by simp

section \<open>The semaphore program\<close>

fun sem_child_instr :: "('l, 'm, 'o) instr \<Rightarrow> bool" where
  "sem_child_instr (Do f) = True"
| "sem_child_instr (SemWait k) = (k = 0)"
| "sem_child_instr (SemSignal k) = (k = 0)"
| "sem_child_instr _ = False"

abbreviation inc_effect :: "(u64, u64, line) instr list \<Rightarrow> bool" where
  "inc_effect b \<equiv> \<forall>l m. snd (run_body b (l, m)) = m + 1"

text \<open>Before the semaphore is removed, and after.\<close>

definition sem_running :: "ProcessId \<Rightarrow> (u64, u64, line) machine \<Rightarrow> bool" where
  "sem_running p0 s \<longleftrightarrow> fork_join p0 THREAD_COUNT s \<and> sem_mutex 0 s \<and> (\<forall>k. has_sem k s \<longrightarrow> k = 0) \<and>
     does_ok (is_wait 0) (is_signal 0) inc_effect s \<and>
     commits (is_wait 0) (is_signal 0) s (word_of_int (800 - pending 0 s)) \<and>
     (\<forall>p t. p \<noteq> p0 \<longrightarrow> mc_threads s p = Some t \<longrightarrow> (\<forall>i \<in> set (th_code t). sem_child_instr i)) \<and>
     (\<exists>t ys. mc_threads s p0 = Some t \<and> \<not> th_blocked t \<and> tl sem_main = ys @ th_code t \<and> 2 \<le> length (th_code t))"

definition sem_removed :: "ProcessId \<Rightarrow> (u64, u64, line) machine \<Rightarrow> bool" where
  "sem_removed p0 s \<longleftrightarrow> mc_mem s = 800 \<and> finite (dom (mc_threads s)) \<and> (\<forall>p t. p \<noteq> p0 \<longrightarrow> mc_threads s p = Some t \<longrightarrow> finished t) \<and>
     (\<exists>t. mc_threads s p0 = Some t \<and> \<not> th_blocked t \<and> th_loop t = [] \<and>
        (th_code t = [Print (\<lambda>_ counter. CounterResult counter)] \<or>
         th_code t = [] \<and> (\<exists>out. mc_out s = out @ [CounterResult 800])))"

lemma sem_main_suffix:
  assumes "tl sem_main = ys @ i # c"
  shows "case i of
      Print f \<Rightarrow> c \<noteq> [] \<longrightarrow> 2 \<le> length c
    | SemRemove k \<Rightarrow> k = 0 \<and> c = [Print (\<lambda>_ counter. CounterResult counter)]
    | Fork code lp \<Rightarrow> 2 \<le> length c
    | Join j \<Rightarrow> j < THREAD_COUNT \<and> no_forks c \<and> 2 \<le> length c
    | _ \<Rightarrow> False"
proof -
  have "replicate 8 (Fork sem_do_counter_inc []) @ [Print (\<lambda>_ _. HoldsThreads), Print (\<lambda>_ _. ProcessList)] @ wait_all @
      [SemRemove 0, Print (\<lambda>_ counter. CounterResult counter)] = ys @ i # c"
    using assms by (simp add: sem_main_def THREAD_COUNT_def)
  then show ?thesis
    by (auto simp: wait_all_def THREAD_COUNT_def upt_rec [of 0] numeral_eq_Suc no_forks_def Cons_eq_append_conv)
qed

lemma sem_main_fork: "Fork code lp \<in> set (tl sem_main) \<Longrightarrow> code = sem_do_counter_inc \<and> lp = []"
  by (auto simp: sem_main_def wait_all_def)

lemma sem_child_code: "\<forall>i \<in> set sem_do_counter_inc. sem_child_instr i"
proof -
  have "sem_child_instr i" if "i \<in> set inc_counter" for i using inc_counter_do [OF that] by auto
  then show ?thesis by (auto simp: sem_do_counter_inc_def)
qed

lemma sem_child_keep:
  assumes "exec pid child s = Some s'" "pid \<noteq> child" "sem_running p0 s" "p \<noteq> p0" "mc_threads s' p = Some u"
  shows "\<forall>i \<in> set (th_code u). sem_child_instr i"
proof (rule child_code_keep [OF assms(1,2) _ _ _ assms(4,5)])
  show "fork_join p0 THREAD_COUNT s" using assms(3) by (simp add: sem_running_def)
  show "\<forall>i \<in> set (th_code w). sem_child_instr i" if "q \<noteq> p0" "mc_threads s q = Some w" for q w
    using assms(3) that unfolding sem_running_def by blast
  show "\<forall>i \<in> set code. sem_child_instr i" if "mc_threads s p0 = Some t" "Fork code lp \<in> set (th_code t)" for t code lp
  proof -
    obtain t1 ys where t1: "mc_threads s p0 = Some t1" "tl sem_main = ys @ th_code t1" using assms(3) unfolding sem_running_def by blast
    then have "Fork code lp \<in> set (ys @ th_code t1)" using that by simp
    then have "Fork code lp \<in> set (tl sem_main)" by (simp only: t1(2))
    then show ?thesis using sem_main_fork [of code lp] sem_child_code by simp
  qed
qed

text \<open>When the first process removes the semaphore, all the others have exited and nothing is pending.\<close>

lemma sem_all_done:
  assumes "sem_running p0 s" "mc_threads s p0 = Some t" "th_code t = [SemRemove 0, Print f]"
  shows "mc_mem s = 800" "p \<noteq> p0 \<Longrightarrow> mc_threads s p = Some r \<Longrightarrow> finished r" "queue 0 s = []"
proof -
  have w: "fork_join p0 THREAD_COUNT s" "sem_mutex 0 s" "commits (is_wait 0) (is_signal 0) s (word_of_int (800 - pending 0 s))"
      "\<not> th_blocked t"
    using assms(1,2) by (auto simp: sem_running_def)
  have fin: "finished r" if "p \<noteq> p0" "mc_threads s p = Some r" for p r
    using fork_join_done [OF w(1) assms(2) _ that] assms(3) by simp
  then show "p \<noteq> p0 \<Longrightarrow> mc_threads s p = Some r \<Longrightarrow> finished r" by blast
  have nb: "\<not> is_blocked p s" for p
    using fin [of p] w(4) assms(2) by (cases "p = p0") (auto simp: is_blocked_def finished_def)
  then show q: "queue 0 s = []" using queues_wfD(4) [of s _ 0] w(2) by (cases "queue 0 s") (auto simp: sem_mutex_def)
  have "count_code (is_wait 0) (th_code r) = 0" if "mc_threads s p = Some r" for p r
    using fin [of p r] that assms(2,3) by (cases "p = p0") (auto simp: finished_def)
  then have "pending 0 s = 0" unfolding pending_def total_of_def using q by (auto intro!: sum.neutral)
  moreover have "\<not> inside (is_wait 0) (is_signal 0) s p" for p
    using fin [of p] assms(2,3) by (cases "p = p0") (auto simp: inside_def finished_def)
  ultimately show "mc_mem s = 800" using commits_alone [OF w(3)] by simp
qed

lemma sem_running_exec:
  assumes "exec pid child s = Some s'" "pid \<noteq> child" "sem_running p0 s"
  shows "sem_running p0 s' \<or> sem_removed p0 s'"
proof -
  have w: "fork_join p0 THREAD_COUNT s" "sem_mutex 0 s" "\<And>k. has_sem k s \<Longrightarrow> k = 0"
      "does_ok (is_wait 0) (is_signal 0) inc_effect s"
      "commits (is_wait 0) (is_signal 0) s (word_of_int (800 - pending 0 s))"
    using assms(3) unfolding sem_running_def by blast+
  have ch: "\<forall>i \<in> set (th_code w). sem_child_instr i" if "q \<noteq> p0" "mc_threads s q = Some w" for q w
    using assms(3) that unfolding sem_running_def by blast
  obtain t0 ys where t0: "mc_threads s p0 = Some t0" "\<not> th_blocked t0" "tl sem_main = ys @ th_code t0" "2 \<le> length (th_code t0)"
    using assms(3) unfolding sem_running_def by blast
  obtain t where t: "mc_threads s pid = Some t" using exec_thread [OF assms(1)] by blast
  have lp: "th_loop t = []" using w(1) t by (cases "pid = p0") (auto simp: fork_join_def main_ok_def)
  obtain i where i: "next_instr pid s = Some i"
    using count_exec [OF assms(1,2) _ t lp] queues_wfD(1) [of s] w(2) by (auto simp: sem_mutex_def)
  obtain c where c: "th_code t = i # c" using i t by (auto simp: next_instr_def split: list.splits)
  show ?thesis
  proof (cases "\<exists>k. i = SemRemove k")
    case True
    have p0: "pid = p0"
    proof (rule ccontr)
      assume "pid \<noteq> p0"
      from ch [OF this t] c True show False by auto
    qed
    then have "tl sem_main = ys @ i # c" using t0 t c by simp
    then have k: "i = SemRemove 0" "c = [Print (\<lambda>_ counter. CounterResult counter)]" using sem_main_suffix [of ys i c] True by auto
    note over = sem_all_done [OF assms(3) t0(1)]
    have s': "s' = put_thread pid (t\<lparr>th_code := c\<rparr>) (s\<lparr>mc_sems := snd (semset_remove 0 (mc_sems s))\<rparr>)"
      using assms(1) by (cases rule: exec_cases) (use t c k(1) in auto)
    have "finite (dom (mc_threads s))" using queues_wfD(1) [of s] w(2) by (simp add: sem_mutex_def)
    then have "sem_removed p0 s'"
      using over t t0 c k lp p0 unfolding sem_removed_def s' by auto
    then show ?thesis ..
  next
    case False
    have new: "\<forall>k v. i \<noteq> SemNew k v"
    proof (cases "pid = p0")
      case True
      then show ?thesis using sem_main_suffix [of ys i c] t0 t c by auto
    qed (use ch [of pid t] t c in auto)
    then have nx: "\<forall>v. next_instr pid s \<noteq> Some (SemNew 0 v)" "next_instr pid s \<noteq> Some (SemRemove 0)" "sem_life_ok pid s"
      using i False by (auto simp: sem_life_ok_def)
    have mutex: "sem_mutex 0 s'" by (rule sem_mutex_exec [OF assms(1,2) w(2) nx(3,1,2)])
    have "commits (is_wait 0) (is_signal 0) s' (word_of_int (800 - pending 0 s'))"
      unfolding sem_pending [OF assms(1,2) w(2) t lp nx(1,2)] pending_word
      by (rule sem_lock.effect_step [OF assms(1,2) w(2) mutex w(5,4)]) simp
    moreover have "does_ok (is_wait 0) (is_signal 0) inc_effect s'"
      using does_ok_exec [OF assms(1,2) _ w(4)] w(2) by (simp add: sem_mutex_def)
    moreover have "has_sem k s' \<longrightarrow> k = 0" for k using exec_has_sem [OF assms(1), of k] i new w(3) by auto
    moreover have "\<exists>t ys. mc_threads s' p0 = Some t \<and> \<not> th_blocked t \<and> tl sem_main = ys @ th_code t \<and> 2 \<le> length (th_code t)"
    proof (cases "pid = p0")
      case True
      have sx: "tl sem_main = ys @ i # c" using t0 t c True by simp
      have ns: "\<forall>k. i \<noteq> SemWait k" using sem_main_suffix [OF sx] by auto
      have "2 \<le> length c" using sem_main_suffix [OF sx] t0(4) t0(1) t c True False new by (cases i) auto
      then show ?thesis using exec_self [OF assms(1,2) t] c True sx ns by (auto intro: exI [of _ "ys @ [i]"])
    next
      case False
      then show ?thesis using exec_others [OF assms(1) _ t0(1)] t0 by fastforce
    qed
    ultimately have "sem_running p0 s'"
      unfolding sem_running_def using mutex fork_join_exec [OF assms(1,2) w(1)] sem_child_keep [OF assms(1-3)] by blast
    then show ?thesis ..
  qed
qed

lemma sem_removed_exec:
  assumes "exec pid child s = Some s'" "sem_removed p0 s"
  shows "sem_removed p0 s'"
proof -
  obtain t where t: "mc_threads s p0 = Some t" "\<not> th_blocked t" "th_loop t = []"
      "th_code t = [Print (\<lambda>_ counter. CounterResult counter)] \<or> th_code t = []"
    using assms(2) by (auto simp: sem_removed_def)
  have p0: "pid = p0"
  proof (rule ccontr)
    assume "pid \<noteq> p0"
    moreover obtain u where u: "mc_threads s pid = Some u" using exec_thread [OF assms(1)] by blast
    ultimately have "finished u" using assms(2) by (auto simp: sem_removed_def)
    then show False using assms(1) u by (simp add: exec_def finished_def)
  qed
  then have c: "th_code t = [Print (\<lambda>_ counter. CounterResult counter)]" using t assms(1) by (auto simp: exec_def)
  then have "s' = put_thread p0 (t\<lparr>th_code := []\<rparr>) (s\<lparr>mc_out := mc_out s @ [CounterResult (mc_mem s)]\<rparr>)"
    using assms(1) t p0 by (simp add: exec_def)
  then show ?thesis using assms(2) t by (auto simp: sem_removed_def)
qed

lemma sem_running_progress:
  assumes "sem_running p0 s"
  shows "\<exists>s'. step s s'"
proof -
  have w: "fork_join p0 THREAD_COUNT s" "sem_mutex 0 s" "\<And>k. has_sem k s \<Longrightarrow> k = 0"
    using assms unfolding sem_running_def by blast+
  have ch: "\<forall>i \<in> set (th_code w). sem_child_instr i" if "q \<noteq> p0" "mc_threads s q = Some w" for q w
    using assms that unfolding sem_running_def by blast
  obtain t0 ys where t0: "mc_threads s p0 = Some t0" "\<not> th_blocked t0" "tl sem_main = ys @ th_code t0" "2 \<le> length (th_code t0)"
    using assms unfolding sem_running_def by blast
  obtain child where child: "mc_threads s child = None" using fork_join_unused [OF w(1)] by (auto simp: THREAD_COUNT_def)
  have go: "\<exists>s'. step s s'" if p: "p \<noteq> p0" "mc_threads s p = Some t" "\<not> th_blocked t" "th_code t \<noteq> []" for p t
  proof -
    obtain i c where ic: "th_code t = i # c" using p(4) by (cases "th_code t") auto
    then have "sem_child_instr i" using ch [OF p(1,2)] by simp
    then have "i \<noteq> Acquire" "\<not> is_fork i" "\<not> is_join n i" for n by (cases i; auto)+
    then have "\<exists>s'. exec p child s = Some s'" by (intro exec_total [OF p(2,3) ic])
    then show ?thesis using step.intros [of p child s] p(2) child by fastforce
  qed
  have un: "\<exists>s'. step s s'" if p: "p \<noteq> p0" "mc_threads s p = Some t" "\<not> finished t" for p t
  proof (cases "\<exists>q. inside (is_wait 0) (is_signal 0) s q")
    case True
    then obtain q u where q: "mc_threads s q = Some u" "\<not> th_blocked u" "sem_section 0 (th_code u)" by (auto simp: inside_def)
    have "q \<noteq> p0"
    proof
      assume "q = p0"
      then have "\<exists>x \<in> set (tl sem_main). is_signal 0 x" using in_section_leave [OF q(3)] q(1) t0(1,3) by auto
      then show False by (auto simp: sem_main_def wait_all_def)
    qed
    moreover have "th_code u \<noteq> []" using q(3) by auto
    ultimately show ?thesis using go q by blast
  next
    case False
    then have "tokens 0 s = 1" using sem_mutex_count [OF w(2)] by simp
    then have "queue 0 s = []" using queues_wfD(2) [of s 0] w(2) by (auto simp: sem_mutex_def)
    then have "queue k s = []" for k using w(3) [of k] by (cases "has_sem k s") auto
    then have "\<not> th_blocked t" using queues_wfD(5) [of s p] w(2) p(2) by (auto simp: sem_mutex_def is_blocked_def)
    moreover from this have "th_code t \<noteq> []" using p w(1) by (auto simp: finished_def fork_join_def)
    ultimately show ?thesis using go p by blast
  qed
  show ?thesis
  proof (cases "\<forall>p t. p \<noteq> p0 \<longrightarrow> mc_threads s p = Some t \<longrightarrow> finished t")
    case True
    obtain i c where ic: "th_code t0 = i # c" using t0(4) by (cases "th_code t0") auto
    note sx = sem_main_suffix [of ys i c, folded ic, OF t0(3)]
    have "\<exists>s'. exec p0 child s = Some s'"
      by (rule fork_join_main [OF w(1) t0(1,2) ic _ _ child]) (use sx True in auto)
    then show ?thesis using step.intros [of p0 child s] t0(1) child by fastforce
  qed (use un in blast)
qed

section \<open>Runs of the semaphore program\<close>

definition sem_started :: "ProcessId \<Rightarrow> u64 \<Rightarrow> (u64, u64, line) machine" where
  "sem_started p0 l = put_thread p0 (new_thread l (tl sem_main) []) (set_sem 0 1 [] (start l 0 sem_main p0))"

lemma sem_code: "bracketed (is_wait 0) (is_signal 0) False sem_do_counter_inc"
    "all_do (is_wait 0) (is_signal 0) inc_effect sem_do_counter_inc" "count_code (is_wait 0) sem_do_counter_inc = 100"
    "no_forks sem_do_counter_inc"
  unfolding sem_do_counter_inc_def using counter_code [of "is_wait 0" "SemWait 0" "is_signal 0" "SemSignal 0" 100] by simp_all

lemmas sem_main_list = sem_main_def wait_all_def THREAD_COUNT_def upt_rec [of 0] numeral_eq_Suc

lemma sem_main_code: "bracketed (is_wait 0) (is_signal 0) False (tl sem_main)"
    "all_do (is_wait 0) (is_signal 0) inc_effect (tl sem_main)" "count_code (is_wait 0) (tl sem_main) = 800" "forks_ok (tl sem_main)"
    "length (filter is_fork (tl sem_main)) = THREAD_COUNT" "i < THREAD_COUNT \<Longrightarrow> \<exists>x \<in> set (tl sem_main). is_join i x"
  by (auto simp: sem_main_list sem_code forks_ok_def less_Suc_eq)

lemma sem_started_running: "sem_running p0 (sem_started p0 l)"
proof -
  let ?s = "sem_started p0 l"
  let ?t = "new_thread l (tl sem_main) [] :: (u64, u64, line) thread"
  have th: "mc_threads ?s = [p0 \<mapsto> ?t]" "mc_mem ?s = 0" "has_sem k ?s \<longleftrightarrow> k = 0" "queue k ?s = []" "tokens 0 ?s = 1"
      "k \<noteq> 0 \<Longrightarrow> tokens k ?s = 0" for k
    by (auto simp: sem_started_def start_def has_sem_def semset_new_def queue_def tokens_def set_sem_def put_thread_def)
  have t: "th_code ?t = tl sem_main" "th_loop ?t = []" "\<not> th_blocked ?t" "th_children ?t = []" by (simp_all add: new_thread_def)
  have sec: "\<not> sem_section 0 (tl sem_main)" using bracketed_in_section [OF sem_main_code(1)] by simp
  have "fork_join p0 THREAD_COUNT ?s" using sem_main_code(4-6) by (auto simp: fork_join_def main_ok_def th t)
  moreover have "queues_wf ?s" unfolding queues_wf_def by (auto simp: th t is_blocked_def)
  moreover have "balance 0 ?s = 1" using bracketed_net [OF sem_main_code(1)] by (simp add: balance_def total_of_def th t)
  moreover have "sections_ok (is_wait 0) (is_signal 0) ?s" using sem_main_code(1) sec by (auto simp: sections_ok_def th t)
  moreover have "pending 0 ?s = 800" by (simp add: pending_def total_of_def th t sem_main_code(3))
  moreover have "\<not> inside (is_wait 0) (is_signal 0) ?s p" "\<not> waiting 0 ?s p" for p using sec by (auto simp: inside_def waiting_def th t)
  moreover have "2 \<le> length (tl sem_main)" by (simp add: sem_main_def)
  ultimately show ?thesis
    unfolding sem_running_def sem_mutex_def commits_def does_ok_def using sem_main_code(2) by (auto simp: th t sec)
qed

definition sem_reached :: "ProcessId \<Rightarrow> u64 \<Rightarrow> (u64, u64, line) machine \<Rightarrow> bool" where
  "sem_reached p0 l s \<longleftrightarrow> s = start l 0 sem_main p0 \<or> sem_running p0 s \<or> sem_removed p0 s"

lemma start_step:
  assumes "step (start l 0 sem_main p0) s"
  shows "s = sem_started p0 l"
  using assms
proof cases
  case (1 pid child)
  have "pid = p0" using exec_thread [OF 1(2)] by (auto simp: start_def split: if_splits)
  moreover have "sem_main = SemNew 0 1 # tl sem_main" by (simp add: sem_main_def)
  ultimately have m: "mc_threads (start l 0 sem_main p0) pid = Some (new_thread l (SemNew 0 1 # tl sem_main) [])" by (simp add: start_def)
  from 1(2) show ?thesis
    by (cases rule: exec_cases) (use m \<open>pid = p0\<close> in \<open>auto simp: new_thread_def sem_started_def\<close>)
qed

lemma sem_reached_step:
  assumes "step s s'" "sem_reached p0 l s"
  shows "sem_reached p0 l s' \<and> code_left s' = code_left s - 1"
proof -
  obtain pid child where e: "pid \<noteq> child" "exec pid child s = Some s'" using assms(1) by (auto elim: step.cases)
  obtain t where t: "mc_threads s pid = Some t" using exec_thread [OF e(2)] by blast
  have "th_loop t = [] \<and> finite (dom (mc_threads s))"
    using assms(2) unfolding sem_reached_def
  proof (elim disjE)
    assume "s = start l 0 sem_main p0"
    then show ?thesis using t by (auto simp: start_def new_thread_def split: if_splits)
  next
    assume r: "sem_running p0 s"
    then have "fork_join p0 THREAD_COUNT s" "queues_wf s" by (auto simp: sem_running_def sem_mutex_def)
    then show ?thesis using t queues_wfD(1) by (cases "pid = p0") (auto simp: fork_join_def main_ok_def)
  next
    assume "sem_removed p0 s"
    then show ?thesis using t by (cases "pid = p0") (auto simp: sem_removed_def finished_def)
  qed
  then have "code_left s' = code_left s - 1"
    using count_exec [OF e(2,1) _ t, of "\<lambda>_. True"] by (auto simp: code_left_def)
  moreover have "sem_reached p0 l s'"
    using assms(2) unfolding sem_reached_def
  proof (elim disjE)
    assume "s = start l 0 sem_main p0"
    then show "s' = start l 0 sem_main p0 \<or> sem_running p0 s' \<or> sem_removed p0 s'"
      using start_step assms(1) sem_started_running by metis
  qed (use sem_running_exec [OF e(2,1)] sem_removed_exec [OF e(2)] in blast)+
  ultimately show ?thesis by blast
qed

lemma sem_runs:
  "(step ^^ n) (start l 0 sem_main p0) s \<Longrightarrow> sem_reached p0 l s \<and> code_left s + int n = 618429"
proof (induction n arbitrary: s)
  case 0
  have "count_code (\<lambda>_. True) delay = 256" by (simp add: delay_def)
  then have "count_code (\<lambda>_. True) sem_do_counter_inc = 77300"
    by (simp add: sem_do_counter_inc_def inc_counter_def sum_list_replicate)
  then have "count_code (\<lambda>_. True) sem_main = 618429"
    by (simp add: sem_main_def wait_all_def THREAD_COUNT_def o_def sum_list_triv)
  then show ?case using 0 by (auto simp: sem_reached_def code_left_def total_of_def start_def new_thread_def)
next
  case (Suc n)
  then obtain u where "(step ^^ n) (start l 0 sem_main p0) u" "step u s" by auto
  then show ?case using Suc.IH sem_reached_step [of u s p0 l] by fastforce
qed

text \<open>
  C5. The semaphore program increments its counter exactly 800 times in every interleaving: no run is
  longer than its 618429 instructions, and a run that cannot continue has ended, with every process
  exited and the counter 800 printed.
\<close>

theorem sem_counts_to_800:
  assumes "(step ^^ n) (start l 0 sem_main p0) s"
  shows "n \<le> 618429 \<and> ((\<nexists>s'. step s s') \<longrightarrow> mc_mem s = 800 \<and> (\<exists>out. mc_out s = out @ [CounterResult 800]) \<and>
    (\<forall>p t. mc_threads s p = Some t \<longrightarrow> finished t))"
proof (intro conjI impI)
  note r = sem_runs [OF assms]
  then show "n \<le> 618429" using code_left_nonneg [of s] by linarith
  assume stuck: "\<nexists>s'. step s s'"
  have "\<not> sem_running p0 s" using stuck sem_running_progress by blast
  moreover have "s \<noteq> start l 0 sem_main p0"
  proof
    assume s: "s = start l 0 sem_main p0"
    obtain child where child: "child \<noteq> p0" using unused_pid [of "{p0}"] by auto
    have "\<exists>s'. exec p0 child s = Some s'"
      by (rule exec_total [of s p0 "new_thread l sem_main []" "SemNew 0 1" "tl sem_main"])
        (simp_all add: s start_def new_thread_def sem_main_def)
    then show False using stuck step.intros [of p0 child s] child by blast
  qed
  ultimately have rm: "sem_removed p0 s" using r by (simp add: sem_reached_def)
  then obtain t where t: "mc_threads s p0 = Some t" "\<not> th_blocked t" "th_loop t = []"
      "th_code t = [Print (\<lambda>_ counter. CounterResult counter)] \<or> th_code t = [] \<and> (\<exists>out. mc_out s = out @ [CounterResult 800])"
    by (auto simp: sem_removed_def)
  have over: "th_code t = [] \<and> (\<exists>out. mc_out s = out @ [CounterResult 800])"
  proof (rule ccontr)
    assume "\<not> ?thesis"
    then have c: "th_code t = Print (\<lambda>_ counter. CounterResult counter) # []" using t(4) by blast
    obtain child where child: "child \<noteq> p0" using unused_pid [of "{p0}"] by auto
    have "\<exists>s'. exec p0 child s = Some s'" by (rule exec_total [OF t(1,2) c]) simp_all
    then show False using stuck step.intros [of p0 child s] child by blast
  qed
  then show "mc_mem s = 800" "\<exists>out. mc_out s = out @ [CounterResult 800]" using rm by (auto simp: sem_removed_def)
  have "finished r" if "mc_threads s p = Some r" for p r
    using rm t over that by (cases "p = p0") (auto simp: sem_removed_def finished_def)
  then show "\<forall>p t. mc_threads s p = Some t \<longrightarrow> finished t" by blast
qed

theorem sem_counts_to_800_witness:
  "\<exists>n s. (step ^^ n) (start 0 0 sem_main (ProcessId 2)) s \<and> (\<nexists>s'. step s s') \<and> mc_mem s = 800"
proof -
  have "n \<le> 618429" if "(step ^^ n) (start 0 0 sem_main (ProcessId 2)) s" for n s using sem_counts_to_800 [OF that] by blast
  then obtain n s where run: "(step ^^ n) (start 0 0 sem_main (ProcessId 2)) s" "\<nexists>s'. step s s'"
    using bounded_run [of step "start 0 0 sem_main (ProcessId 2)" 618429] by blast
  then show ?thesis using sem_counts_to_800 [OF run(1)] by blast
qed

section \<open>The spin lock program\<close>

fun spin_child_instr :: "('l, 'm, 'o) instr \<Rightarrow> bool" where
  "spin_child_instr (Do f) = True"
| "spin_child_instr Acquire = True"
| "spin_child_instr Release = True"
| "spin_child_instr _ = False"

definition spin_running :: "ProcessId \<Rightarrow> (u64, u64, line) machine \<Rightarrow> bool" where
  "spin_running p0 s \<longleftrightarrow> fork_join p0 THREAD_COUNT s \<and> spin_mutex s \<and> (\<forall>p. \<not> is_blocked p s) \<and>
     does_ok is_acquire is_release inc_effect s \<and>
     commits is_acquire is_release s (word_of_int (800 - spin_pending s)) \<and>
     (\<forall>p t. p \<noteq> p0 \<longrightarrow> mc_threads s p = Some t \<longrightarrow> (\<forall>i \<in> set (th_code t). spin_child_instr i)) \<and>
     (\<exists>t ys. mc_threads s p0 = Some t \<and> spin_main = ys @ th_code t \<and>
        (th_code t = [] \<longrightarrow> (\<exists>out. mc_out s = out @ [CounterResult 800])))"

lemma spin_main_suffix:
  assumes "spin_main = ys @ i # c"
  shows "case i of
      Print f \<Rightarrow> c = [] \<longrightarrow> f = (\<lambda>_ counter. CounterResult counter)
    | Fork code lp \<Rightarrow> code = spin_do_counter_inc \<and> c \<noteq> []
    | Join j \<Rightarrow> j < THREAD_COUNT \<and> no_forks c \<and> c \<noteq> []
    | _ \<Rightarrow> False"
proof -
  have "replicate 8 (Fork spin_do_counter_inc []) @ [Print (\<lambda>_ _. HoldsThreads), Print (\<lambda>_ _. ProcessList)] @ wait_all @
      [Print (\<lambda>_ counter. CounterResult counter)] = ys @ i # c"
    using assms by (simp add: spin_main_def THREAD_COUNT_def)
  then show ?thesis
    by (auto simp: wait_all_def THREAD_COUNT_def upt_rec [of 0] numeral_eq_Suc no_forks_def Cons_eq_append_conv)
qed

lemma spin_code: "bracketed is_acquire is_release False spin_do_counter_inc"
    "all_do is_acquire is_release inc_effect spin_do_counter_inc" "count_code is_acquire spin_do_counter_inc = 100"
    "no_forks spin_do_counter_inc"
  unfolding spin_do_counter_inc_def using counter_code [of is_acquire Acquire is_release Release 100] by simp_all

lemma spin_child_code: "\<forall>i \<in> set spin_do_counter_inc. spin_child_instr i"
proof -
  have "spin_child_instr i" if "i \<in> set inc_counter" for i using inc_counter_do [OF that] by auto
  then show ?thesis by (auto simp: spin_do_counter_inc_def)
qed

lemma spin_all_done:
  assumes "spin_running p0 s" "mc_threads s p0 = Some t" "th_code t = [] \<or> (\<exists>f. th_code t = [Print f])"
  shows "mc_mem s = 800" "p \<noteq> p0 \<Longrightarrow> mc_threads s p = Some r \<Longrightarrow> finished r"
proof -
  have w: "fork_join p0 THREAD_COUNT s" "commits is_acquire is_release s (word_of_int (800 - spin_pending s))"
    using assms(1) by (auto simp: spin_running_def)
  have m: "\<forall>x \<in> set (th_code t). \<not> is_fork x \<and> (\<forall>i. \<not> is_join i x)" "count_code is_acquire (th_code t) = 0"
      "\<not> in_section is_acquire is_release (th_code t)"
    using assms(3) by auto
  have fin: "finished r" if "p \<noteq> p0" "mc_threads s p = Some r" for p r
    by (rule fork_join_done [OF w(1) assms(2) m(1) that])
  then show "p \<noteq> p0 \<Longrightarrow> mc_threads s p = Some r \<Longrightarrow> finished r" by blast
  have over: "count_code is_acquire (th_code r) = 0 \<and> \<not> in_section is_acquire is_release (th_code r)" if "mc_threads s p = Some r" for p r
  proof (cases "p = p0")
    case False
    from fin [OF this that] show ?thesis by (simp add: finished_def)
  qed (use m that assms(2) in simp)
  then have "spin_pending s = 0" unfolding spin_pending_def total_of_def by (auto intro!: sum.neutral)
  moreover have "\<not> inside is_acquire is_release s p" for p using over by (auto simp: inside_def)
  ultimately show "mc_mem s = 800" using commits_alone [OF w(2)] by simp
qed

lemma spin_running_exec:
  assumes "exec pid child s = Some s'" "pid \<noteq> child" "spin_running p0 s"
  shows "spin_running p0 s'"
proof -
  have w: "fork_join p0 THREAD_COUNT s" "spin_mutex s" "\<And>p. \<not> is_blocked p s" "does_ok is_acquire is_release inc_effect s"
      "commits is_acquire is_release s (word_of_int (800 - spin_pending s))"
    using assms(3) unfolding spin_running_def by blast+
  have ch: "\<forall>i \<in> set (th_code w). spin_child_instr i" if "q \<noteq> p0" "mc_threads s q = Some w" for q w
    using assms(3) that unfolding spin_running_def by blast
  obtain t0 ys where t0: "mc_threads s p0 = Some t0" "spin_main = ys @ th_code t0"
      "th_code t0 = [] \<longrightarrow> (\<exists>out. mc_out s = out @ [CounterResult 800])"
    using assms(3) unfolding spin_running_def by blast
  obtain t where t: "mc_threads s pid = Some t" using exec_thread [OF assms(1)] by blast
  have lp: "th_loop t = []" using w(1) t by (cases "pid = p0") (auto simp: fork_join_def main_ok_def)
  have fin: "finite (dom (mc_threads s))" using w(1) by (auto simp: fork_join_def main_ok_def)
  obtain i where i: "next_instr pid s = Some i" using count_exec [OF assms(1,2) fin t lp] by blast
  obtain c where c: "th_code t = i # c" using i t by (auto simp: next_instr_def split: list.splits)
  have nw: "\<forall>k. i \<noteq> SemWait k"
  proof (cases "pid = p0")
    case True
    then have "spin_main = ys @ i # c" using t0 t c by simp
    then show ?thesis using spin_main_suffix [of ys i c] by auto
  qed (use ch [of pid t] t c in auto)
  have mutex: "spin_mutex s'" by (rule spin_mutex_exec [OF assms(1,2) w(2)])
  have "commits is_acquire is_release s' (word_of_int (800 - spin_pending s'))"
    unfolding spin_pending [OF assms(1,2) w(2) fin t lp w(3)] pending_word
    by (rule spin_lock.effect_step [OF assms(1,2) w(2) mutex w(5,4)]) simp
  moreover have "does_ok is_acquire is_release inc_effect s'"
    using does_ok_exec [OF assms(1,2) _ w(4)] w(2) by (simp add: spin_mutex_def)
  moreover have "\<not> is_blocked p s'" for p using blocked_keep [OF assms(1,2), of p] w(3) i nw by auto
  moreover have "\<forall>i \<in> set (th_code u). spin_child_instr i" if "p \<noteq> p0" "mc_threads s' p = Some u" for p u
  proof (rule child_code_keep [OF assms(1,2) w(1) ch _ that])
    fix t1 code lp
    assume "mc_threads s p0 = Some t1" "Fork code lp \<in> set (th_code t1)"
    then have "Fork code lp \<in> set (ys @ th_code t0)" using t0(1) by simp
    then have "Fork code lp \<in> set spin_main" by (simp only: t0(2))
    then obtain xs zs where "spin_main = xs @ Fork code lp # zs" by (meson split_list)
    then show "\<forall>i \<in> set code. spin_child_instr i" using spin_main_suffix [of xs "Fork code lp" zs] spin_child_code by simp
  qed
  moreover have "\<exists>t ys. mc_threads s' p0 = Some t \<and> spin_main = ys @ th_code t \<and>
      (th_code t = [] \<longrightarrow> (\<exists>out. mc_out s' = out @ [CounterResult 800]))"
  proof (cases "pid = p0")
    case True
    have sx: "spin_main = ys @ i # c" using t0 t c True by simp
    have "\<exists>out. mc_out s' = out @ [CounterResult 800]" if "c = []"
    proof -
      have p: "i = Print (\<lambda>_ counter. CounterResult counter)" using spin_main_suffix [OF sx] that by (cases i) auto
      have m: "mc_mem s = 800" using spin_all_done(1) [OF assms(3), of t] t c True that p by auto
      have "mc_out s' = mc_out s @ [CounterResult (mc_mem s)]" using assms(1) by (cases rule: exec_cases) (use t c p in auto)
      then show ?thesis using m by simp
    qed
    moreover obtain t' where "mc_threads s' p0 = Some t'" "th_code t' = c" using exec_self [OF assms(1,2) t] c True by auto
    ultimately show ?thesis using sx by (intro exI [of _ t'] exI [of _ "ys @ [i]"]) simp
  next
    case False
    obtain b where "mc_threads s' p0 = Some (t0\<lparr>th_blocked := b\<rparr>)" using exec_others [OF assms(1) _ t0(1)] False by auto
    moreover have "th_code t0 = [] \<Longrightarrow> False"
    proof -
      assume "th_code t0 = []"
      then have "finished t" using spin_all_done(2) [OF assms(3) t0(1) _ False t] by simp
      then show False using assms(1) t by (simp add: exec_def finished_def)
    qed
    ultimately show ?thesis using t0(2) by auto
  qed
  ultimately show ?thesis
    unfolding spin_running_def using mutex fork_join_exec [OF assms(1,2) w(1)] by blast
qed

lemma spin_progress:
  assumes "spin_running p0 s" "mc_threads s q = Some u" "\<not> finished u"
  shows "\<exists>s'. step s s'"
proof -
  have w: "fork_join p0 THREAD_COUNT s" "spin_mutex s" "\<And>p. \<not> is_blocked p s"
    using assms(1) unfolding spin_running_def by blast+
  have ch: "\<forall>i \<in> set (th_code r). spin_child_instr i" if "p \<noteq> p0" "mc_threads s p = Some r" for p r
    using assms(1) that unfolding spin_running_def by blast
  obtain t0 ys where t0: "mc_threads s p0 = Some t0" "spin_main = ys @ th_code t0" using assms(1) unfolding spin_running_def by blast
  obtain child where child: "mc_threads s child = None" using fork_join_unused [OF w(1)] by (auto simp: THREAD_COUNT_def)
  have nb: "\<not> th_blocked r" if "mc_threads s p = Some r" for p r using w(3) [of p] that by (auto simp: is_blocked_def)
  have go: "\<exists>s'. step s s'" if p: "p \<noteq> p0" "mc_threads s p = Some t" "th_code t = i # c" "i = Acquire \<longrightarrow> \<not> bolt (mc_lock s)" for p t i c
  proof -
    have "spin_child_instr i" using ch [OF p(1,2)] p(3) by simp
    then have "\<not> is_fork i" "\<not> is_join n i" for n by (cases i; auto)+
    then have "\<exists>s'. exec p child s = Some s'"
      using exec_total [OF p(2) nb [OF p(2)] p(3)] p nb [OF p(2)] by (cases "i = Acquire") (auto simp: exec_def acquire_def)
    then show ?thesis using step.intros [of p child s] p(2) child by fastforce
  qed
  consider (hold) p where "holds s p" | (free) p t where "\<not> bolt (mc_lock s)" "p \<noteq> p0" "mc_threads s p = Some t" "\<not> finished t"
    | (main) "\<And>p t. p \<noteq> p0 \<Longrightarrow> mc_threads s p = Some t \<Longrightarrow> finished t"
    using w(2) unfolding spin_mutex_def by (metis (full_types))
  then show ?thesis
  proof cases
    case (hold p)
    then obtain t where t: "mc_threads s p = Some t" "in_section is_acquire is_release (th_code t)" by (auto simp: holds_def)
    have "p \<noteq> p0"
    proof
      assume "p = p0"
      then have "\<exists>x \<in> set (ys @ th_code t0). is_release x" using in_section_leave [OF t(2)] t(1) t0(1) by auto
      then have "\<exists>x \<in> set spin_main. is_release x" by (simp only: t0(2))
      then show False by (auto simp: spin_main_def wait_all_def)
    qed
    moreover obtain i c where ic: "th_code t = i # c" using t(2) by (cases "th_code t") auto
    moreover have "i \<noteq> Acquire" using t(2) ic by auto
    ultimately show ?thesis using go t(1) by blast
  next
    case (free p t)
    moreover have "th_code t \<noteq> []" using free nb [OF free(3)] w(1) by (auto simp: finished_def fork_join_def)
    ultimately show ?thesis using go by (cases "th_code t") auto
  next
    case main
    then have "\<not> finished t0" using assms(2,3) t0(1) by (cases "q = p0") auto
    then obtain i c where ic: "th_code t0 = i # c"
      using w(1) t0(1) nb [OF t0(1)] by (cases "th_code t0") (auto simp: finished_def fork_join_def main_ok_def)
    then have "spin_main = ys @ i # c" using t0(2) by simp
    note sx = spin_main_suffix [OF this]
    have "\<exists>s'. exec p0 child s = Some s'"
      by (rule fork_join_main [OF w(1) t0(1) nb [OF t0(1)] ic _ _ child]) (use sx main in auto)
    then show ?thesis using step.intros [of p0 child s] t0(1) child by fastforce
  qed
qed

lemma spin_main_code: "bracketed is_acquire is_release False spin_main"
    "all_do is_acquire is_release inc_effect spin_main" "count_code is_acquire spin_main = 800" "forks_ok spin_main"
    "length (filter is_fork spin_main) = THREAD_COUNT" "i < THREAD_COUNT \<Longrightarrow> \<exists>x \<in> set spin_main. is_join i x"
  by (auto simp: spin_main_def wait_all_def THREAD_COUNT_def upt_rec [of 0] numeral_eq_Suc spin_code forks_ok_def less_Suc_eq)

lemma spin_start: "spin_running p0 (start l 0 spin_main p0)"
proof -
  let ?s = "start l 0 spin_main p0"
  let ?t = "new_thread l spin_main [] :: (u64, u64, line) thread"
  have th: "mc_threads ?s = [p0 \<mapsto> ?t]" "mc_mem ?s = 0" "\<not> bolt (mc_lock ?s)" by (simp_all add: start_def spinlock_new_def)
  have t: "th_code ?t = spin_main" "th_loop ?t = []" "\<not> th_blocked ?t" "th_children ?t = []" by (simp_all add: new_thread_def)
  have sec: "\<not> in_section is_acquire is_release spin_main" using bracketed_in_section [OF spin_main_code(1)] by simp
  have "fork_join p0 THREAD_COUNT ?s" using spin_main_code(4-6) by (auto simp: fork_join_def main_ok_def th t)
  moreover have "sections_ok is_acquire is_release ?s" using spin_main_code(1) sec by (auto simp: sections_ok_def th t)
  moreover have "spin_pending ?s = 800" by (simp add: spin_pending_def total_of_def th t spin_main_code(3))
  moreover have "\<not> inside is_acquire is_release ?s p" "\<not> holds ?s p" for p using sec by (auto simp: inside_def holds_def th t)
  moreover have "spin_main \<noteq> []" by (simp add: spin_main_def)
  ultimately show ?thesis
    unfolding spin_running_def spin_mutex_def commits_def does_ok_def using spin_main_code(2) by (auto simp: th t sec is_blocked_def)
qed

lemma spin_runs:
  "(step ^^ n) (start l 0 spin_main p0) s \<Longrightarrow> spin_running p0 s \<and> code_left s + int n = 618427"
proof (induction n arbitrary: s)
  case 0
  have "count_code (\<lambda>_. True) delay = 256" by (simp add: delay_def)
  then have "count_code (\<lambda>_. True) spin_do_counter_inc = 77300"
    by (simp add: spin_do_counter_inc_def inc_counter_def sum_list_replicate)
  then have "count_code (\<lambda>_. True) spin_main = 618427"
    by (simp add: spin_main_def wait_all_def THREAD_COUNT_def o_def sum_list_triv)
  then show ?case using 0 spin_start by (auto simp: code_left_def total_of_def start_def new_thread_def)
next
  case (Suc n)
  then obtain u where u: "(step ^^ n) (start l 0 spin_main p0) u" "step u s" by auto
  then have r: "spin_running p0 u" "code_left u + int n = 618427" using Suc.IH by blast+
  obtain pid child where e: "pid \<noteq> child" "exec pid child u = Some s" using u(2) by (auto elim: step.cases)
  obtain t where t: "mc_threads u pid = Some t" using exec_thread [OF e(2)] by blast
  have "fork_join p0 THREAD_COUNT u" using r(1) by (simp add: spin_running_def)
  then have "finite (dom (mc_threads u))" "th_loop t = []" using t by (cases "pid = p0"; auto simp: fork_join_def main_ok_def)+
  then have "code_left s = code_left u - 1" using count_exec [OF e(2,1) _ t, of "\<lambda>_. True"] by (auto simp: code_left_def)
  then show ?case using r spin_running_exec [OF e(2,1) r(1)] by simp
qed

text \<open>
  C6. The spin lock program increments its counter exactly 800 times in every interleaving: no run has
  more than its 618427 instructions that complete, and a run that cannot continue has ended, with
  every process exited and the counter 800 printed.
\<close>

theorem spin_counts_to_800:
  assumes "(step ^^ n) (start l 0 spin_main p0) s"
  shows "n \<le> 618427 \<and> ((\<nexists>s'. step s s') \<longrightarrow> mc_mem s = 800 \<and> (\<exists>out. mc_out s = out @ [CounterResult 800]) \<and>
    (\<forall>p t. mc_threads s p = Some t \<longrightarrow> finished t))"
proof (intro conjI impI)
  note r = spin_runs [OF assms]
  then show "n \<le> 618427" using code_left_nonneg [of s] by linarith
  assume "\<nexists>s'. step s s'"
  then show fin: "\<forall>p t. mc_threads s p = Some t \<longrightarrow> finished t" using spin_progress r by blast
  obtain t where t: "mc_threads s p0 = Some t" "th_code t = [] \<longrightarrow> (\<exists>out. mc_out s = out @ [CounterResult 800])"
    using r unfolding spin_running_def by blast
  then have "th_code t = []" using fin by (simp add: finished_def)
  then show "mc_mem s = 800" "\<exists>out. mc_out s = out @ [CounterResult 800]" using spin_all_done(1) [OF _ t(1)] r t(2) by auto
qed

theorem spin_counts_to_800_witness:
  "\<exists>n s. (step ^^ n) (start 0 0 spin_main (ProcessId 2)) s \<and> (\<nexists>s'. step s s') \<and> mc_mem s = 800"
proof -
  have "n \<le> 618427" if "(step ^^ n) (start 0 0 spin_main (ProcessId 2)) s" for n s using spin_counts_to_800 [OF that] by blast
  then obtain n s where run: "(step ^^ n) (start 0 0 spin_main (ProcessId 2)) s" "\<nexists>s'. step s s'"
    using bounded_run [of step "start 0 0 spin_main (ProcessId 2)" 618427] by blast
  then show ?thesis using spin_counts_to_800 [OF run(1)] by blast
qed

end
