(* ===== verification/Spec2Isabelle.thy ===== *)
theory Spec2Isabelle
  imports Storage_Properties Resource_Properties App_Counter
begin

text \<open>
  A verification library for YSOS, a small operating system in Rust: a UEFI boot loader (\<open>pkg/boot\<close>), an
  ELF loader (\<open>pkg/elf\<close>), a kernel (\<open>pkg/kernel\<close>) with paging, preemptive processes, semaphores and
  system calls, a storage stack (\<open>pkg/storage\<close>: partitions and FAT16) on an ATA driver, a user library
  (\<open>pkg/lib\<close>, \<open>pkg/syscall\<close>) and applications (\<open>pkg/app\<close>).

  \<^bold>\<open>How the parts interact.\<close> The clock interrupt, a system call or a page fault enters the kernel with
  the saved context of a process. The handler changes the process table, the memory and the resources, and
  returns the context of the process that runs next. Memory comes from the frame allocator through the
  page tables, which a fork shares between parent and child. A read of a file goes from the descriptor to
  the mount, the FAT16 volume, the partition, and the ports of the ATA bus. User programs fork
  processes that share their memory and synchronise by the semaphores of the kernel or by spin locks.

  \<^bold>\<open>The model.\<close> A function of the source is a HOL function that takes the state it changes and returns
  the new one, as an \<open>outcome\<close> (\<open>Rust_Prelude\<close>): \<open>Ok\<close> or \<open>Err\<close> for the result, \<open>Panic\<close> for a panic and
  \<open>Hang\<close> for a loop that never ends. Machine integers are words with the wrap-around of the release
  build; a string is the list of its UTF-8 bytes; a page or a frame is its number; an \<open>Arc\<close> is a
  reference into a store with counts; a process is known by its identifier. The kernel runs on one
  processor with interrupts disabled, so its functions run one after another. Code outside the repository
  is a parameter, with its documented behaviour as a named hypothesis: the page tables of the crate
  \<open>x86_64\<close> (\<open>mapper\<close>, \<open>mapper_laws\<close>; \<open>paging\<close>, \<open>paging_laws\<close>), the accessors of \<open>xmas_elf\<close>, port input and
  output (\<open>port_io\<close>), the calendar and Unicode tables (\<open>externs\<close>). Definitions are executable, and the
  witnesses run them on concrete states.

  \<^bold>\<open>The theories.\<close>
  \<^item> \<open>Rust_Prelude\<close>, \<open>Rust_Str\<close>: outcomes, words, slices and the string functions of the standard library.
  \<^item> \<open>Storage_Common\<close> (\<open>storage/src/common\<close>), \<open>Storage_Partition\<close> (\<open>partition\<close>), \<open>Fat16_Bpb\<close>,
    \<open>Fat16_DirEntry\<close>, \<open>Fat16_Fs\<close>, \<open>Fat16_File\<close> (\<open>fs/fat16\<close>), \<open>Storage_Mount\<close> (\<open>common/{filesystem,mount}.rs\<close>):
    the storage stack. The traits are locales (\<open>block_device\<close>, \<open>block_store\<close>, \<open>byte_reader\<close>, \<open>file_system\<close>,
    \<open>mounted_file_system\<close>), interpreted on the partition, the file and the volume.
  \<^item> \<open>Ata_Bus\<close> (\<open>kernel/src/drivers/ata\<close>) over any \<open>port_io\<close>; \<open>Ata_Disk\<close> is a drive with the behaviour of the
    ATA standard, on which the driver is a \<open>block_store\<close>.
  \<^item> \<open>Mem_Frames\<close> (\<open>kernel/src/memory/frames.rs\<close>), \<open>Elf_Map\<close>, \<open>Elf_Load\<close> (\<open>elf/src/lib.rs\<close>), \<open>Vm_Stack\<close>,
    \<open>Vm_Heap\<close>, \<open>Vm_Process\<close> (\<open>kernel/src/proc/vm\<close>, \<open>paging.rs\<close>): frames, mapping, loading and the address
    spaces.
  \<^item> \<open>Proc_Sync\<close> (\<open>proc/{pid,sync}.rs\<close>), \<open>Proc_Resource\<close> (\<open>utils/resource.rs\<close>, \<open>drivers/input.rs\<close>),
    \<open>Proc_Process\<close> (\<open>proc/{context,data,process,processor}.rs\<close>), \<open>Proc_Manager\<close> (\<open>manager.rs\<close>), \<open>Proc_Ops\<close>
    (\<open>proc/mod.rs\<close>), \<open>Sys_Call\<close> (\<open>interrupt/syscall\<close>, \<open>pkg/syscall\<close>): processes and system calls.
  \<^item> \<open>Proc_Invariant\<close>, \<open>Proc_Handlers\<close>, \<open>Sys_Invariant\<close>: the invariant of the kernel, and that every handler
    keeps it; \<open>interrupt\<close> is the step relation of the whole kernel.
  \<^item> \<open>User_Threads\<close>, \<open>User_Mutex\<close>, \<open>User_ForkJoin\<close>, \<open>User_Sections\<close> (\<open>lib/src/sync.rs\<close>): user programs that
    share memory, as a step relation that interleaves their instructions; the locale \<open>exclusion\<close> is the
    contract of a lock, kept by semaphores and spin locks. \<open>App_Counter\<close> has the programs \<open>sem\<close> and \<open>spin\<close>.
  \<^item> \<open>Memory_Properties\<close>, \<open>Storage_Properties\<close>, \<open>Kernel_Properties\<close>, \<open>Resource_Properties\<close> hold the properties
    and their witnesses.

  \<^bold>\<open>Loops and bounds.\<close> A loop whose end depends on data (cluster chains, polls of a status register, the
  turn of the ready queue, the key loop) is a \<open>partial_function\<close> or takes the list of what will arrive;
  that it ends is a theorem where the code ensures it, and \<open>Hang\<close> is a value where it does not. Runs of
  the programs are bounded by the instructions they have. There is no fuel.
\<close>

end
